(* ===== verification/Prelude.thy ===== *)
theory Prelude
  imports Main "HOL-Library.Word" "HOL-Library.Multiset" "HOL-Library.Char_ord"
    "HOL-Library.List_Lexorder"
begin

text \<open>
  Shared vocabulary of the development: the faults a C++ operation can end in, the pieces of the
  C++ standard library that the sources under src/ call on strings and integers
  (\<open>string_view::find\<close>, \<open>starts_with\<close>, \<open>boost::trim_copy\<close> over \<open>std::isspace\<close>,
  \<open>std::from_chars\<close>, the integer conversions, decimal printing, \<open>boost::join\<close>), and the
  generic list lemmas that the component theories reuse.

  A \<open>char\<close> is one byte, as in the code; strings are byte sequences.
\<close>

section \<open>Faults and results\<close>

text \<open>
  \<open>Out_Of_Bounds\<close> is an access outside a container without a check (undefined behaviour in
  C++); \<open>Out_Of_Range\<close> is the exception of \<open>at()\<close>; \<open>Runtime_Error\<close> a thrown
  \<open>std::runtime_error\<close> with its text; \<open>Regex_Error\<close> what the constructor of
  \<open>std::regex\<close> throws on an ill-formed pattern, \<open>Bad_Function_Call\<close> the call of an empty
  \<open>std::function\<close>.
\<close>

datatype fault =
    Out_Of_Bounds
  | Out_Of_Range
  | Runtime_Error string
  | Regex_Error
  | Bad_Function_Call
  | Unknown_Exception

type_synonym 'a result = "fault + 'a"

definition rmap :: "('a \<Rightarrow> 'b) \<Rightarrow> 'a result \<Rightarrow> 'b result" where
  "rmap f r = (case r of Inl e \<Rightarrow> Inl e | Inr x \<Rightarrow> Inr (f x))"

definition rbind :: "'a result \<Rightarrow> ('a \<Rightarrow> 'b result) \<Rightarrow> 'b result" where
  "rbind r f = (case r of Inl e \<Rightarrow> Inl e | Inr x \<Rightarrow> f x)"

lemma rmap_simps [simp]: "rmap f (Inl e) = Inl e" "rmap f (Inr x) = Inr (f x)"
  by (simp_all add: rmap_def)

lemma rbind_simps [simp]: "rbind (Inl e) f = Inl e" "rbind (Inr x) f = f x"
  by (simp_all add: rbind_def)

lemma rmap_rmap [simp]: "rmap f (rmap g r) = rmap (\<lambda>x. f (g x)) r"
  by (cases r) simp_all

lemma rmap_eq_Inr: "rmap f r = Inr y \<longleftrightarrow> (\<exists>x. r = Inr x \<and> y = f x)"
  by (cases r) auto

lemma rbind_eq_Inr: "rbind r f = Inr y \<longleftrightarrow> (\<exists>x. r = Inr x \<and> f x = Inr y)"
  by (cases r) auto

lemma rbind_cong [fundef_cong]:
  "r = r' \<Longrightarrow> (\<And>x. r' = Inr x \<Longrightarrow> f x = f' x) \<Longrightarrow> rbind r f = rbind r' f'"
  by (cases r') auto

named_theorems string_simps "facts about the string operations of the standard library"

section \<open>Characters\<close>

definition isspace :: "char \<Rightarrow> bool" where
  "isspace c \<longleftrightarrow> c = CHR '' '' \<or> (9 \<le> (of_char c :: nat) \<and> (of_char c :: nat) \<le> 13)"

definition isdigit :: "char \<Rightarrow> bool" where
  "isdigit c \<longleftrightarrow> 48 \<le> (of_char c :: nat) \<and> (of_char c :: nat) \<le> 57"

definition isalnum :: "char \<Rightarrow> bool" where
  "isalnum c \<longleftrightarrow> (let n = (of_char c :: nat) in
     (48 \<le> n \<and> n \<le> 57) \<or> (65 \<le> n \<and> n \<le> 90) \<or> (97 \<le> n \<and> n \<le> 122))"

abbreviation cr :: char where "cr \<equiv> CHR 0x0D"
abbreviation lf :: char where "lf \<equiv> CHR 0x0A"
abbreviation dquote :: char where "dquote \<equiv> CHR 0x22"
abbreviation backslash :: char where "backslash \<equiv> CHR 0x5C"
abbreviation crlf :: string where "crlf \<equiv> [cr, lf]"

section \<open>Strings\<close>

definition trim_left :: "string \<Rightarrow> string" where
  "trim_left s = dropWhile isspace s"

definition trim :: "string \<Rightarrow> string" where
  "trim s = rev (dropWhile isspace (rev (dropWhile isspace s)))"

definition starts_with :: "'a list \<Rightarrow> 'a list \<Rightarrow> bool" where
  "starts_with p s \<longleftrightarrow> take (length p) s = p"

definition ends_with :: "'a list \<Rightarrow> 'a list \<Rightarrow> bool" where
  "ends_with p s \<longleftrightarrow> starts_with (rev p) (rev s)"

text \<open>\<open>find(needle)\<close>: the first position of the needle, \<open>None\<close> for \<open>npos\<close>.\<close>

fun find_sub :: "'a list \<Rightarrow> 'a list \<Rightarrow> nat option" where
  "find_sub p [] = (if p = [] then Some 0 else None)"
| "find_sub p (x # xs) =
     (if starts_with p (x # xs) then Some 0 else map_option Suc (find_sub p xs))"

definition find_from :: "'a list \<Rightarrow> 'a list \<Rightarrow> nat \<Rightarrow> nat option" where
  "find_from p s pos =
     (if length s < pos then None else map_option (\<lambda>i. pos + i) (find_sub p (drop pos s)))"

definition substr :: "'a list \<Rightarrow> nat \<Rightarrow> nat \<Rightarrow> 'a list" where
  "substr s pos n = take n (drop pos s)"

fun join :: "'a list \<Rightarrow> 'a list list \<Rightarrow> 'a list" where
  "join sep [] = []"
| "join sep [x] = x"
| "join sep (x # y # ys) = x @ sep @ join sep (y # ys)"

text \<open>\<open>tolower\<close> in the C locale.\<close>

definition to_lower :: "char \<Rightarrow> char" where
  "to_lower c = (let n = (of_char c :: nat) in if 65 \<le> n \<and> n \<le> 90 then char_of (n + 32) else c)"

section \<open>Integers\<close>

text \<open>Conversion to a signed or unsigned integer type of \<open>w\<close> bits (modular since C++20).\<close>

definition to_signed :: "nat \<Rightarrow> int \<Rightarrow> int" where
  "to_signed w x = (x + 2 ^ (w - 1)) mod 2 ^ w - 2 ^ (w - 1)"

definition to_unsigned :: "nat \<Rightarrow> int \<Rightarrow> int" where
  "to_unsigned w x = x mod 2 ^ w"

definition digit_val :: "char \<Rightarrow> int" where
  "digit_val c = int (of_char c) - 48"

definition digits_val :: "string \<Rightarrow> int" where
  "digits_val ds = foldl (\<lambda>n c. 10 * n + digit_val c) 0 ds"

datatype errc = Invalid_Argument | Result_Out_Of_Range

text \<open>
  \<open>std::from_chars\<close> for a signed type of \<open>w\<close> bits, base 10: an optional minus, then
  as many digits as there are; what follows them is left over and ignored by every caller here.
\<close>

definition from_chars :: "nat \<Rightarrow> string \<Rightarrow> errc + int" where
  "from_chars w s =
     (let neg = starts_with ''-'' s;
          ds = takeWhile isdigit (if neg then drop 1 s else s);
          v = (if neg then - digits_val ds else digits_val ds)
      in if ds = [] then Inl Invalid_Argument
         else if - (2 ^ (w - 1)) \<le> v \<and> v < 2 ^ (w - 1) then Inr v
         else Inl Result_Out_Of_Range)"

definition digit_char :: "nat \<Rightarrow> char" where
  "digit_char d = char_of (48 + d)"

fun dec_nat :: "nat \<Rightarrow> string" where
  "dec_nat n = (if n < 10 then [digit_char n] else dec_nat (n div 10) @ [digit_char (n mod 10)])"

declare dec_nat.simps [simp del]

definition dec_int :: "int \<Rightarrow> string" where
  "dec_int i = (if i < 0 then ''-'' @ dec_nat (nat (- i)) else dec_nat (nat i))"

section \<open>Lemmas\<close>

subsection \<open>Prefixes and search\<close>

lemma starts_with_Nil [simp, string_simps]: "starts_with [] s"
  by (simp add: starts_with_def)

lemma starts_with_Cons_Nil [simp, string_simps]: "\<not> starts_with (x # xs) []"
  by (simp add: starts_with_def)

lemma starts_with_Cons [simp, string_simps]:
  "starts_with (x # xs) (y # ys) \<longleftrightarrow> x = y \<and> starts_with xs ys"
  by (auto simp: starts_with_def)

lemma starts_with_append [simp, string_simps]: "starts_with p (p @ s)"
  by (simp add: starts_with_def)

lemma starts_with_append_append [simp]: "starts_with (p @ q) (p @ s) \<longleftrightarrow> starts_with q s"
  by (simp add: starts_with_def)

lemma starts_with_iff: "starts_with p s \<longleftrightarrow> (\<exists>t. s = p @ t)"
  unfolding starts_with_def by (metis append_eq_conv_conj append_take_drop_id)

lemma starts_with_length: "starts_with p s \<Longrightarrow> length p \<le> length s"
  by (auto simp: starts_with_iff)

lemma ends_with_append [simp]: "ends_with p (s @ p)"
  by (simp add: ends_with_def)

lemma find_sub_SomeD:
  "find_sub p s = Some i \<Longrightarrow>
     i + length p \<le> length s \<and> starts_with p (drop i s) \<and> (\<forall>j<i. \<not> starts_with p (drop j s))"
proof (induction s arbitrary: i)
  case Nil
  then show ?case by (auto split: if_splits)
next
  case (Cons x xs)
  show ?case
  proof (cases "starts_with p (x # xs)")
    case True
    with Cons.prems show ?thesis by (auto dest: starts_with_length)
  next
    case False
    with Cons.prems obtain k where k: "find_sub p xs = Some k" "i = Suc k"
      by auto
    have "\<not> starts_with p (drop j (x # xs))" if "j < Suc k" for j
      using that Cons.IH [OF k(1)] False by (cases j) auto
    then show ?thesis using Cons.IH [OF k(1)] k(2) by simp
  qed
qed

lemma find_sub_NoneD: "find_sub p s = None \<Longrightarrow> \<not> starts_with p (drop j s)"
proof (induction s arbitrary: j)
  case Nil
  then show ?case by (cases p) auto
next
  case (Cons x xs)
  then show ?case by (cases j) (auto split: if_splits)
qed

lemma find_sub_eqI:
  "starts_with p (drop i s) \<Longrightarrow> i + length p \<le> length s \<Longrightarrow>
   (\<And>j. j < i \<Longrightarrow> \<not> starts_with p (drop j s)) \<Longrightarrow> find_sub p s = Some i"
proof (induction s arbitrary: i)
  case Nil
  then show ?case by simp
next
  case (Cons x xs)
  show ?case
  proof (cases i)
    case 0
    with Cons.prems(1) show ?thesis by simp
  next
    case (Suc k)
    from Cons.prems(3) [of 0] Suc have "\<not> starts_with p (x # xs)" by simp
    moreover have "\<not> starts_with p (drop j xs)" if "j < k" for j
      using that Cons.prems(3) [of "Suc j"] Suc by simp
    then have "find_sub p xs = Some k"
      using Cons.prems(1,2) Suc by (intro Cons.IH) simp_all
    ultimately show ?thesis using Suc by simp
  qed
qed

lemma find_sub_char:
  "find_sub [c] s = (if c \<in> set s then Some (length (takeWhile (\<lambda>x. x \<noteq> c) s)) else None)"
  by (induction s) auto

lemma find_sub_char_None [simp]: "find_sub [c] s = None \<longleftrightarrow> c \<notin> set s"
  by (simp add: find_sub_char)

lemma find_sub_char_append:
  "c \<notin> set a \<Longrightarrow> find_sub [c] (a @ c # b) = Some (length a)"
  by (induction a) auto

lemma starts_with_hd_notin: "c \<notin> set s \<Longrightarrow> \<not> starts_with (c # p) s"
  by (cases s) auto

lemma find_sub_hd_notin: "c \<notin> set s \<Longrightarrow> find_sub (c # p) s = None"
  by (induction s) (auto simp: starts_with_hd_notin)

text \<open>
  A needle whose first byte occurs nowhere else in it is found right after a text that does not
  hold it: no occurrence can straddle the seam.
\<close>

lemma find_sub_append_hit:
  assumes none: "find_sub (c # p) a = None" and c: "c \<notin> set p"
  shows "find_sub (c # p) (a @ (c # p) @ b) = Some (length a)"
proof (rule find_sub_eqI)
  show "starts_with (c # p) (drop (length a) (a @ (c # p) @ b))" by simp
  show "length a + length (c # p) \<le> length (a @ (c # p) @ b)" by simp
next
  fix j assume j: "j < length a"
  show "\<not> starts_with (c # p) (drop j (a @ (c # p) @ b))"
  proof
    assume hit: "starts_with (c # p) (drop j (a @ (c # p) @ b))"
    then have eq: "take (Suc (length p)) (drop j a @ (c # p) @ b) = c # p"
      using j by (simp add: starts_with_def)
    show False
    proof (cases "Suc (length p) \<le> length (drop j a)")
      case True
      with eq have "take (Suc (length p)) (drop j a) = c # p" by simp
      then have "starts_with (c # p) (drop j a)" by (simp add: starts_with_def)
      with find_sub_NoneD [OF none] show False by blast
    next
      case False
      then have le: "length (drop j a) \<le> length p" by simp
      from j le have "(c # p) ! length (drop j a) = c"
        by (subst eq [symmetric]) (simp add: nth_append)
      moreover have "0 < length (drop j a)" using j by simp
      ultimately have "c \<in> set p" using le
        by (cases "length (drop j a)") auto
      with c show False by contradiction
    qed
  qed
qed

lemma find_sub_skip:
  "c \<notin> set a \<Longrightarrow> find_sub (c # p) (a @ s) = map_option ((+) (length a)) (find_sub (c # p) s)"
  by (induction a; cases "find_sub (c # p) s") auto

lemma find_sub_suffix_None: "find_sub p (a @ s) = None \<Longrightarrow> find_sub p s = None"
  by (induction a) (auto split: if_splits)

text \<open>A hit, or a prefix that is long enough to decide, is not undone by more text.\<close>

lemma starts_with_append_right:
  "length p \<le> length s \<Longrightarrow> starts_with p (s @ x) \<longleftrightarrow> starts_with p s"
  by (simp add: starts_with_def)

lemma find_sub_append_right: "find_sub p s = Some i \<Longrightarrow> find_sub p (s @ x) = Some i"
proof (induction s arbitrary: i)
  case Nil
  then show ?case by (cases x) (auto split: if_splits)
next
  case (Cons c s)
  then have "length p \<le> length (c # s)"
    using find_sub_SomeD [OF Cons.prems] by simp
  from starts_with_append_right [OF this, of x] Cons show ?case
    by (auto split: if_splits)
qed

subsection \<open>Trimming\<close>

lemma dropWhile_id: "(s = [] \<or> \<not> P (hd s)) \<Longrightarrow> dropWhile P s = s"
  by (cases s) auto

lemma trim_id:
  "s = [] \<or> (\<not> isspace (hd s) \<and> \<not> isspace (last s)) \<Longrightarrow> trim s = s"
  by (auto simp: trim_def dropWhile_id hd_rev)

lemma trim_Nil [simp]: "trim [] = []"
  by (simp add: trim_def)

lemma trim_id_no_space: "\<forall>c\<in>set s. \<not> isspace c \<Longrightarrow> trim s = s"
  by (rule trim_id) auto

lemma set_trim: "set (trim s) \<subseteq> set s"
  by (auto simp: trim_def dest!: set_dropWhileD)

lemma trim_Cons_space: "isspace c \<Longrightarrow> trim (c # s) = trim s"
  by (simp add: trim_def)

lemma trim_hd: "trim s \<noteq> [] \<Longrightarrow> \<not> isspace (hd (trim s))"
proof -
  assume ne: "trim s \<noteq> []"
  let ?d = "dropWhile isspace s"
  have t: "trim s = rev (dropWhile isspace (rev ?d))" by (simp add: trim_def)
  obtain w where w: "rev ?d = w @ dropWhile isspace (rev ?d)"
    by (metis takeWhile_dropWhile_id)
  then have "?d = trim s @ rev w" using t by (metis rev_append rev_rev_ident)
  then have "hd ?d = hd (trim s)" "?d \<noteq> []" using ne by (auto simp: hd_append)
  then show ?thesis using hd_dropWhile [of isspace s] by simp
qed

lemma trim_last: "trim s \<noteq> [] \<Longrightarrow> \<not> isspace (last (trim s))"
proof -
  assume ne: "trim s \<noteq> []"
  let ?d = "dropWhile isspace (rev (dropWhile isspace s))"
  have t: "trim s = rev ?d" by (simp add: trim_def)
  with ne have "?d \<noteq> []" by auto
  then show ?thesis unfolding t by (simp add: last_rev hd_dropWhile)
qed

lemma trim_append_id:
  "a \<noteq> [] \<Longrightarrow> \<not> isspace (hd a) \<Longrightarrow> b \<noteq> [] \<Longrightarrow> trim b = b \<Longrightarrow> trim (a @ b) = a @ b"
  using trim_last [of b] by (intro trim_id) simp

lemma length_trim_le: "length (trim s) \<le> length s"
  by (metis trim_def length_dropWhile_le length_rev order_trans)

subsection \<open>Joining\<close>

lemma join_Cons: "join sep (x # xs) = (if xs = [] then x else x @ sep @ join sep xs)"
  by (cases xs) auto

lemma set_join: "set (join sep xs) \<subseteq> set sep \<union> \<Union> (set ` set xs)"
  by (induction sep xs rule: join.induct) auto

subsection \<open>Integer conversions\<close>

lemma to_signed_id:
  assumes "0 < w" "- (2 ^ (w - 1)) \<le> x" "x < 2 ^ (w - 1)"
  shows "to_signed w x = x"
proof -
  have p: "(2::int) ^ w = 2 * 2 ^ (w - 1)"
    using assms(1) by (cases w) auto
  have "0 \<le> x + 2 ^ (w - 1)" "x + 2 ^ (w - 1) < 2 ^ w"
    using assms(2,3) p by linarith+
  then show ?thesis by (simp add: to_signed_def)
qed

lemma to_signed_range:
  assumes "0 < w"
  shows "- (2 ^ (w - 1)) \<le> to_signed w x \<and> to_signed w x < 2 ^ (w - 1)"
proof -
  have p: "(2::int) ^ w = 2 * 2 ^ (w - 1)"
    using assms by (cases w) auto
  have "0 \<le> (x + 2 ^ (w - 1)) mod 2 ^ w" "(x + 2 ^ (w - 1)) mod 2 ^ w < 2 ^ w"
    by simp_all
  then show ?thesis using p by (simp add: to_signed_def)
qed

lemma from_chars_range:
  "from_chars w s = Inr v \<Longrightarrow> - (2 ^ (w - 1)) \<le> v \<and> v < 2 ^ (w - 1)"
  by (auto simp: from_chars_def Let_def split: if_splits)

lemma digits_val_nonneg: "\<forall>c\<in>set ds. isdigit c \<Longrightarrow> 0 \<le> digits_val ds"
proof -
  have "\<forall>c\<in>set ds. isdigit c \<Longrightarrow> 0 \<le> n \<Longrightarrow> 0 \<le> foldl (\<lambda>n c. 10 * n + digit_val c) n ds" for n
    by (induction ds arbitrary: n) (auto simp: isdigit_def digit_val_def)
  then show "\<forall>c\<in>set ds. isdigit c \<Longrightarrow> 0 \<le> digits_val ds" by (simp add: digits_val_def)
qed

lemma from_chars_nonneg:
  "from_chars w s = Inr v \<Longrightarrow> CHR ''-'' \<notin> set s \<Longrightarrow> 0 \<le> v"
proof -
  assume r: "from_chars w s = Inr v" and m: "CHR ''-'' \<notin> set s"
  have "\<not> starts_with ''-'' s" using m by (cases s) auto
  with r have "v = digits_val (takeWhile isdigit s)"
    by (auto simp: from_chars_def Let_def split: if_splits)
  moreover have "0 \<le> digits_val (takeWhile isdigit s)"
    by (rule digits_val_nonneg) (auto dest: set_takeWhileD)
  ultimately show "0 \<le> v" by simp
qed

subsection \<open>Decimal printing and reading\<close>

lemma digit_char_facts:
  "d < 10 \<Longrightarrow> isdigit (digit_char d) \<and> digit_val (digit_char d) = int d"
  by (simp add: isdigit_def digit_char_def digit_val_def)

lemma dec_nat_digits: "\<forall>c\<in>set (dec_nat n). isdigit c"
proof (induction n rule: dec_nat.induct)
  case (1 n)
  then show ?case
    by (subst dec_nat.simps) (auto simp: digit_char_facts)
qed

lemma dec_nat_ne [simp]: "dec_nat n \<noteq> []"
  by (subst dec_nat.simps) simp

lemma digits_val_snoc: "digits_val (ds @ [c]) = 10 * digits_val ds + digit_val c"
  by (simp add: digits_val_def)

lemma digits_val_dec_nat: "digits_val (dec_nat n) = int n"
proof (induction n rule: dec_nat.induct)
  case (1 n)
  show ?case
  proof (cases "n < 10")
    case True
    then show ?thesis
      by (subst dec_nat.simps) (simp add: digits_val_def digit_char_facts)
  next
    case False
    with 1 have "digits_val (dec_nat (n div 10)) = int (n div 10)" by simp
    moreover have "int n = 10 * int (n div 10) + int (n mod 10)"
      using mult_div_mod_eq [of 10 n] by linarith
    ultimately show ?thesis using False
      by (subst dec_nat.simps) (simp add: digits_val_snoc digit_char_facts)
  qed
qed

lemma dec_nat_no_minus: "CHR ''-'' \<notin> set (dec_nat n)"
  using dec_nat_digits [of n] by (auto simp: isdigit_def)

lemma not_isspace_digit: "isdigit c \<Longrightarrow> \<not> isspace c"
  by (auto simp: isdigit_def isspace_def)

lemma trim_dec_nat [simp]: "trim (dec_nat n) = dec_nat n"
  using dec_nat_digits [of n] by (intro trim_id_no_space) (auto dest: not_isspace_digit)

lemma not_starts_minus_dec_nat: "\<not> starts_with ''-'' (dec_nat n)"
  using dec_nat_no_minus [of n] by (cases "dec_nat n") auto

lemma from_chars_dec_nat:
  assumes "int n < 2 ^ (w - 1)" and "s = [] \<or> \<not> isdigit (hd s)"
  shows "from_chars w (dec_nat n @ s) = Inr (int n)"
proof -
  have "takeWhile isdigit (dec_nat n @ s) = dec_nat n"
    using dec_nat_digits [of n] assms(2) by (cases s) (auto simp: takeWhile_append)
  moreover have "\<not> starts_with ''-'' (dec_nat n @ s)"
    using not_starts_minus_dec_nat [of n] by (cases "dec_nat n") auto
  moreover have "- (2 ^ (w - 1)) \<le> int n" by (simp add: order_trans [of _ 0])
  ultimately show ?thesis using assms(1)
    by (simp add: from_chars_def digits_val_dec_nat)
qed

lemma from_chars_dec_int:
  assumes "- (2 ^ (w - 1)) \<le> i" "i < 2 ^ (w - 1)"
  shows "from_chars w (dec_int i) = Inr i"
proof (cases "i < 0")
  case True
  have tw: "takeWhile isdigit (dec_nat (nat (- i))) = dec_nat (nat (- i))"
    using dec_nat_digits [of "nat (- i)"] by (simp add: takeWhile_eq_all_conv)
  from True assms show ?thesis
    by (simp add: from_chars_def dec_int_def digits_val_dec_nat Let_def tw)
next
  case False
  with assms from_chars_dec_nat [of "nat i" w "[]"] show ?thesis by (simp add: dec_int_def)
qed

end
