(* ===== verification/Util_Misc.thy ===== *)
theory Util_Misc
  imports Prelude
begin

unbundle bit_operations_syntax

text \<open>
  The string utilities of \<open>include/httplib/util/misc.hpp\<close>: \<open>hex2dec\<close>, the in-place
  \<open>url_decode\<close>, \<open>url_encode\<close> and \<open>split\<close>. The decoder is modelled as the loop
  over one mutable buffer with a read and a write index that it is, every indexing of the
  \<open>std::string\<close> included: \<open>str[size()]\<close> is the terminating zero byte, an index beyond it
  is undefined behaviour and ends the model in \<open>Out_Of_Bounds\<close>. The loop is then proved equal
  to a recursion over the text, and \<open>split\<close> to a reference that knows no positions.
\<close>

section \<open>Bytes\<close>

type_synonym byte = "8 word"

definition byte_of :: "char \<Rightarrow> byte" where
  "byte_of c = word_of_nat (of_char c)"

definition char_of_byte :: "byte \<Rightarrow> char" where
  "char_of_byte b = char_of (unat b)"

definition hex2dec :: "byte \<Rightarrow> byte" where
  "hex2dec c =
     (if byte_of CHR ''0'' \<le> c \<and> c \<le> byte_of CHR ''9'' then c - byte_of CHR ''0''
      else if byte_of CHR ''a'' \<le> c \<and> c \<le> byte_of CHR ''f'' then c - (byte_of CHR ''a'' - 10)
      else if byte_of CHR ''A'' \<le> c \<and> c \<le> byte_of CHR ''F'' then c - (byte_of CHR ''A'' - 10)
      else c)"

section \<open>url\_decode\<close>

definition str_at :: "string \<Rightarrow> nat \<Rightarrow> char result" where
  "str_at s i =
     (if i < length s then Inr (s ! i)
      else if i = length s then Inr (CHR 0x00)
      else Inl Out_Of_Bounds)"

definition hex_pair :: "char \<Rightarrow> char \<Rightarrow> char" where
  "hex_pair h l =
     char_of_byte (push_bit 4 (hex2dec (byte_of h)) OR hex2dec (byte_of l))"

function url_decode_loop :: "string \<Rightarrow> nat \<Rightarrow> nat \<Rightarrow> string result" where
  "url_decode_loop str r w =
     (if r < length str then
        (if str ! r = CHR ''%'' then
           (case str_at str (r + 1) of
              Inl e \<Rightarrow> Inl e
            | Inr h \<Rightarrow>
                (case str_at str (r + 2) of
                   Inl e \<Rightarrow> Inl e
                 | Inr l \<Rightarrow> url_decode_loop (str[w := hex_pair h l]) (r + 3) (w + 1)))
         else url_decode_loop (str[w := str ! r]) (r + 1) (w + 1))
      else Inr (take w str))"
  by pat_completeness auto
termination
  by (relation "measure (\<lambda>(s, r, w). length s - r)") auto

declare url_decode_loop.simps [simp del]

definition url_decode :: "string \<Rightarrow> string result" where
  "url_decode str = url_decode_loop str 0 0"

section \<open>url\_encode\<close>

definition hex_digit :: "nat \<Rightarrow> char" where
  "hex_digit d = (if d < 10 then char_of (48 + d) else char_of (87 + d))"

definition url_encode_char :: "char \<Rightarrow> string" where
  "url_encode_char c =
     (if isalnum c \<or> c = CHR ''-'' \<or> c = CHR ''_'' \<or> c = CHR ''.'' \<or> c = CHR ''~'' then [c]
      else if c = CHR '' '' then [CHR ''+'']
      else [CHR ''%'', hex_digit (of_char c div 16), hex_digit (of_char c mod 16)])"

fun url_encode :: "string \<Rightarrow> string" where
  "url_encode [] = []"
| "url_encode (c # cs) = url_encode_char c @ url_encode cs"

section \<open>split\<close>

text \<open>
  The loop over positions. The first guard is the check that \<open>split\<close> makes before the loop;
  \<open>find_from\<close> yields \<open>Some 0\<close> only on the first round.
\<close>

function split_loop :: "string \<Rightarrow> string \<Rightarrow> nat \<Rightarrow> string list" where
  "split_loop str delim pos =
     (if delim = [] then [str]
      else
        (case find_from delim str pos of
           None \<Rightarrow> [trim (drop pos str)]
         | Some found \<Rightarrow>
             if found = 0 then split_loop str delim (pos + length delim)
             else trim (substr str pos (found - pos)) #
               (if length str \<le> found + length delim then []
                else split_loop str delim (found + length delim))))"
  by pat_completeness auto
termination
proof (relation "measure (\<lambda>(s, d, p). length s - p)", goal_cases)
  case 1
  then show ?case by simp
next
  case (2 str delim pos found)
  then obtain i where i: "find_sub delim (drop pos str) = Some i" and "pos + i = 0"
    by (auto simp: find_from_def split: if_splits)
  then show ?case using 2(1) find_sub_SomeD [OF i] by (cases delim) auto
next
  case (3 str delim pos found)
  then obtain i where i: "find_sub delim (drop pos str) = Some i" and f: "found = pos + i"
    by (auto simp: find_from_def split: if_splits)
  then show ?case using 3(1,4) find_sub_SomeD [OF i] by (cases delim) auto
qed

declare split_loop.simps [simp del]

definition split :: "string \<Rightarrow> string \<Rightarrow> string list" where
  "split str delim = (if str = [] then [] else split_loop str delim 0)"

section \<open>Decoding: the loop against a recursion over the text\<close>

fun decode_text :: "string \<Rightarrow> string result" where
  "decode_text [] = Inr []"
| "decode_text (c # cs) =
     (if c = CHR ''%'' then
        (case cs of
           [] \<Rightarrow> Inl Out_Of_Bounds
         | [h] \<Rightarrow> Inr [hex_pair h (CHR 0x00)]
         | h # l # rest \<Rightarrow> rmap ((#) (hex_pair h l)) (decode_text rest))
      else rmap ((#) c) (decode_text cs))"

lemma url_decode_loop_text:
  "w \<le> r \<Longrightarrow>
   url_decode_loop str r w = rmap ((@) (take w str)) (decode_text (drop r str))"
proof (induction str r w rule: url_decode_loop.induct)
  case (1 str r w)
  show ?case
  proof (cases "r < length str")
    case False
    then show ?thesis by (simp add: url_decode_loop.simps [of str r w])
  next
    case r: True
    then have d: "drop r str = str ! r # drop (Suc r) str"
      by (rule Cons_nth_drop_Suc [symmetric])
    have tk: "take (Suc w) (str[w := c]) = take w str @ [c]" for c
      using r 1(3) by (simp add: take_Suc_conv_app_nth)
    show ?thesis
    proof (cases "str ! r = CHR ''%''")
      case False
      with r 1 d tk show ?thesis
        by (subst url_decode_loop.simps) simp
    next
      case pc: True
      consider "r + 1 = length str" | "r + 2 = length str" | "r + 2 < length str"
        using r by linarith
      then show ?thesis
      proof cases
        case 1
        with r pc d show ?thesis
          by (subst url_decode_loop.simps) (simp add: str_at_def)
      next
        case 2
        then have "drop (Suc r) str = [str ! Suc r]"
          by (simp add: Cons_nth_drop_Suc [symmetric])
        with 2 r pc d tk show ?thesis
          by (subst url_decode_loop.simps) (simp add: str_at_def url_decode_loop.simps)
      next
        case 3
        then have h: "str_at str (r + 1) = Inr (str ! Suc r)"
          and l: "str_at str (r + 2) = Inr (str ! Suc (Suc r))"
          by (simp_all add: str_at_def)
        have dd: "drop (Suc r) str = str ! Suc r # str ! Suc (Suc r) # drop (r + 3) str"
          using 3 by (simp add: Cons_nth_drop_Suc eval_nat_numeral)
        let ?p = "hex_pair (str ! Suc r) (str ! Suc (Suc r))"
        have "url_decode_loop (str[w := ?p]) (r + 3) (w + 1) =
            rmap ((@) (take (w + 1) (str[w := ?p])))
              (decode_text (drop (r + 3) (str[w := ?p])))"
          by (rule "1.IH"(1) [OF r pc h l]) (use "1.prems" in simp)
        moreover have "drop (r + 3) (str[w := ?p]) = drop (r + 3) str"
          using "1.prems" by simp
        ultimately show ?thesis
          using r pc h l d dd tk
          by (subst url_decode_loop.simps) (simp add: rmap_def split: sum.split)
      qed
    qed
  qed
qed

lemma url_decode_text: "url_decode str = decode_text str"
  by (cases "decode_text str") (simp_all add: url_decode_def url_decode_loop_text)

section \<open>Encoding\<close>

lemma hex2dec_hex_digit: "d < 16 \<Longrightarrow> hex2dec (byte_of (hex_digit d)) = word_of_nat d"
proof -
  have "\<forall>d\<in>set [0,1,2,3,4,5,6,7,8,9,10,11,12,13,14,15].
      hex2dec (byte_of (hex_digit d)) = word_of_nat d"
    by (simp add: hex_digit_def byte_of_def hex2dec_def)
  moreover assume "d < 16"
  then have "d \<in> set [0,1,2,3,4,5,6,7,8,9,10,11,12,13,14,15]" by (simp, presburger)
  ultimately show ?thesis by blast
qed

lemma nibbles_or:
  assumes "h < 16" "l < 16"
  shows "unat (push_bit 4 (word_of_nat h :: byte) OR word_of_nat l) = 16 * h + l"
proof -
  have "push_bit 4 h OR l = push_bit 4 h + l"
  proof (rule disjunctive_add_eq_or [symmetric], rule bit_eqI)
    fix n
    have "take_bit 4 l = l" using assms(2) by (simp add: take_bit_nat_eq_self)
    then have "\<not> bit l n" if "4 \<le> n" using that by (metis bit_take_bit_iff not_le)
    then show "bit (push_bit 4 h AND l) n = bit 0 n" by (auto simp: bit_simps)
  qed
  moreover have "push_bit 4 h + l = 16 * h + l" by (simp add: push_bit_eq_mult)
  moreover have "unat (push_bit 4 (word_of_nat h :: byte) OR word_of_nat l) =
      take_bit 8 (push_bit 4 h OR l)"
    by (simp add: unsigned_or_eq unsigned_push_bit_eq unsigned_of_nat take_bit_or take_bit_push_bit)
  moreover have "take_bit 8 (16 * h + l) = 16 * h + l"
    using assms by (intro take_bit_nat_eq_self) simp
  ultimately show ?thesis by (simp flip: take_bit_or)
qed

lemma hex_pair_digits:
  "n < 256 \<Longrightarrow> hex_pair (hex_digit (n div 16)) (hex_digit (n mod 16)) = char_of n"
  by (simp add: hex_pair_def hex2dec_hex_digit nibbles_or char_of_byte_def)

lemma decode_url_encode_char:
  "decode_text (url_encode_char c @ s) =
     rmap ((#) (if c = CHR '' '' then CHR ''+'' else c)) (decode_text s)"
proof -
  have "hex_pair (hex_digit (of_char c div 16)) (hex_digit (of_char c mod 16)) = c"
    by (subst hex_pair_digits) simp_all
  moreover have "\<not> isalnum CHR ''%''" "\<not> isalnum CHR '' ''"
    by (simp_all add: isalnum_def)
  ultimately show ?thesis
    by (auto simp: url_encode_char_def)
qed

lemma decode_url_encode:
  "decode_text (url_encode s) = Inr (map (\<lambda>c. if c = CHR '' '' then CHR ''+'' else c) s)"
  by (induction s) (simp_all add: decode_url_encode_char)

text \<open>The bytes an encoded text can hold: none of the delimiters, no white space.\<close>

lemma hex_digit_alnum: "d < 16 \<Longrightarrow> isalnum (hex_digit d)"
  by (auto simp: hex_digit_def isalnum_def Let_def)

lemma set_url_encode:
  "c \<in> set (url_encode s) \<Longrightarrow>
     isalnum c \<or> c \<in> {CHR ''-'', CHR ''_'', CHR ''.'', CHR ''~'', CHR ''+'', CHR ''%''}"
proof (induction s)
  case (Cons x xs)
  then show ?case
    using hex_digit_alnum [of "of_char x div 16"] hex_digit_alnum [of "of_char x mod 16"]
    by (auto simp: url_encode_char_def less_mult_imp_div_less split: if_splits)
qed simp

lemma url_encode_clean:
  "CHR ''&'' \<notin> set (url_encode s)" "CHR ''='' \<notin> set (url_encode s)"
  "CHR ''?'' \<notin> set (url_encode s)" "\<forall>c\<in>set (url_encode s). \<not> isspace c"
  by (auto dest!: set_url_encode simp: isalnum_def isspace_def)

lemma url_encode_Nil_iff [simp]: "url_encode s = [] \<longleftrightarrow> s = []"
  by (cases s) (auto simp: url_encode_char_def)

section \<open>split: a reference without positions\<close>

function split_tail :: "string \<Rightarrow> string \<Rightarrow> string list" where
  "split_tail d t =
     (case find_sub d t of
        None \<Rightarrow> [trim t]
      | Some i \<Rightarrow> trim (take i t) #
          (if d = [] \<or> length t \<le> i + length d then [] else split_tail d (drop (i + length d) t)))"
  by pat_completeness auto
termination
  by (relation "measure (\<lambda>(d, t). length t)")
     (auto simp: length_greater_0_conv [symmetric] simp del: length_greater_0_conv)

declare split_tail.simps [simp del]

definition split_ref :: "string \<Rightarrow> string \<Rightarrow> string list" where
  "split_ref s d =
     (if s = [] then [] else if d = [] then [s]
      else split_tail d (if starts_with d s then drop (length d) s else s))"

lemma split_loop_tail:
  "d \<noteq> [] \<Longrightarrow> 0 < pos \<or> \<not> starts_with d s \<Longrightarrow> pos \<le> length s \<Longrightarrow>
   split_loop s d pos = split_tail d (drop pos s)"
proof (induction s d pos rule: split_loop.induct)
  case (1 s d pos)
  show ?case
  proof (cases "find_sub d (drop pos s)")
    case None
    with 1 show ?thesis
      by (simp add: split_loop.simps [of s d pos] split_tail.simps [of d] find_from_def)
  next
    case (Some i)
    have f: "find_from d s pos = Some (pos + i)"
      using Some 1(5) by (simp add: find_from_def)
    have nz: "pos + i \<noteq> 0"
      using 1(4) find_sub_SomeD [OF Some] by (cases pos; cases i) auto
    have i: "i + length d \<le> length s - pos"
      using find_sub_SomeD [OF Some] by simp
    show ?thesis
    proof (cases "length s \<le> pos + i + length d")
      case True
      then have "length s - pos \<le> i + length d" by simp
      with True show ?thesis using Some f nz 1(3)
        by (auto simp: split_loop.simps [of s d pos] split_tail.simps [of d] substr_def)
    next
      case False
      then have "split_loop s d (pos + i + length d) = split_tail d (drop (pos + i + length d) s)"
        using 1(3) nz by (intro "1.IH"(2) [OF _ f]) simp_all
      moreover have "\<not> length s - pos \<le> i + length d" using False by simp
      ultimately show ?thesis using Some f nz 1(3) False
        by (auto simp: split_loop.simps [of s d pos] split_tail.simps [of d "drop pos s"]
            substr_def add.commute add.left_commute)
    qed
  qed
qed

lemma split_eq_ref: "split s d = split_ref s d"
proof (cases "s = [] \<or> d = []")
  case True
  then show ?thesis by (auto simp: split_def split_ref_def split_loop.simps)
next
  case False
  show ?thesis
  proof (cases "starts_with d s")
    case True
    then have "find_from d s 0 = Some 0" using False by (cases s) (auto simp: find_from_def)
    moreover have "split_loop s d (length d) = split_tail d (drop (length d) s)"
      using False True by (intro split_loop_tail) (auto dest: starts_with_length)
    ultimately show ?thesis using False True
      by (simp add: split_def split_ref_def split_loop.simps [of s d 0])
  next
    case nsw: False
    with False show ?thesis by (simp add: split_def split_ref_def split_loop_tail)
  qed
qed

text \<open>Splitting a text at the delimiter that ends its first part.\<close>

lemma split_tail_None: "find_sub d t = None \<Longrightarrow> split_tail d t = [trim t]"
  by (simp add: split_tail.simps [of d t])

lemma split_tail_hit:
  "find_sub d (a @ d @ b) = Some (length a) \<Longrightarrow> d \<noteq> [] \<Longrightarrow>
   split_tail d (a @ d @ b) = trim a # (if b = [] then [] else split_tail d b)"
  by (simp add: split_tail.simps [of d "a @ d @ b"])

lemma split_tail_char:
  "c \<notin> set a \<Longrightarrow> split_tail [c] (a @ c # b) = trim a # (if b = [] then [] else split_tail [c] b)"
  using split_tail_hit [of "[c]" a b] find_sub_char_append [of c a b] by simp

lemma split_tail_no_char:
  "p \<in> set (split_tail [c] t) \<Longrightarrow> c \<notin> set p"
proof (induction "[c]" t rule: split_tail.induct)
  case (1 t)
  show ?case
  proof (cases "find_sub [c] t")
    case None
    with 1(2) show ?thesis using set_trim [of t] by (auto simp: split_tail.simps [of "[c]" t])
  next
    case (Some i)
    have "c \<notin> set (take i t)"
      using Some by (auto simp: find_sub_char takeWhile_eq_take [symmetric] dest: set_takeWhileD
          split: if_splits)
    then have "c \<notin> set (trim (take i t))" using set_trim by blast
    then show ?thesis using Some 1
      by (auto simp: split_tail.simps [of "[c]" t] split: if_splits)
  qed
qed

lemma split_no_char: "p \<in> set (split s [c]) \<Longrightarrow> c \<notin> set p"
  by (auto simp: split_eq_ref split_ref_def dest: split_tail_no_char split: if_splits)

section \<open>When decoding stays inside the buffer\<close>

lemma decode_text_safe:
  "s = [] \<or> last s \<noteq> CHR ''%'' \<Longrightarrow> \<exists>t. decode_text s = Inr t \<and> length t \<le> length s"
proof (induction s rule: decode_text.induct)
  case (2 c cs)
  show ?case
  proof (cases "c = CHR ''%''")
    case False
    with 2 show ?thesis by (cases cs) (force simp: rmap_eq_Inr)+
  next
    case pc: True
    show ?thesis
    proof (cases cs)
      case (Cons h hs)
      show ?thesis
      proof (cases hs)
        case (Cons l rest)
        then have "\<exists>t. decode_text rest = Inr t \<and> length t \<le> length rest"
          using 2(1) [OF pc _ Cons] 2(3) \<open>cs = h # hs\<close> by (cases rest) auto
        then show ?thesis using Cons \<open>cs = h # hs\<close> pc by auto
      qed (use Cons pc in simp)
    qed (use 2(3) pc in simp)
  qed
qed simp

lemma decode_text_percent_end:
  "CHR ''%'' \<notin> set a \<Longrightarrow> decode_text (a @ ''%'') = Inl Out_Of_Bounds"
  by (induction a) auto

section \<open>Properties\<close>

text \<open>
  C33. The in-place decoder, which writes the buffer it still reads from, computes what a
  recursion over the unmodified text computes, its out-of-bounds reads included.
\<close>

theorem url_decode_in_place: "url_decode str = decode_text str"
  by (rule url_decode_text)

text \<open>
  Decoding what \<open>url_encode\<close> wrote gives the text back for every byte string, but that
  a space comes back as a plus sign: the encoder writes \<open>+\<close> and the decoder leaves it alone.
\<close>

theorem url_decode_url_encode:
  "url_decode (url_encode s) = Inr (map (\<lambda>c. if c = CHR '' '' then CHR ''+'' else c) s)"
  by (simp add: url_decode_text decode_url_encode)

text \<open>
  A text that does not end in a percent sign is decoded without leaving the buffer, and the
  result is no longer than the text.
\<close>

theorem url_decode_in_bounds:
  "str = [] \<or> last str \<noteq> CHR ''%'' \<Longrightarrow>
   \<exists>t. url_decode str = Inr t \<and> length t \<le> length str"
  by (simp add: url_decode_text decode_text_safe)

theorem url_decode_in_bounds_witness:
  "url_decode ''a%2Fb%4'' = Inr ''a/b@'' \<and>
   (\<exists>t. url_decode ''a%2Fb%4'' = Inr t \<and> length t \<le> length ''a%2Fb%4'')"
proof
  show "url_decode ''a%2Fb%4'' = Inr ''a/b@''" by code_simp
  show "\<exists>t. url_decode ''a%2Fb%4'' = Inr t \<and> length t \<le> length ''a%2Fb%4''"
    by (rule url_decode_in_bounds) simp
qed

text \<open>
  \<open>split\<close> is the reference split: one leading delimiter is dropped, every part is
  trimmed, and nothing follows a delimiter that ends the text.
\<close>

theorem split_is_reference: "split str delim = split_ref str delim"
  by (rule split_eq_ref)

end
