(* ===== verification/Query_Params.thy ===== *)
theory Query_Params
  imports Util_Misc
begin

text \<open>
  \<open>html::query_params\<close> (\<open>include/httplib/html/query_params.hpp\<close>,
  \<open>lib/html/query_params.cpp\<close>). The \<open>unordered_multimap\<close> is the list of its entries in
  the order of insertion; the order in which the container is iterated is unspecified, so
  \<open>encoded\<close> takes the entries in the order of the iteration, and what is proved about it
  holds for every order.
\<close>

section \<open>The container and its accessors\<close>

type_synonym query_params = "(string \<times> string) list"

text \<open>
  Of several entries of one key the container may find any; in the list it is the first, so the list is
  to have them in the order the container has them in. What is proved of \<open>qp\_at\<close> is about keys
  that are there once.
\<close>

definition qp_at :: "query_params \<Rightarrow> string \<Rightarrow> string result" where
  "qp_at ps key =
     (case map_of ps key of
        None \<Rightarrow> Inl (Runtime_Error (''Key not found: '' @ key))
      | Some v \<Rightarrow> Inr v)"

definition invalid_param :: "string \<Rightarrow> fault" where
  "invalid_param key = Runtime_Error (''invalid param: '' @ key)"

text \<open>The numeric accessors at their default type \<open>int64_t\<close>.\<close>

definition qp_at_number :: "query_params \<Rightarrow> string \<Rightarrow> int result" where
  "qp_at_number ps key =
     rbind (qp_at ps key) (\<lambda>v.
       case from_chars 64 v of Inl _ \<Rightarrow> Inl (invalid_param key) | Inr n \<Rightarrow> Inr n)"

definition qp_at_bool :: "query_params \<Rightarrow> string \<Rightarrow> bool result" where
  "qp_at_bool ps key =
     rbind (qp_at ps key) (\<lambda>v.
       if v = ''true'' \<or> v = ''1'' then Inr True
       else if v = ''false'' \<or> v = ''0'' then Inr False
       else Inl (invalid_param key))"

definition qp_all :: "query_params \<Rightarrow> string \<Rightarrow> string list" where
  "qp_all ps key = map snd (filter (\<lambda>kv. fst kv = key) ps)"

fun all_number_loop :: "string \<Rightarrow> string list \<Rightarrow> int list result" where
  "all_number_loop key [] = Inr []"
| "all_number_loop key (v # vs) =
     (case from_chars 64 v of
        Inl _ \<Rightarrow> Inl (invalid_param key)
      | Inr n \<Rightarrow> rmap ((#) n) (all_number_loop key vs))"

definition qp_all_number :: "query_params \<Rightarrow> string \<Rightarrow> int list result" where
  "qp_all_number ps key = all_number_loop key (qp_all ps key)"

definition qp_add :: "query_params \<Rightarrow> string \<Rightarrow> string \<Rightarrow> query_params" where
  "qp_add ps key val = ps @ [(key, val)]"

definition qp_add_number :: "query_params \<Rightarrow> string \<Rightarrow> int \<Rightarrow> query_params" where
  "qp_add_number ps key val = qp_add ps key (dec_int val)"

definition qp_add_bool :: "query_params \<Rightarrow> string \<Rightarrow> bool \<Rightarrow> query_params" where
  "qp_add_bool ps key val = qp_add ps key (if val then ''true'' else ''false'')"

definition qp_exists :: "query_params \<Rightarrow> string \<Rightarrow> bool" where
  "qp_exists ps key \<longleftrightarrow> map_of ps key \<noteq> None"

definition qp_empty :: "query_params \<Rightarrow> bool" where
  "qp_empty ps \<longleftrightarrow> ps = []"

section \<open>decode and encoded\<close>

fun decode_items :: "query_params \<Rightarrow> string list \<Rightarrow> query_params result" where
  "decode_items ps [] = Inr ps"
| "decode_items ps (item # items) =
     (case split item ''='' of
        [k] \<Rightarrow> rbind (url_decode k) (\<lambda>key. decode_items (qp_add ps key []) items)
      | [k, v] \<Rightarrow>
          rbind (url_decode k) (\<lambda>key.
            rbind (url_decode v) (\<lambda>val. decode_items (qp_add ps key val) items))
      | _ \<Rightarrow> decode_items ps items)"

text \<open>\<open>decode\<close> clears the container first and always returns true.\<close>

definition qp_decode :: "string \<Rightarrow> query_params result" where
  "qp_decode content =
     (if content = [] then Inr [] else decode_items [] (split content ''&''))"

definition encode_item :: "string \<times> string \<Rightarrow> string" where
  "encode_item item = url_encode (fst item) @ ''='' @ url_encode (snd item)"

definition qp_encoded :: "query_params \<Rightarrow> string" where
  "qp_encoded ps = join ''&'' (map encode_item ps)"

section \<open>Lemmas\<close>

lemma qp_at_add: "\<not> qp_exists ps k \<Longrightarrow> qp_at (qp_add ps k v) k = Inr v"
  by (simp add: qp_at_def qp_add_def qp_exists_def map_add_def)

lemma split_tail_join:
  "ts \<noteq> [] \<Longrightarrow> \<forall>t\<in>set ts. c \<notin> set t \<and> t \<noteq> [] \<Longrightarrow> split_tail [c] (join [c] ts) = map trim ts"
proof (induction ts)
  case (Cons t ts)
  show ?case
  proof (cases ts)
    case Nil
    with Cons.prems show ?thesis by (simp add: split_tail_None)
  next
    case (Cons u us)
    then have "join [c] ts \<noteq> []" using Cons.prems by (cases us) auto
    with Cons Cons.IH Cons.prems show ?thesis
      by (simp add: split_tail_char join_Cons)
  qed
qed simp

lemma split_join:
  assumes ne: "ts \<noteq> []" and ts: "\<forall>t\<in>set ts. c \<notin> set t \<and> t \<noteq> []"
  shows "split (join [c] ts) [c] = map trim ts"
proof -
  obtain t us where t: "ts = t # us" using ne by (cases ts) auto
  with ts have "\<not> starts_with [c] (join [c] ts)" "join [c] ts \<noteq> []"
    by (cases t; auto simp: join_Cons)+
  with split_tail_join [OF ne ts] show ?thesis
    by (simp add: split_eq_ref split_ref_def)
qed

lemma encode_item_facts:
  "CHR ''&'' \<notin> set (encode_item kv)" "encode_item kv \<noteq> []" "trim (encode_item kv) = encode_item kv"
proof -
  have eq: "\<not> isspace CHR ''=''" by (simp add: isspace_def)
  show "CHR ''&'' \<notin> set (encode_item kv)" "encode_item kv \<noteq> []"
    by (simp_all add: encode_item_def url_encode_clean)
  show "trim (encode_item kv) = encode_item kv"
    using url_encode_clean(4) eq by (intro trim_id_no_space) (auto simp: encode_item_def)
qed

lemma trim_url_encode [simp]: "trim (url_encode s) = url_encode s"
  using url_encode_clean(4) by (rule trim_id_no_space)

lemma split_encode_item:
  "split (encode_item (k, v)) ''='' =
     (if k = [] then [url_encode v] else if v = [] then [url_encode k] else [url_encode k, url_encode v])"
proof (cases "k = []")
  case True
  then show ?thesis
    using url_encode_clean(2) [of v]
    by (simp add: encode_item_def split_eq_ref split_ref_def split_tail_None find_sub_char)
next
  case False
  then obtain x xs where x: "url_encode k = x # xs" by (cases "url_encode k") auto
  have "x \<noteq> CHR ''=''" using url_encode_clean(2) [of k] x by auto
  then have "split (encode_item (k, v)) ''='' = split_tail ''='' (url_encode k @ CHR ''='' # url_encode v)"
    using x by (simp add: encode_item_def split_eq_ref split_ref_def)
  then show ?thesis
    using url_encode_clean(2) False
    by (simp add: split_tail_char split_tail_None)
qed

abbreviation plus_for_space :: "string \<Rightarrow> string" where
  "plus_for_space s \<equiv> map (\<lambda>c. if c = CHR '' '' then CHR ''+'' else c) s"

text \<open>
  What becomes of an entry on the way: spaces are plus signs, and a value without a key is a key
  without a value.
\<close>

definition arrived :: "string \<times> string \<Rightarrow> string \<times> string" where
  "arrived e =
     (if fst e = [] then (plus_for_space (snd e), []) else (plus_for_space (fst e), plus_for_space (snd e)))"

lemma decode_items_arrived: "decode_items ps (map encode_item xs) = Inr (ps @ map arrived xs)"
proof (induction xs arbitrary: ps)
  case (Cons kv xs)
  obtain k v where kv: "kv = (k, v)" by (cases kv)
  from split_encode_item [of k v] show ?case
    using Cons kv by (auto simp: url_decode_text decode_url_encode qp_add_def arrived_def)
qed simp

lemma qp_decode_arrived: "qp_decode (qp_encoded xs) = Inr (map arrived xs)"
proof (cases "xs = []")
  case False
  then have "split (qp_encoded xs) ''&'' = map trim (map encode_item xs)"
    unfolding qp_encoded_def by (intro split_join) (auto simp: encode_item_facts)
  also have "\<dots> = map encode_item xs" by (simp add: encode_item_facts)
  finally have sp: "split (qp_encoded xs) ''&'' = map encode_item xs" .
  then have "qp_encoded xs \<noteq> []" using False by (auto simp: split_def)
  with sp decode_items_arrived [of "[]" xs] show ?thesis by (simp add: qp_decode_def)
qed (simp add: qp_decode_def qp_encoded_def)

lemma qp_decode_encoded:
  assumes "\<forall>(k, v)\<in>set xs. k \<noteq> [] \<or> v = []"
  shows "qp_decode (qp_encoded xs) =
           Inr (map (\<lambda>(k, v). (plus_for_space k, plus_for_space v)) xs)"
  using assms by (auto simp: qp_decode_arrived arrived_def)

lemma plus_for_space_id: "plus_for_space s = s \<longleftrightarrow> CHR '' '' \<notin> set s"
  by (induction s) auto

lemma arrived_id:
  "arrived e = e \<longleftrightarrow>
     CHR '' '' \<notin> set (fst e) \<and> CHR '' '' \<notin> set (snd e) \<and> (fst e = [] \<longrightarrow> snd e = [])"
  by (cases e) (auto simp: arrived_def plus_for_space_id)

lemma map_arrived_id: "map arrived xs = xs \<longleftrightarrow> (\<forall>e\<in>set xs. arrived e = e)"
  using map_eq_conv [of arrived xs "\<lambda>e. e"] by simp

section \<open>Properties\<close>

text \<open>
  C9. Whatever order \<open>xs\<close> the multimap \<open>ps\<close> is iterated in, decoding its encoded text
  gives the entries of \<open>ps\<close> back, as a multiset and with plus signs for the spaces,
  provided no entry has an empty key and a value.
\<close>

theorem query_params_roundtrip:
  assumes "mset xs = mset ps" and "\<forall>(k, v)\<in>set ps. k \<noteq> [] \<or> v = []"
  shows "\<exists>qs. qp_decode (qp_encoded xs) = Inr qs \<and>
           mset qs = image_mset (\<lambda>(k, v). (plus_for_space k, plus_for_space v)) (mset ps)"
proof -
  have "set xs = set ps" using assms(1) by (rule mset_eq_setD)
  with assms have "\<forall>(k, v)\<in>set xs. k \<noteq> [] \<or> v = []" by simp
  from qp_decode_encoded [OF this] assms(1) show ?thesis by simp
qed

theorem query_params_roundtrip_witness:
  "\<exists>qs. qp_decode (qp_encoded [(''b'', []), (''a b'', ''1/2'')]) = Inr qs \<and>
     mset qs = image_mset (\<lambda>(k, v). (plus_for_space k, plus_for_space v))
       (mset [(''a b'', ''1/2''), (''b'', [])])"
  by (rule query_params_roundtrip) simp_all

text \<open>
  A number or a boolean added under a fresh key is read back as itself, for every value of
  the type.
\<close>

theorem query_params_typed_roundtrip:
  assumes "\<not> qp_exists ps key" and "- (2 ^ 63) \<le> n" and "n < 2 ^ 63"
  shows "qp_at_number (qp_add_number ps key n) key = Inr n \<and>
         qp_at_bool (qp_add_bool ps key b) key = Inr b"
  using assms from_chars_dec_int [of 64 n]
  by (simp add: qp_at_number_def qp_add_number_def qp_at_bool_def qp_add_bool_def qp_at_add)

theorem query_params_typed_roundtrip_witness:
  "qp_at_number (qp_add_number [(''a'', ''x'')] ''n'' (- 12)) ''n'' = Inr (- 12) \<and>
   qp_at_bool (qp_add_bool [(''a'', ''x'')] ''n'' True) ''n'' = Inr True"
  by (rule query_params_typed_roundtrip) (simp_all add: qp_exists_def)

end
