(* ===== verification/Http_Ranges.thy ===== *)
theory Http_Ranges
  imports Util_Misc
begin

text \<open>
  \<open>html::http_ranges\<close> (\<open>lib/html/http_ranges.cpp\<close>): the parser of the \<open>Range\<close>
  header and the accessors of the parsed list. The local variables \<open>start\<close> and \<open>end\<close>
  are 32-bit \<open>int\<close>s, \<open>file_size\<close> is a 64-bit \<open>size_t\<close>; every conversion and every
  mixed comparison of the code is written out. \<open>sub_range[0]\<close> on an empty vector is undefined
  behaviour and ends the model in \<open>Out_Of_Bounds\<close>.
\<close>

section \<open>The parser\<close>

type_synonym byte_range = "int \<times> int"
type_synonym http_ranges = "byte_range list"

text \<open>The last position of the file, as the \<open>int\<close> variables receive it.\<close>

definition last_pos32 :: "int \<Rightarrow> int" where
  "last_pos32 file_size = to_signed 32 (to_unsigned 64 (file_size - 1))"

text \<open>
  \<open>start > 0\<close> and \<open>end > 0\<close> are checked before the comparison with \<open>file_size\<close>, so
  the conversion to \<open>size_t\<close> does not change the values compared.
\<close>

definition range_start :: "string list \<Rightarrow> (errc + int) result" where
  "range_start sub_range =
     (case sub_range of
        [] \<Rightarrow> Inl Out_Of_Bounds
      | fist # _ \<Rightarrow>
          let fist_range = trim fist
          in Inr (if fist_range = [] then Inr (- 1) else from_chars 32 fist_range))"

definition range_end :: "int \<Rightarrow> string list \<Rightarrow> errc + int" where
  "range_end file_size sub_range =
     (if length sub_range = 1 then Inr (last_pos32 file_size)
      else
        let second_range = trim (sub_range ! 1)
        in if second_range = [] then Inr (last_pos32 file_size)
           else from_chars 32 second_range)"

definition range_bounds :: "int \<Rightarrow> int \<Rightarrow> int \<Rightarrow> byte_range option" where
  "range_bounds file_size start end0 =
     (if 0 < start \<and> (file_size \<le> start \<or> start = end0) then None
      else
        let end1 = (if 0 < end0 \<and> file_size \<le> end0 then last_pos32 file_size else end0)
        in if start = - 1
           then Some (to_signed 32 (to_unsigned 64 (file_size - to_unsigned 64 end1)),
                      last_pos32 file_size)
           else Some (start, end1))"

text \<open>One element of the list: \<open>Inr None\<close> where the code clears the ranges and returns false.\<close>

definition parse_range :: "int \<Rightarrow> string \<Rightarrow> byte_range option result" where
  "parse_range file_size rg =
     (let sub_range = split rg ''-''
      in rbind (range_start sub_range) (\<lambda>s.
           Inr (case s of
                  Inl _ \<Rightarrow> None
                | Inr start \<Rightarrow>
                    (case range_end file_size sub_range of
                       Inl _ \<Rightarrow> None
                     | Inr end0 \<Rightarrow> range_bounds file_size start end0))))"

fun parse_ranges :: "int \<Rightarrow> http_ranges \<Rightarrow> string list \<Rightarrow> (bool \<times> http_ranges) result" where
  "parse_ranges file_size acc [] = Inr (True, acc)"
| "parse_ranges file_size acc (r # rs) =
     rbind (parse_range file_size r) (\<lambda>p.
       case p of
         None \<Rightarrow> Inr (False, [])
       | Some b \<Rightarrow> parse_ranges file_size (acc @ [b]) rs)"

definition ranges_parse :: "string \<Rightarrow> int \<Rightarrow> (bool \<times> http_ranges) result" where
  "ranges_parse range_str file_size =
     (let s = trim range_str
      in if s = [] then Inr (True, [])
         else if \<not> starts_with ''bytes='' s then Inr (False, [])
         else
           let t = drop 6 s
           in if find_sub ''--'' t \<noteq> None then Inr (False, [])
              else if t = ''-'' then
                Inr (True, [(0, to_signed 64 (to_unsigned 64 (file_size - 1)))])
              else parse_ranges file_size [] (split t '',''))"

definition ranges_at :: "http_ranges \<Rightarrow> nat \<Rightarrow> byte_range result" where
  "ranges_at rs i = (if i < length rs then Inr (rs ! i) else Inl Out_Of_Range)"

definition ranges_front :: "http_ranges \<Rightarrow> byte_range result" where
  "ranges_front rs = (case rs of [] \<Rightarrow> Inl Out_Of_Bounds | r # _ \<Rightarrow> Inr r)"

definition ranges_append :: "http_ranges \<Rightarrow> byte_range \<Rightarrow> http_ranges" where
  "ranges_append rs r = rs @ [r]"

section \<open>Lemmas\<close>

lemma last_pos32_id: "0 < n \<Longrightarrow> n < 2 ^ 31 \<Longrightarrow> last_pos32 n = n - 1"
proof -
  assume n: "0 < n" "n < 2 ^ 31"
  then have "to_unsigned 64 (n - 1) = n - 1" by (simp add: to_unsigned_def)
  moreover have "to_signed 32 (n - 1) = n - 1" using n by (intro to_signed_id) simp_all
  ultimately show ?thesis by (simp add: last_pos32_def)
qed

lemma range_start_ge: "range_start (split r ''-'') = Inr (Inr a) \<Longrightarrow> - 1 \<le> a"
proof -
  assume *: "range_start (split r ''-'') = Inr (Inr a)"
  then obtain x xs where x: "split r ''-'' = x # xs" by (auto simp: range_start_def split: list.splits)
  then have "CHR ''-'' \<notin> set (trim x)" using split_no_char [of x r "CHR ''-''"] set_trim by auto
  with * x from_chars_nonneg [of 32 "trim x" a] show ?thesis
    by (auto simp: range_start_def Let_def split: if_splits)
qed

lemma range_end_ge:
  assumes "0 < n" "n < 2 ^ 31" "split r ''-'' \<noteq> []" "range_end n (split r ''-'') = Inr e"
  shows "0 \<le> e"
proof (cases "length (split r ''-'') = 1")
  case True
  with assms last_pos32_id [OF assms(1,2)] show ?thesis by (simp add: range_end_def)
next
  case False
  then have "1 < length (split r ''-'')" using assms(3) by (cases "split r ''-''") auto
  then have "split r ''-'' ! 1 \<in> set (split r ''-'')" by (rule nth_mem)
  then have "CHR ''-'' \<notin> set (trim (split r ''-'' ! 1))"
    using split_no_char set_trim by blast
  with assms False last_pos32_id [OF assms(1,2)] from_chars_nonneg show ?thesis
    by (auto simp: range_end_def Let_def split: if_splits)
qed

definition range_inside :: "int \<Rightarrow> byte_range \<Rightarrow> bool" where
  "range_inside n r \<longleftrightarrow> 0 \<le> fst r \<and> fst r < n \<and> 0 \<le> snd r \<and> snd r < n"

text \<open>
  An element with an empty first position that asks for the last zero bytes, as in \<open>bytes=- -0\<close>,
  gives the one range that does not begin inside the file. In a file of one byte every number of last
  bytes is cut to its last position, which is zero.
\<close>

definition zero_suffix :: "int \<Rightarrow> string \<Rightarrow> bool" where
  "zero_suffix n rg \<longleftrightarrow>
     range_start (split rg ''-'') = Inr (Inr (- 1)) \<and> (range_end n (split rg ''-'') = Inr 0 \<or> n = 1)"

definition element_range :: "int \<Rightarrow> string \<Rightarrow> byte_range \<Rightarrow> bool" where
  "element_range n rg r \<longleftrightarrow> range_inside n r \<or> zero_suffix n rg \<and> r = (n, n - 1)"

lemma range_bounds_inside:
  assumes n: "0 < n" "n < 2 ^ 31" and a: "- 1 \<le> a" and e: "0 \<le> e"
    and r: "range_bounds n a e = Some p"
  shows "range_inside n p \<or> a = - 1 \<and> (e = 0 \<or> n = 1) \<and> p = (n, n - 1)"
proof -
  define e1 where "e1 = (if 0 < e \<and> n \<le> e then n - 1 else e)"
  have e1: "0 \<le> e1" "e1 < n" "e1 = 0 \<longrightarrow> e = 0 \<or> n = 1" using n e by (auto simp: e1_def)
  have rb: "range_bounds n a e =
      (if 0 < a \<and> (n \<le> a \<or> a = e) then None
       else if a = - 1
         then Some (to_signed 32 (to_unsigned 64 (n - to_unsigned 64 e1)), n - 1)
         else Some (a, e1))"
    by (simp add: range_bounds_def e1_def last_pos32_id [OF n])
  show ?thesis
  proof (cases "a = - 1")
    case True
    have "to_unsigned 64 e1 = e1" using e1 n by (simp add: to_unsigned_def)
    moreover have "to_unsigned 64 (n - e1) = n - e1" using e1 n by (simp add: to_unsigned_def)
    moreover have "to_signed 32 (n - e1) = n - e1"
      using e1 n by (intro to_signed_id) simp_all
    ultimately show ?thesis using r rb True e1 by (auto simp: range_inside_def)
  next
    case False
    with r rb e1 a n show ?thesis by (auto simp: range_inside_def split: if_splits)
  qed
qed

lemma parse_range_inside:
  assumes "0 < n" "n < 2 ^ 31" "parse_range n rg = Inr (Some p)"
  shows "element_range n rg p"
proof -
  let ?sub = "split rg ''-''"
  obtain s where s: "range_start ?sub = Inr s"
    using assms(3) by (cases "range_start ?sub") (simp_all add: parse_range_def)
  then obtain a where sa: "s = Inr a"
    using assms(3) by (cases s) (simp_all add: parse_range_def)
  with s have a: "range_start ?sub = Inr (Inr a)" by simp
  then obtain e where e: "range_end n ?sub = Inr e"
    using assms(3) by (cases "range_end n ?sub") (simp_all add: parse_range_def)
  with a assms(3) have b: "range_bounds n a e = Some p" by (simp add: parse_range_def)
  from a have "?sub \<noteq> []" by (auto simp: range_start_def)
  with assms e have "0 \<le> e" by (intro range_end_ge)
  from range_bounds_inside [OF assms(1,2) range_start_ge [OF a] this b] a e show ?thesis
    by (auto simp: element_range_def zero_suffix_def)
qed

lemma parse_ranges_inside:
  "0 < n \<Longrightarrow> n < 2 ^ 31 \<Longrightarrow> list_all2 (element_range n) done acc \<Longrightarrow>
   parse_ranges n acc rs = Inr (ok, out) \<Longrightarrow>
   if ok then list_all2 (element_range n) (done @ rs) out else out = []"
proof (induction rs arbitrary: acc "done")
  case (Cons rg rs)
  then obtain p where p: "parse_range n rg = Inr p"
    by (auto simp: rbind_eq_Inr)
  show ?case
  proof (cases p)
    case None
    with Cons.prems(4) p show ?thesis by auto
  next
    case (Some b)
    with p Cons.prems have "list_all2 (element_range n) (done @ [rg]) (acc @ [b])"
      using parse_range_inside [of n rg b] by (simp add: list_all2_appendI)
    with Cons.IH [OF Cons.prems(1,2) this] Cons.prems(4) p Some show ?thesis by (cases ok) simp_all
  qed
qed auto

text \<open>An element with two numbers, and one with a number and no minus sign or after a leading one.\<close>

lemma split_dash_two:
  "split (dec_nat a @ ''-'' @ dec_nat b) ''-'' = [dec_nat a, dec_nat b]"
proof -
  have "\<not> starts_with ''-'' (dec_nat a @ ''-'' @ dec_nat b)"
    using not_starts_minus_dec_nat [of a] by (cases "dec_nat a") auto
  then show ?thesis
    by (simp add: split_eq_ref split_ref_def split_tail_char dec_nat_no_minus split_tail_None)
qed

lemma split_dash_suffix: "split (''-'' @ dec_nat k) ''-'' = [dec_nat k]"
  by (simp add: split_eq_ref split_ref_def dec_nat_no_minus split_tail_None)

lemma from_chars_dec: "int k < 2 ^ 31 \<Longrightarrow> from_chars 32 (dec_nat k) = Inr (int k)"
  using from_chars_dec_nat [of k 32 "[]"] by simp

lemma range_text_clean:
  "c \<in> set (dec_nat a @ ''-'' @ dec_nat b) \<Longrightarrow> isdigit c \<or> c = CHR ''-''"
  using dec_nat_digits by auto

lemma split_comma_one:
  assumes "s \<noteq> []" "\<forall>c\<in>set s. isdigit c \<or> c = CHR ''-''"
  shows "split s '','' = [s]"
proof -
  have "CHR '','' \<notin> set s" "\<forall>c\<in>set s. \<not> isspace c"
    using assms(2) by (auto simp: isdigit_def isspace_def)
  moreover from this have "\<not> starts_with '','' s" by (cases s) auto
  ultimately show ?thesis using assms(1)
    by (simp add: split_eq_ref split_ref_def split_tail_None trim_id_no_space)
qed

lemma trim_bytes_eq:
  assumes "\<forall>c\<in>set s. isdigit c \<or> c = CHR ''-''"
  shows "trim (''bytes='' @ s) = ''bytes='' @ s"
  using assms by (intro trim_id_no_space) (auto simp: isspace_def isdigit_def)

lemma find_sub_dashes_first:
  "CHR ''-'' \<notin> set b \<Longrightarrow> find_sub ''--'' (CHR ''-'' # b) = None"
  by (simp add: starts_with_hd_notin find_sub_hd_notin)

lemma find_sub_dashes:
  "CHR ''-'' \<notin> set a \<Longrightarrow> CHR ''-'' \<notin> set b \<Longrightarrow> find_sub ''--'' (a @ CHR ''-'' # b) = None"
  by (induction a) (auto simp: starts_with_hd_notin find_sub_hd_notin)

lemma ranges_parse_single:
  assumes "s \<noteq> []" "s \<noteq> ''-''" "\<forall>c\<in>set s. isdigit c \<or> c = CHR ''-''" "find_sub ''--'' s = None"
  shows "ranges_parse (''bytes='' @ s) n = parse_ranges n [] [s]"
proof -
  have "trim (''bytes='' @ s) = ''bytes='' @ s" using assms(3) by (rule trim_bytes_eq)
  moreover have "split s '','' = [s]" using assms(1,3) by (rule split_comma_one)
  ultimately show ?thesis using assms(2,4) by (simp add: ranges_parse_def)
qed

section \<open>Properties\<close>

text \<open>
  C13. For a non-empty file below 2 GiB, an accepted header gives one range for each of its elements, in
  their order, and each begins and ends inside the file; but an element that asks for the last zero
  bytes, or for the last bytes of a file that has only one, gives the range that begins behind the last
  byte. A refused header gives none.
\<close>

theorem ranges_parse_inside:
  assumes "0 < n" and "n < 2 ^ 31" and "ranges_parse s n = Inr (ok, rs)"
  shows "if ok then list_all2 (element_range n) (split (drop 6 (trim s)) '','') rs else rs = []"
proof -
  have "to_signed 64 (to_unsigned 64 (n - 1)) = n - 1"
    using assms(1,2) to_signed_id [of 64 "n - 1"] by (simp add: to_unsigned_def)
  then have "element_range n ''-'' (0, to_signed 64 (to_unsigned 64 (n - 1)))"
    using assms(1) by (simp add: element_range_def range_inside_def)
  moreover have "split ''-'' '','' = [''-'']" "split [] '','' = []" by code_simp+
  moreover have "if ok then list_all2 (element_range n) ps rs else rs = []"
    if "parse_ranges n [] ps = Inr (ok, rs)" for ps
    using parse_ranges_inside [OF assms(1,2) _ that, of "[]"] by (cases ok) simp_all
  ultimately show ?thesis using assms(3)
    by (auto simp: ranges_parse_def Let_def split: if_splits)
qed

theorem ranges_parse_inside_witness:
  "ranges_parse ''bytes=0-99,- -0'' 1000 = Inr (True, [(0, 99), (1000, 999)]) \<and>
   list_all2 (element_range 1000) [''0-99'', ''- -0''] [(0, 99), (1000, 999)]"
proof
  show e: "ranges_parse ''bytes=0-99,- -0'' 1000 = Inr (True, [(0, 99), (1000, 999)])"
    by code_simp
  have "split (drop 6 (trim ''bytes=0-99,- -0'')) '','' = [''0-99'', ''- -0'']"
    by code_simp
  with ranges_parse_inside [OF _ _ e]
  show "list_all2 (element_range 1000) [''0-99'', ''- -0''] [(0, 99), (1000, 999)]" by simp
qed

text \<open>
  A range \<open>bytes=a-b\<close> with its first position inside the file and below its last is
  accepted, and its last position is cut at the end of the file.
\<close>

theorem ranges_parse_closed_range:
  assumes "a < b" and "int b < 2 ^ 31" and "int a < n" and "n < 2 ^ 31"
  shows "ranges_parse (''bytes='' @ dec_nat a @ ''-'' @ dec_nat b) n =
           Inr (True, [(int a, min (int b) (n - 1))])"
proof -
  have "ranges_parse (''bytes='' @ dec_nat a @ ''-'' @ dec_nat b) n =
      parse_ranges n [] [dec_nat a @ ''-'' @ dec_nat b]"
    using find_sub_dashes [of "dec_nat a" "dec_nat b"] range_text_clean [of _ a b]
    by (intro ranges_parse_single) (auto simp: dec_nat_no_minus append_eq_Cons_conv)
  moreover have "parse_range n (dec_nat a @ ''-'' @ dec_nat b) =
      Inr (range_bounds n (int a) (int b))"
    using assms by (simp add: parse_range_def split_dash_two [simplified] range_start_def range_end_def
        from_chars_dec Let_def)
  moreover have "range_bounds n (int a) (int b) = Some (int a, min (int b) (n - 1))"
    using assms last_pos32_id [of n] by (auto simp: range_bounds_def Let_def)
  ultimately show ?thesis by simp
qed

theorem ranges_parse_closed_range_witness:
  "ranges_parse (''bytes='' @ dec_nat 10 @ ''-'' @ dec_nat 5000) 100 =
     Inr (True, [(int 10, min (int 5000) (100 - 1))])"
  by (rule ranges_parse_closed_range) simp_all

text \<open>
  A suffix range \<open>bytes=-k\<close>, which asks for the last \<open>k\<close> bytes of a representation,
  is read as the range from position \<open>k\<close> to the end: \<open>split\<close> has dropped the leading
  minus, so the branch for an empty first position is not taken.
\<close>

theorem ranges_parse_suffix_reads_prefix:
  assumes "0 < k" and "int k < n - 1" and "n < 2 ^ 31"
  shows "ranges_parse (''bytes=-'' @ dec_nat k) n = Inr (True, [(int k, n - 1)])"
proof -
  have "ranges_parse (''bytes='' @ (''-'' @ dec_nat k)) n = parse_ranges n [] [''-'' @ dec_nat k]"
    using find_sub_dashes_first [OF dec_nat_no_minus [of k]] dec_nat_digits [of k]
    by (intro ranges_parse_single) auto
  moreover have "parse_range n (''-'' @ dec_nat k) = Inr (range_bounds n (int k) (n - 1))"
    using assms last_pos32_id [of n]
    by (simp add: parse_range_def split_dash_suffix [simplified] range_start_def range_end_def
        from_chars_dec Let_def)
  moreover have "range_bounds n (int k) (n - 1) = Some (int k, n - 1)"
    using assms last_pos32_id [of n] by (simp add: range_bounds_def Let_def)
  ultimately show ?thesis by simp
qed

theorem ranges_parse_suffix_reads_prefix_witness:
  "ranges_parse (''bytes=-'' @ dec_nat 5) 1000 = Inr (True, [(int 5, 1000 - 1)])"
  by (rule ranges_parse_suffix_reads_prefix) simp_all

text \<open>
  An empty element of the list makes the parser index an empty vector, and the range of a
  single byte \<open>bytes=a-a\<close> beyond the first is refused, whatever the size of the file.
\<close>

theorem ranges_parse_empty_element:
  "ranges_parse ''bytes=,'' n = Inl Out_Of_Bounds \<and>
   (0 < a \<and> int a < 2 ^ 31 \<longrightarrow>
      ranges_parse (''bytes='' @ dec_nat a @ ''-'' @ dec_nat a) n = Inr (False, []))"
proof (intro conjI impI)
  have "split '','' '','' = [[]]" by code_simp
  moreover have "split [] ''-'' = []" by (simp add: split_def)
  ultimately show "ranges_parse ''bytes=,'' n = Inl Out_Of_Bounds"
    by (simp add: ranges_parse_def trim_def isspace_def parse_range_def range_start_def)
next
  assume a: "0 < a \<and> int a < 2 ^ 31"
  have "ranges_parse (''bytes='' @ dec_nat a @ ''-'' @ dec_nat a) n =
      parse_ranges n [] [dec_nat a @ ''-'' @ dec_nat a]"
    using find_sub_dashes [of "dec_nat a" "dec_nat a"] range_text_clean [of _ a a]
    by (intro ranges_parse_single) (auto simp: dec_nat_no_minus append_eq_Cons_conv)
  then show "ranges_parse (''bytes='' @ dec_nat a @ ''-'' @ dec_nat a) n = Inr (False, [])"
    using a by (simp add: parse_range_def split_dash_two [simplified] range_start_def range_end_def
        from_chars_dec Let_def range_bounds_def)
qed

theorem ranges_parse_empty_element_witness:
  "ranges_parse ''bytes=,'' 1000 = Inl Out_Of_Bounds \<and>
   ranges_parse (''bytes='' @ dec_nat 5 @ ''-'' @ dec_nat 5) 1000 = Inr (False, [])"
  using ranges_parse_empty_element [of 1000 5] by simp

end
