(* ===== verification/Compressor.thy ===== *)
theory Compressor
  imports Prelude
begin

text \<open>
  The compressor registry and adapters of \<open>lib/body/compressor.hpp\<close>,
  \<open>lib/body/compressor.cpp\<close> and the two filters of \<open>lib/body/brotli.hpp\<close> they plug
  together. Whether the library is built with \<open>HTTPLIB_ENABLED_COMPRESS\<close> is an argument.
  The filters of boost::iostreams are not under src/: they are the parameter \<open>filter_api\<close>, which
  says what a filter puts out when it is fed or closed. The filters that brotli.hpp defines are in the
  theory \<open>Brotli\<close>. A filter that refuses what it is fed throws; this exception passes through
  the reader and the operation of Boost that drives it, and is left out here.
\<close>

section \<open>Filters\<close>

datatype compress_mode = Encode | Decode
datatype codec = Gzip | Zlib | Zstd | Brotli
datatype io_filter = Compressor_Filter codec | Decompressor_Filter codec

text \<open>
  A filter's state \<open>'z\<close>: what opening gives, what feeding bytes puts into the sink, what
  closing flushes.
\<close>

record 'z filter_api =
  filter_open :: "io_filter \<Rightarrow> 'z"
  filter_write :: "'z \<Rightarrow> string \<Rightarrow> 'z \<times> string"
  filter_close :: "'z \<Rightarrow> 'z \<times> string"

text \<open>
  The type names \<open>brotli_compressor\<close> and \<open>brotli_decompressor\<close> of brotli.hpp stand for
  the instance they are a typedef of.
\<close>

definition brotli_compressor :: io_filter where
  "brotli_compressor = Compressor_Filter Brotli"

definition brotli_decompressor :: io_filter where
  "brotli_decompressor = Compressor_Filter Brotli"

fun gzip_filter :: "compress_mode \<Rightarrow> io_filter" where
  "gzip_filter Encode = Compressor_Filter Gzip"
| "gzip_filter Decode = Decompressor_Filter Gzip"

fun zlib_filter :: "compress_mode \<Rightarrow> io_filter" where
  "zlib_filter Encode = Compressor_Filter Zlib"
| "zlib_filter Decode = Decompressor_Filter Zlib"

fun zstd_filter :: "compress_mode \<Rightarrow> io_filter" where
  "zstd_filter Encode = Compressor_Filter Zstd"
| "zstd_filter Decode = Decompressor_Filter Zstd"

fun brotli_filter :: "compress_mode \<Rightarrow> io_filter" where
  "brotli_filter Encode = brotli_compressor"
| "brotli_filter Decode = brotli_decompressor"

fun init_filtering_ostreambuf :: "codec \<Rightarrow> compress_mode \<Rightarrow> io_filter" where
  "init_filtering_ostreambuf Gzip m = gzip_filter m"
| "init_filtering_ostreambuf Zlib m = zlib_filter m"
| "init_filtering_ostreambuf Zstd m = zstd_filter m"
| "init_filtering_ostreambuf Brotli m = brotli_filter m"

section \<open>basic\_compressor\<close>

record 'z compressor =
  cz_codec :: codec
  cz_buffer :: string
  cz_stream :: "'z option"

definition compressor_init ::
  "'z filter_api \<Rightarrow> compress_mode \<Rightarrow> 'z compressor \<Rightarrow> 'z compressor" where
  "compressor_init F m c =
     c\<lparr>cz_stream := Some (filter_open F (init_filtering_ostreambuf (cz_codec c) m))\<rparr>"

definition compressor_finish :: "'z filter_api \<Rightarrow> 'z compressor \<Rightarrow> 'z compressor" where
  "compressor_finish F c =
     (case cz_stream c of
        None \<Rightarrow> c
      | Some z \<Rightarrow>
          let (z', out) = filter_close F z
          in c\<lparr>cz_buffer := cz_buffer c @ out, cz_stream := Some z'\<rparr>)"

definition compressor_write ::
  "'z filter_api \<Rightarrow> string \<Rightarrow> bool \<Rightarrow> 'z compressor \<Rightarrow> 'z compressor" where
  "compressor_write F data has_more c =
     (case cz_stream c of
        None \<Rightarrow> c
      | Some z \<Rightarrow>
          let (z', out) = filter_write F z data;
              c' = c\<lparr>cz_buffer := cz_buffer c @ out, cz_stream := Some z'\<rparr>
          in if has_more then c' else compressor_finish F c')"

definition compressor_buffer :: "'z compressor \<Rightarrow> string" where
  "compressor_buffer c = cz_buffer c"

definition compressor_consume :: "nat \<Rightarrow> 'z compressor \<Rightarrow> 'z compressor" where
  "compressor_consume n c = c\<lparr>cz_buffer := drop n (cz_buffer c)\<rparr>"

definition compressor_consume_all :: "'z compressor \<Rightarrow> 'z compressor" where
  "compressor_consume_all c = compressor_consume (length (cz_buffer c)) c"

section \<open>compressor\_factory\<close>

type_synonym creators = "(string \<times> codec) list"

definition register_compressor :: "string \<Rightarrow> codec \<Rightarrow> creators \<Rightarrow> creators" where
  "register_compressor encoding k cs = (encoding, k) # filter (\<lambda>e. fst e \<noteq> encoding) cs"

definition compressor_factory :: "bool \<Rightarrow> creators" where
  "compressor_factory enabled_compress =
     (if enabled_compress
      then register_compressor ''br'' Brotli
             (register_compressor ''zstd'' Zstd
               (register_compressor ''deflate'' Zlib
                 (register_compressor ''gzip'' Gzip [])))
      else [])"

definition supported_encoding :: "creators \<Rightarrow> string list" where
  "supported_encoding cs = map fst cs"

definition is_supported_encoding :: "creators \<Rightarrow> string \<Rightarrow> bool" where
  "is_supported_encoding cs encoding \<longleftrightarrow> map_of cs encoding \<noteq> None"

definition factory_create :: "creators \<Rightarrow> string \<Rightarrow> 'z compressor option" where
  "factory_create cs encoding =
     (case map_of cs encoding of
        None \<Rightarrow> None
      | Some k \<Rightarrow> Some \<lparr>cz_codec = k, cz_buffer = [], cz_stream = None\<rparr>)"

section \<open>Lemmas\<close>

lemma map_of_filter_neq: "k \<noteq> k' \<Longrightarrow> map_of (filter (\<lambda>e. fst e \<noteq> k) cs) k' = map_of cs k'"
  by (induction cs) auto

lemma register_lookup:
  "map_of (register_compressor e k cs) e' = (if e' = e then Some k else map_of cs e')"
  by (simp add: register_compressor_def map_of_filter_neq)

lemma factory_lookup:
  "map_of (compressor_factory enabled) e =
     (if \<not> enabled then None
      else if e = ''br'' then Some Brotli else if e = ''zstd'' then Some Zstd
      else if e = ''deflate'' then Some Zlib else if e = ''gzip'' then Some Gzip else None)"
  by (simp add: compressor_factory_def register_lookup)

lemma compressor_buffer_simps [simp]:
  "compressor_buffer (compressor_consume_all c) = []"
  "cz_stream (compressor_consume n c) = cz_stream c"
  "cz_stream (compressor_consume_all c) = cz_stream c"
  by (simp_all add: compressor_buffer_def compressor_consume_all_def compressor_consume_def)

section \<open>Properties\<close>

text \<open>
  An encoding the factory says it supports is one it creates a compressor for, with the codec
  registered under that name, and the names it advertises are exactly those; built without
  compression it advertises nothing and creates nothing.
\<close>

theorem factory_supports_what_it_creates:
  "is_supported_encoding (compressor_factory enabled) e \<longleftrightarrow>
     (\<exists>c. factory_create (compressor_factory enabled) e = Some (c :: 'z compressor)) \<and>
     e \<in> set (supported_encoding (compressor_factory enabled)) \<and> enabled"
  by (cases enabled)
     (auto simp: is_supported_encoding_def factory_create_def factory_lookup supported_encoding_def
       compressor_factory_def register_compressor_def split: option.splits)

text \<open>
  Opening the compressor created for an encoding in the encoding mode plugs in the compressing
  filter of its codec, and in the decoding mode the decompressing filter, except for \<open>br\<close>: a
  body received with \<open>Content-Encoding: br\<close> is run through the brotli compressor, because
  \<open>brotli_decompressor\<close> is a typedef of the compressor.
\<close>

theorem decoder_of_encoding:
  assumes "factory_create (compressor_factory True) e = Some (c :: 'z compressor)"
  shows "init_filtering_ostreambuf (cz_codec c) Encode = Compressor_Filter (cz_codec c) \<and>
         init_filtering_ostreambuf (cz_codec c) Decode =
           (if e = ''br'' then Compressor_Filter Brotli else Decompressor_Filter (cz_codec c))"
  using assms
  by (auto simp: factory_create_def factory_lookup brotli_compressor_def brotli_decompressor_def
      split: if_splits)

theorem decoder_of_encoding_witness:
  "factory_create (compressor_factory True) ''br'' =
     Some \<lparr>cz_codec = Brotli, cz_buffer = [], cz_stream = (None :: unit option)\<rparr> \<and>
   init_filtering_ostreambuf Brotli Decode = Compressor_Filter Brotli"
proof
  show e: "factory_create (compressor_factory True) ''br'' =
      Some \<lparr>cz_codec = Brotli, cz_buffer = [], cz_stream = (None :: unit option)\<rparr>"
    by (simp add: factory_create_def factory_lookup)
  show "init_filtering_ostreambuf Brotli Decode = Compressor_Filter Brotli"
    using decoder_of_encoding [OF e] by (simp add: brotli_decompressor_def)
qed

end
