(* ===== verification/Accept_Content.thy ===== *)
theory Accept_Content
  imports Util_Misc Compressor
begin

text \<open>
  \<open>html::basic_accept_content\<close> and \<open>accept_encoding_content\<close>
  (\<open>lib/html/accept_content.cpp\<close>): the parser of a header that lists elements with
  parameters, and the choice of the encoding of a response.
\<close>

record header_element =
  elem_value :: string
  elem_params :: "string \<rightharpoonup> string"

definition empty_element :: header_element where
  "empty_element = \<lparr>elem_value = [], elem_params = Map.empty\<rparr>"

definition unquote :: "string \<Rightarrow> string" where
  "unquote value =
     (if value \<noteq> [] \<and> hd value = dquote \<and> last value = dquote
      then substr value 1 (length value - 2) else value)"

definition add_param :: "header_element \<Rightarrow> string \<Rightarrow> header_element" where
  "add_param elem part =
     (let param = trim part
      in if param = [] then elem
         else
           (case find_sub ''='' param of
              None \<Rightarrow> elem
            | Some eqPos \<Rightarrow>
                let key = trim (take eqPos param);
                    value = unquote (trim (drop (eqPos + 1) param))
                in elem\<lparr>elem_params := (elem_params elem)(key \<mapsto> value)\<rparr>))"

definition parse_element :: "string \<Rightarrow> header_element" where
  "parse_element element_str =
     (case split element_str '';'' of
        [] \<Rightarrow> empty_element
      | v # parts \<Rightarrow> foldl add_param (empty_element\<lparr>elem_value := trim v\<rparr>) parts)"

definition accept_parse :: "string \<Rightarrow> header_element list" where
  "accept_parse header_value =
     map parse_element (filter (\<lambda>t. t \<noteq> []) (map trim (split header_value '','')))"

fun server_apply_encoding :: "creators \<Rightarrow> header_element list \<Rightarrow> string" where
  "server_apply_encoding cs [] = []"
| "server_apply_encoding cs (e # es) =
     (if is_supported_encoding cs (elem_value e) then elem_value e
      else server_apply_encoding cs es)"

section \<open>Lemmas\<close>

lemma elem_value_add_param [simp]: "elem_value (add_param e p) = elem_value e"
  by (simp add: add_param_def Let_def split: option.split)

lemma elem_value_foldl [simp]: "elem_value (foldl add_param e ps) = elem_value e"
  by (induction ps arbitrary: e) simp_all

lemma elem_value_parse_element:
  "elem_value (parse_element s) = (case split s '';'' of [] \<Rightarrow> [] | v # _ \<Rightarrow> trim v)"
  by (simp add: parse_element_def empty_element_def split: list.split)

lemma server_apply_encoding_cases:
  "server_apply_encoding cs es = (case filter (\<lambda>e. is_supported_encoding cs (elem_value e)) es of
     [] \<Rightarrow> [] | e # _ \<Rightarrow> elem_value e)"
  by (induction es) auto

lemma empty_encoding_unsupported: "\<not> is_supported_encoding (compressor_factory b) []"
  by (simp add: is_supported_encoding_def factory_lookup)

section \<open>Properties\<close>

text \<open>
  The encoding chosen for a response is empty exactly when the client lists no supported
  encoding; otherwise it is supported, it stands in the client's header, and every element before
  it is unsupported.
\<close>

theorem server_apply_encoding_first_supported:
  "let enc = server_apply_encoding (compressor_factory b) es;
       ok = is_supported_encoding (compressor_factory b)
   in (enc = [] \<longleftrightarrow> filter (\<lambda>e. ok (elem_value e)) es = []) \<and>
      (enc \<noteq> [] \<longrightarrow>
         (\<exists>xs e ys. es = xs @ e # ys \<and> elem_value e = enc \<and> ok enc \<and>
            filter (\<lambda>e. ok (elem_value e)) xs = []))"
proof (induction es)
  case (Cons e es)
  show ?case
  proof (cases "is_supported_encoding (compressor_factory b) (elem_value e)")
    case True
    then have "elem_value e \<noteq> []" using empty_encoding_unsupported by metis
    with True show ?thesis by (force simp: Let_def)
  next
    case False
    with Cons.IH show ?thesis
      by (auto simp: Let_def) (metis append_Cons filter.simps(2))
  qed
qed (simp add: Let_def)

theorem server_apply_encoding_first_supported_witness:
  "server_apply_encoding (compressor_factory True) (accept_parse ''x, deflate;q=0.5, gzip'') =
     ''deflate'' \<and>
   (\<exists>xs e ys. accept_parse ''x, deflate;q=0.5, gzip'' = xs @ e # ys \<and>
      elem_value e = ''deflate'')"
proof
  have sp: "split ''x, deflate;q=0.5, gzip'' '','' = [''x'', ''deflate;q=0.5'', ''gzip'']"
    "split ''x'' '';'' = [''x'']" "split ''deflate;q=0.5'' '';'' = [''deflate'', ''q=0.5'']"
    by code_simp+
  have "trim ''x'' = ''x''" "trim ''deflate'' = ''deflate''" "trim ''deflate;q=0.5'' = ''deflate;q=0.5''"
    "trim ''gzip'' = ''gzip''"
    by code_simp+
  with sp show e: "server_apply_encoding (compressor_factory True)
      (accept_parse ''x, deflate;q=0.5, gzip'') = ''deflate''"
    by (simp add: accept_parse_def elem_value_parse_element is_supported_encoding_def factory_lookup)
  show "\<exists>xs e ys. accept_parse ''x, deflate;q=0.5, gzip'' = xs @ e # ys \<and> elem_value e = ''deflate''"
    using server_apply_encoding_first_supported
      [of True "accept_parse ''x, deflate;q=0.5, gzip''", unfolded Let_def e] by blast
qed

text \<open>
  The quality values are parsed but not consulted: an encoding the client refuses with
  \<open>q=0\<close> is applied.
\<close>

theorem refused_encoding_is_applied:
  "elem_params (hd (accept_parse ''gzip;q=0'')) ''q'' = Some ''0'' \<and>
   server_apply_encoding (compressor_factory True) (accept_parse ''gzip;q=0'') = ''gzip''"
proof -
  have "split ''gzip;q=0'' '','' = [''gzip;q=0'']" "split ''gzip;q=0'' '';'' = [''gzip'', ''q=0'']"
    "trim ''gzip;q=0'' = ''gzip;q=0''" "trim ''gzip'' = ''gzip''" "trim ''q=0'' = ''q=0''"
    "trim ''q'' = ''q''" "trim ''0'' = ''0''"
    by code_simp+
  then show ?thesis
    by (simp add: accept_parse_def parse_element_def add_param_def empty_element_def unquote_def
        is_supported_encoding_def factory_lookup Let_def)
qed

end
