(* ===== verification/Form_Data.thy ===== *)
theory Form_Data
  imports Prelude
begin

text \<open>
  \<open>html::form_data\<close> (\<open>include/httplib/html/form_data.hpp\<close>,
  \<open>lib/html/form_data.cpp\<close>): the fields of a submitted form and their accessors.
\<close>

record form_field =
  field_name :: string
  field_filename :: string
  field_content_type :: string
  field_content :: string

definition empty_field :: form_field where
  "empty_field =
     \<lparr>field_name = [], field_filename = [], field_content_type = [], field_content = []\<rparr>"

definition field_has_data :: "form_field \<Rightarrow> bool" where
  "field_has_data f \<longleftrightarrow> field_content f \<noteq> []"

definition field_is_file :: "form_field \<Rightarrow> bool" where
  "field_is_file f \<longleftrightarrow> field_filename f \<noteq> []"

record form_data =
  fd_fields :: "form_field list"
  fd_boundary :: string

definition field_by_name :: "form_data \<Rightarrow> string \<Rightarrow> form_field option" where
  "field_by_name fd nm = List.find (\<lambda>ef. field_name ef = nm) (fd_fields fd)"

definition form_has_data :: "form_data \<Rightarrow> string \<Rightarrow> bool" where
  "form_has_data fd nm \<longleftrightarrow> field_by_name fd nm \<noteq> None"

definition form_has_content :: "form_data \<Rightarrow> string \<Rightarrow> bool" where
  "form_has_content fd nm =
     (case field_by_name fd nm of None \<Rightarrow> False | Some f \<Rightarrow> field_has_data f)"

definition form_content :: "form_data \<Rightarrow> string \<Rightarrow> string option" where
  "form_content fd nm =
     (case field_by_name fd nm of
        None \<Rightarrow> None
      | Some f \<Rightarrow> if \<not> field_has_data f then None else Some (field_content f))"

definition dump_field :: "form_field \<Rightarrow> string" where
  "dump_field f =
     (if \<not> field_has_data f then []
      else field_name f @ '':'' @ [lf] @
        ''  type     = '' @ field_content_type f @ [lf] @
        ''  filename = '' @ field_filename f @ [lf] @
        ''  content  = '' @ field_content f @ [lf] @
        [lf])"

definition form_dump :: "form_data \<Rightarrow> string" where
  "form_dump fd = concat (map dump_field (fd_fields fd))"

section \<open>Properties\<close>

text \<open>
  The accessors agree with each other on every form and name: content is reported present
  exactly when it is returned, what is returned is never empty and is the content of the first
  field of that name, and the header \<open>has_data\<close> only says that the field exists.
\<close>

theorem form_accessors_agree:
  "(form_has_content fd nm \<longleftrightarrow> (\<exists>c. form_content fd nm = Some c)) \<and>
   (form_content fd nm \<noteq> Some []) \<and>
   (form_has_content fd nm \<longrightarrow> form_has_data fd nm) \<and>
   (form_content fd nm = Some c \<longrightarrow>
      (\<exists>xs f ys. fd_fields fd = xs @ f # ys \<and> field_name f = nm \<and> field_content f = c \<and>
         nm \<notin> field_name ` set xs))"
proof -
  have "\<exists>xs ys. fd_fields fd = xs @ f # ys \<and> field_name f = nm \<and> nm \<notin> field_name ` set xs"
    if "field_by_name fd nm = Some f" for f
  proof -
    from that obtain i where i: "i < length (fd_fields fd)" "fd_fields fd ! i = f"
      "field_name f = nm" "\<forall>j<i. field_name (fd_fields fd ! j) \<noteq> nm"
      by (auto simp: field_by_name_def find_Some_iff)
    then have "fd_fields fd = take i (fd_fields fd) @ f # drop (Suc i) (fd_fields fd)"
      by (metis id_take_nth_drop)
    moreover have "nm \<notin> field_name ` set (take i (fd_fields fd))"
    proof
      assume "nm \<in> field_name ` set (take i (fd_fields fd))"
      then obtain j where "j < i" "nm = field_name (fd_fields fd ! j)"
        by (auto simp: in_set_conv_nth)
      with i(4) show False by blast
    qed
    ultimately show ?thesis using i(3) by blast
  qed
  then have "form_content fd nm = Some c \<Longrightarrow>
      \<exists>xs f ys. fd_fields fd = xs @ f # ys \<and> field_name f = nm \<and> field_content f = c \<and>
         nm \<notin> field_name ` set xs"
    by (simp add: form_content_def split: option.splits if_splits) blast
  then show ?thesis
    by (simp add: form_has_content_def form_content_def form_has_data_def field_has_data_def
        split: option.splits)
qed

theorem form_accessors_agree_witness:
  "let fd = \<lparr>fd_fields = [empty_field\<lparr>field_name := ''a'', field_content := ''1''\<rparr>],
             fd_boundary = []\<rparr>
   in form_content fd ''a'' = Some ''1'' \<and> form_has_data fd ''a'' \<and>
      (\<exists>xs f ys. fd_fields fd = xs @ f # ys \<and> field_name f = ''a'' \<and> field_content f = ''1'')"
proof -
  let ?fd = "\<lparr>fd_fields = [empty_field\<lparr>field_name := ''a'', field_content := ''1''\<rparr>],
             fd_boundary = []\<rparr>"
  have "form_content ?fd ''a'' = Some ''1''"
    by (simp add: form_content_def field_by_name_def field_has_data_def)
  then show ?thesis
    using form_accessors_agree [of ?fd "''a''" "''1''"] unfolding Let_def by blast
qed

end
