(* ===== verification/Body_Interface.thy ===== *)
theory Body_Interface
  imports Prelude
begin

text \<open>
  The contract between the body types of \<open>include/httplib/body/\<close> and whoever drives them (the
  serializer and the parser of a message, and \<open>any_body\<close> in between): a writer is asked for
  buffers with \<open>get\<close> until it returns none or a buffer marked as the last; a reader is given the
  unconsumed bytes with \<open>put\<close> and says how many it took. \<open>drain\<close> and \<open>feed\<close> are the two
  protocols; the locales state what a writer and a reader owe, and what their drivers get for it.
\<close>

section \<open>Errors and buffers\<close>

datatype body_error =
    Need_More
  | Unexpected_Body
  | Bad_Field
  | Partial_Message
  | Short_Read
  | Buffer_Overflow
  | Json_Error
  | Incomplete

datatype get_result =
    Get_None
  | Get_Error body_error
  | Get_Chunk string bool

type_synonym 's writer_get = "'s \<Rightarrow> 's \<times> get_result"
type_synonym 's reader_put = "'s \<Rightarrow> string \<Rightarrow> 's \<times> (body_error + nat)"

section \<open>Draining a writer\<close>

text \<open>All bytes a writer gives, and the error that stopped it, if any; \<open>None\<close> out of fuel.\<close>

fun drain :: "'s writer_get \<Rightarrow> nat \<Rightarrow> 's \<Rightarrow> (string \<times> body_error option) option" where
  "drain get 0 s = None"
| "drain get (Suc n) s =
     (case get s of
        (s', Get_None) \<Rightarrow> Some ([], None)
      | (s', Get_Error e) \<Rightarrow> Some ([], Some e)
      | (s', Get_Chunk bs has_more) \<Rightarrow>
          if has_more then map_option (\<lambda>(out, e). (bs @ out, e)) (drain get n s')
          else Some (bs, None))"

locale body_writer =
  fixes get :: "'s writer_get"
    and inv :: "'s \<Rightarrow> bool"
    and rest :: "'s \<Rightarrow> string"
    and work :: "'s \<Rightarrow> nat"
  assumes get_none: "inv s \<Longrightarrow> get s = (s', Get_None) \<Longrightarrow> rest s = []"
    and get_last: "inv s \<Longrightarrow> get s = (s', Get_Chunk bs False) \<Longrightarrow> rest s = bs"
    and get_more: "inv s \<Longrightarrow> get s = (s', Get_Chunk bs True) \<Longrightarrow>
        rest s = bs @ rest s' \<and> inv s' \<and> work s' < work s"
    and get_no_error: "inv s \<Longrightarrow> get s \<noteq> (s', Get_Error e)"
begin

lemma drain_rest: "inv s \<Longrightarrow> work s < n \<Longrightarrow> drain get n s = Some (rest s, None)"
proof (induction n arbitrary: s)
  case (Suc n)
  obtain s' r where g: "get s = (s', r)" by (cases "get s")
  show ?case
  proof (cases r)
    case Get_None
    with g get_none [OF Suc.prems(1)] show ?thesis by simp
  next
    case (Get_Error e)
    with g get_no_error [OF Suc.prems(1)] show ?thesis by blast
  next
    case (Get_Chunk bs m)
    show ?thesis
    proof (cases m)
      case True
      with g Get_Chunk have "rest s = bs @ rest s'" "inv s'" "work s' < work s"
        using get_more [OF Suc.prems(1), of s' bs] by simp_all
      with Suc.IH [of s'] Suc.prems(2) g Get_Chunk True show ?thesis by simp
    next
      case False
      with g Get_Chunk get_last [OF Suc.prems(1)] show ?thesis by simp
    qed
  qed
qed simp

end

text \<open>A writer that marks its last buffer, so that it is never asked once too often.\<close>

locale marked_writer = body_writer get inv rest work
  for get :: "'s writer_get" and inv :: "'s \<Rightarrow> bool" and rest :: "'s \<Rightarrow> string" and work :: "'s \<Rightarrow> nat" +
  assumes get_marked: "inv s \<Longrightarrow> get s \<noteq> (s', Get_None)"

section \<open>Feeding a reader\<close>

text \<open>
  The bytes at hand are put until none is left, an error is reported, or no byte is taken; the
  result holds what is left.
\<close>

function feed :: "'s reader_put \<Rightarrow> 's \<Rightarrow> string \<Rightarrow> 's \<times> string \<times> body_error option" where
  "feed put s data =
     (if data = [] then (s, [], None)
      else
        (case put s data of
           (s', Inl e) \<Rightarrow> (s', data, Some e)
         | (s', Inr n) \<Rightarrow> if n = 0 then (s', data, None) else feed put s' (drop n data)))"
  by pat_completeness auto
termination
  by (relation "measure (\<lambda>(_, _, d). length d)") auto

declare feed.simps [simp del]

text \<open>
  Data that arrives in segments: what one round left over stands before the next segment, and an
  error other than the request for more data ends the parse.
\<close>

fun feed_segments ::
  "'s reader_put \<Rightarrow> 's \<Rightarrow> string \<Rightarrow> string list \<Rightarrow> 's \<times> string \<times> body_error option" where
  "feed_segments put s left [] = feed put s left"
| "feed_segments put s left (seg # segs) =
     (case feed put s left of
        (s', left', e) \<Rightarrow>
          if e = None \<or> e = Some Need_More then feed_segments put s' (left' @ seg) segs
          else (s', left' @ seg @ concat segs, e))"

locale body_reader =
  fixes put :: "'s reader_put"
  assumes put_takes: "put s d = (s', Inr n) \<Longrightarrow> n \<le> length d"
    and put_progress: "d \<noteq> [] \<Longrightarrow> put s d = (s', Inr n) \<Longrightarrow> 0 < n"
begin

lemma feed_takes: "d \<noteq> [] \<Longrightarrow> put s d = (t, Inr n) \<Longrightarrow> feed put s d = feed put t (drop n d)"
  using put_progress [of d s t n] by (simp add: feed.simps [of put s d])

lemma feed_complete: "feed put s d = (s', l, None) \<Longrightarrow> l = []"
proof (induction "length d" arbitrary: s d rule: less_induct)
  case less
  show ?case
  proof (cases "d = []")
    case True
    with less.prems show ?thesis by (simp add: feed.simps [of put])
  next
    case False
    obtain t r where p: "put s d = (t, r)" by (cases "put s d")
    show ?thesis
    proof (cases r)
      case (Inl e)
      with p False less.prems show ?thesis by (simp add: feed.simps [of put s d])
    next
      case (Inr n)
      with p False have "0 < n" "feed put s d = feed put t (drop n d)"
        using put_progress feed_takes by simp_all
      with less.hyps [of "drop n d" t] less.prems False show ?thesis by simp
    qed
  qed
qed

end

text \<open>A reader whose result does not depend on how the data was cut into segments.\<close>

locale streaming_reader = body_reader put for put :: "'s reader_put" +
  assumes need_more_keeps: "put s d = (s', Inl Need_More) \<Longrightarrow> s' = s"
    and error_stable: "d \<noteq> [] \<Longrightarrow> put s d = (s', Inl e) \<Longrightarrow> e \<noteq> Need_More \<Longrightarrow> put s (d @ x) = (s', Inl e)"
    and put_append: "d \<noteq> [] \<Longrightarrow> put s d = (s', Inr n) \<Longrightarrow> feed put s (d @ x) = feed put s' (drop n d @ x)"
begin

lemma feed_append:
  "feed put s (d @ x) =
     (case feed put s d of
        (s', l, e) \<Rightarrow>
          if e = None \<or> e = Some Need_More then feed put s' (l @ x) else (s', l @ x, e))"
proof (induction "length d" arbitrary: s d rule: less_induct)
  case less
  show ?case
  proof (cases "d = []")
    case True
    then show ?thesis by (simp add: feed.simps [of put s "[]"])
  next
    case False
    obtain t r where p: "put s d = (t, r)" by (cases "put s d")
    show ?thesis
    proof (cases r)
      case (Inl e)
      show ?thesis
      proof (cases "e = Need_More")
        case True
        with need_more_keeps p Inl have "t = s" by simp
        with p Inl True False show ?thesis by (simp add: feed.simps [of put s d])
      next
        case ne: False
        from error_stable [OF False] p Inl ne have "put s (d @ x) = (t, Inl e)" by simp
        with p Inl ne False show ?thesis
          by (simp add: feed.simps [of put s d] feed.simps [of put s "d @ x"])
      qed
    next
      case (Inr n)
      have n: "0 < n" using put_progress [OF False] p Inr by simp
      have "feed put s (d @ x) = feed put t (drop n d @ x)"
        by (rule put_append [OF False]) (simp add: p Inr)
      also have "\<dots> = (case feed put t (drop n d) of
          (s', l, e) \<Rightarrow>
            if e = None \<or> e = Some Need_More then feed put s' (l @ x) else (s', l @ x, e))"
        using less [of "drop n d" t] n False by simp
      also have "feed put t (drop n d) = feed put s d"
        using feed_takes [OF False] p Inr by simp
      finally show ?thesis .
    qed
  qed
qed

lemma feed_segments_concat: "feed_segments put s l segs = feed put s (l @ concat segs)"
proof (induction segs arbitrary: s l)
  case (Cons seg segs)
  obtain s' l' e where f: "feed put s l = (s', l', e)" by (cases "feed put s l")
  have "feed put s (l @ seg @ concat segs) =
      (if e = None \<or> e = Some Need_More then feed put s' (l' @ seg @ concat segs)
       else (s', l' @ seg @ concat segs, e))"
    by (simp add: feed_append f)
  with Cons.IH [of s' "l' @ seg"] f show ?case by simp
qed simp

end

end
