(* ===== verification/Form_Data_Body.thy ===== *)
theory Form_Data_Body
  imports Body_Interface Form_Data Util_Misc
begin

text \<open>
  \<open>form_data_body\<close> (\<open>include/httplib/body/form_data_body.hpp\<close>,
  \<open>lib/body/form_data_body.cpp\<close>): the writer of a multipart body as the state machine it is,
  the reader with its five steps, and the two parsers of a part's header. A position that a loop
  moves over a text is represented by the text from it on.
\<close>

section \<open>Parsing the header of a part\<close>

text \<open>
  The inner loop over a quoted value: its text up to the closing quote, which is skipped, or up to
  the end. An escaping backslash stays in the value.
\<close>

fun scan_quoted :: "bool \<Rightarrow> string \<Rightarrow> string \<times> string" where
  "scan_quoted escape [] = ([], [])"
| "scan_quoted escape (c # cs) =
     (if c = backslash \<and> \<not> escape then map_prod ((#) c) id (scan_quoted True cs)
      else if c = dquote \<and> \<not> escape then ([], cs)
      else map_prod ((#) c) id (scan_quoted False cs))"

definition scan_value :: "string \<Rightarrow> string \<times> string" where
  "scan_value r =
     (if starts_with [dquote] r then scan_quoted False (drop 1 r)
      else (trim (takeWhile (\<lambda>c. c \<noteq> CHR '';'') r), dropWhile (\<lambda>c. c \<noteq> CHR '';'') r))"

definition skip_separator :: "string \<Rightarrow> string" where
  "skip_separator r = dropWhile isspace (if starts_with '';'' r then drop 1 r else r)"

lemma length_scan_quoted: "length (snd (scan_quoted e s)) \<le> length s"
  by (induction e s rule: scan_quoted.induct) (auto simp: le_SucI)

lemma length_scan_value: "length (snd (scan_value r)) \<le> length r"
  using length_scan_quoted [of False "drop 1 r"]
  by (auto simp: scan_value_def length_dropWhile_le)

lemma length_skip_separator: "length (skip_separator r) \<le> length r"
proof -
  have "length (skip_separator r) \<le> length (if starts_with '';'' r then drop 1 r else r)"
    unfolding skip_separator_def by (rule length_dropWhile_le)
  then show ?thesis by (auto split: if_splits)
qed

function parse_content_disposition :: "string \<Rightarrow> (string \<times> string) list" where
  "parse_content_disposition header =
     (case find_sub ''='' header of
        None \<Rightarrow> []
      | Some eq \<Rightarrow>
          let key = trim (take eq header);
              v = scan_value (drop (eq + 1) header)
          in (key, fst v) # parse_content_disposition (skip_separator (snd v)))"
  by pat_completeness auto
termination
proof (relation "measure length", goal_cases)
  case (2 header eq key v)
  then have "header \<noteq> []" by auto
  moreover have "length (skip_separator (snd v)) \<le> length (drop (eq + 1) header)"
    using 2 length_skip_separator [of "snd v"] length_scan_value [of "drop (eq + 1) header"] by simp
  ultimately show ?case by (cases header) auto
qed simp

declare parse_content_disposition.simps [simp del]

fun header_lines :: "string list \<Rightarrow> body_error + (string \<times> string) list" where
  "header_lines [] = Inr []"
| "header_lines (line # lines) =
     (if line = [] then header_lines lines
      else
        (case find_sub '':'' line of
           None \<Rightarrow> Inl Unexpected_Body
         | Some pos \<Rightarrow>
             (case header_lines lines of
                Inl e \<Rightarrow> Inl e
              | Inr kvs \<Rightarrow> Inr ((trim (take pos line), trim (drop (pos + 1) line)) # kvs))))"

definition split_header_field_value :: "string \<Rightarrow> body_error + (string \<times> string) list" where
  "split_header_field_value header = header_lines (split header crlf)"

definition set_disposition_pair :: "form_field \<Rightarrow> string \<times> string \<Rightarrow> form_field" where
  "set_disposition_pair f p =
     (if fst p = ''name'' then f\<lparr>field_name := snd p\<rparr>
      else if fst p = ''filename'' then f\<lparr>field_filename := snd p\<rparr> else f)"

definition set_disposition :: "form_field \<Rightarrow> string \<Rightarrow> body_error + form_field" where
  "set_disposition f value =
     (case find_sub '';'' value of
        None \<Rightarrow> Inl Unexpected_Body
      | Some pos \<Rightarrow>
          if trim (take pos value) \<noteq> ''form-data'' then Inl Unexpected_Body
          else Inr (foldl set_disposition_pair f
                 (parse_content_disposition (drop (pos + 1) value))))"

fun set_header_items :: "form_field \<Rightarrow> (string \<times> string) list \<Rightarrow> body_error + form_field" where
  "set_header_items f [] = Inr f"
| "set_header_items f ((key, value) # items) =
     (if key = ''Content-Disposition'' then
        (case set_disposition f value of
           Inl e \<Rightarrow> Inl e
         | Inr f' \<Rightarrow> set_header_items f' items)
      else if key = ''Content-Type'' then
        set_header_items (f\<lparr>field_content_type := value\<rparr>) items
      else set_header_items f items)"

section \<open>The writer\<close>

datatype writer_step = W_Header | W_Content | W_Content_End | W_Eof

record form_writer =
  fw_body :: form_data
  fw_index :: nat
  fw_step :: writer_step

definition form_writer_init :: "form_writer \<Rightarrow> form_writer" where
  "form_writer_init w = w\<lparr>fw_index := 0\<rparr>"

definition form_writer_new :: "form_data \<Rightarrow> form_writer" where
  "form_writer_new b = \<lparr>fw_body = b, fw_index = 0, fw_step = W_Header\<rparr>"

definition part_header :: "form_field \<Rightarrow> string" where
  "part_header f =
     ''Content-Disposition: form-data; name='' @ [dquote] @ field_name f @ [dquote] @
     (if field_filename f \<noteq> [] then ''; filename='' @ [dquote] @ field_filename f @ [dquote]
      else []) @ crlf @
     (if field_content_type f \<noteq> [] then ''Content-Type: '' @ field_content_type f @ crlf else []) @
     crlf"

definition boundary_line :: "string \<Rightarrow> string" where
  "boundary_line b = ''--'' @ b @ crlf"

definition boundary_line_last :: "string \<Rightarrow> string" where
  "boundary_line_last b = ''--'' @ b @ ''--''"

definition form_writer_get :: "form_writer writer_get" where
  "form_writer_get w =
     (let fields = fd_fields (fw_body w); b = fd_boundary (fw_body w)
      in if length fields \<le> fw_index w then (w, Get_None)
         else
           let field_data = fields ! fw_index w
           in (case fw_step w of
                 W_Header \<Rightarrow>
                   (w\<lparr>fw_step := W_Content\<rparr>,
                    Get_Chunk (boundary_line b @ part_header field_data) True)
               | W_Content \<Rightarrow>
                   (w\<lparr>fw_step := W_Content_End\<rparr>, Get_Chunk (field_content field_data) True)
               | W_Content_End \<Rightarrow>
                   if fw_index w = length fields - 1
                   then (w\<lparr>fw_step := W_Eof\<rparr>,
                         Get_Chunk (crlf @ boundary_line_last b @ crlf) False)
                   else (w\<lparr>fw_step := W_Header, fw_index := fw_index w + 1\<rparr>,
                         Get_Chunk crlf True)
               | W_Eof \<Rightarrow> (w, Get_None)))"

section \<open>The reader\<close>

datatype reader_step = Boundary_Line | Boundary_Header | Boundary_Content | Finshed | R_Eof

record form_reader =
  fr_body :: form_data
  fr_content_type :: string
  fr_boundary :: string
  fr_step :: reader_step
  fr_field :: form_field

definition form_reader_new :: "string \<Rightarrow> form_data \<Rightarrow> form_reader" where
  "form_reader_new content_type b =
     \<lparr>fr_body = b, fr_content_type = content_type, fr_boundary = [], fr_step = Boundary_Line,
      fr_field = empty_field\<rparr>"

definition boundary_part :: "form_reader \<Rightarrow> string \<Rightarrow> form_reader" where
  "boundary_part r part =
     (let trimed_part = trim part
      in if \<not> starts_with ''boundary'' trimed_part then r
         else
           (case split trimed_part ''='' of
              [_, b] \<Rightarrow> r\<lparr>fr_boundary := trim b\<rparr>
            | _ \<Rightarrow> r))"

definition form_reader_init :: "form_reader \<Rightarrow> form_reader \<times> body_error option" where
  "form_reader_init r =
     (let r' = foldl boundary_part r (split (fr_content_type r) '';'')
      in (r', if fr_boundary r' = [] then Some Bad_Field else None))"

definition put_boundary_line :: "form_reader reader_put" where
  "put_boundary_line r data =
     (let line = boundary_line (fr_boundary r); line_last = boundary_line_last (fr_boundary r)
      in if length data < max (length line) (length line_last) then (r, Inl Need_More)
         else if starts_with line data then (r\<lparr>fr_step := Boundary_Header\<rparr>, Inr (length line))
         else if starts_with line_last data then (r\<lparr>fr_step := Finshed\<rparr>, Inr (length line_last))
         else (r, Inl Unexpected_Body))"

definition put_boundary_header :: "form_reader reader_put" where
  "put_boundary_header r data =
     (case find_sub (crlf @ crlf) data of
        None \<Rightarrow> (r, Inl Need_More)
      | Some pos \<Rightarrow>
          let header = take (pos + 4) data
          in (case split_header_field_value header of
                Inl e \<Rightarrow> (r, Inl e)
              | Inr results \<Rightarrow>
                  (case set_header_items empty_field results of
                     Inl e \<Rightarrow> (r, Inl e)
                   | Inr f \<Rightarrow>
                       (r\<lparr>fr_field := f, fr_step := Boundary_Content\<rparr>, Inr (length header)))))"

definition append_content :: "form_reader \<Rightarrow> string \<Rightarrow> form_reader" where
  "append_content r bs =
     r\<lparr>fr_field := (fr_field r)\<lparr>field_content := field_content (fr_field r) @ bs\<rparr>\<rparr>"

text \<open>
  A field that is complete moves into the body; the moved-from \<open>field_data\_\<close> is assigned
  before it is read again.
\<close>

definition push_field :: "form_reader \<Rightarrow> form_reader" where
  "push_field r =
     r\<lparr>fr_step := Boundary_Line, fr_field := empty_field,
       fr_body := (fr_body r)\<lparr>fd_fields := fd_fields (fr_body r) @ [fr_field r]\<rparr>\<rparr>"

definition put_boundary_content :: "form_reader reader_put" where
  "put_boundary_content r data =
     (if starts_with [cr] data then
        (let eof_boundary_line = crlf @ ''--'' @ fr_boundary r
         in if length data < length eof_boundary_line then (r, Inl Need_More)
            else if starts_with eof_boundary_line data then (push_field r, Inr 2)
            else (append_content r [cr], Inr 1))
      else
        (case find_sub [cr] data of
           None \<Rightarrow> (append_content r data, Inr (length data))
         | Some pos \<Rightarrow> (append_content r (take pos data), Inr pos)))"

definition put_finshed :: "form_reader reader_put" where
  "put_finshed r data =
     (if length data < 2 then (r, Inl Need_More)
      else if \<not> starts_with crlf data then (r, Inl Unexpected_Body)
      else (r\<lparr>fr_step := R_Eof\<rparr>, Inr 2))"

definition form_reader_put :: "form_reader reader_put" where
  "form_reader_put r data =
     (case fr_step r of
        Boundary_Line \<Rightarrow> put_boundary_line r data
      | Boundary_Header \<Rightarrow> put_boundary_header r data
      | Boundary_Content \<Rightarrow> put_boundary_content r data
      | Finshed \<Rightarrow> put_finshed r data
      | R_Eof \<Rightarrow> (r, Inl Unexpected_Body))"

definition form_reader_finish :: "form_reader \<Rightarrow> body_error option" where
  "form_reader_finish r = (if fr_step r \<noteq> R_Eof then Some Partial_Message else None)"

section \<open>The contracts\<close>

subsection \<open>The writer\<close>

fun form_text :: "string \<Rightarrow> form_field list \<Rightarrow> string" where
  "form_text b [] = boundary_line_last b @ crlf"
| "form_text b (f # fs) =
     boundary_line b @ part_header f @ field_content f @ crlf @ form_text b fs"

definition form_writer_inv :: "form_writer \<Rightarrow> bool" where
  "form_writer_inv w \<longleftrightarrow> fd_fields (fw_body w) = [] \<or>
     (fw_index w < length (fd_fields (fw_body w)) \<and> fw_step w \<noteq> W_Eof)"

definition form_writer_rest :: "form_writer \<Rightarrow> string" where
  "form_writer_rest w =
     (let fields = fd_fields (fw_body w); b = fd_boundary (fw_body w); i = fw_index w
      in if fields = [] then []
         else
           (case fw_step w of
              W_Header \<Rightarrow> form_text b (drop i fields)
            | W_Content \<Rightarrow> field_content (fields ! i) @ crlf @ form_text b (drop (Suc i) fields)
            | W_Content_End \<Rightarrow> crlf @ form_text b (drop (Suc i) fields)
            | W_Eof \<Rightarrow> []))"

definition form_writer_work :: "form_writer \<Rightarrow> nat" where
  "form_writer_work w =
     3 * (length (fd_fields (fw_body w)) - fw_index w) -
     (case fw_step w of W_Header \<Rightarrow> 0 | W_Content \<Rightarrow> 1 | W_Content_End \<Rightarrow> 2 | W_Eof \<Rightarrow> 3)"

lemmas form_writer_defs =
  form_writer_inv_def form_writer_rest_def form_writer_work_def form_writer_get_def

interpretation form_w: body_writer form_writer_get form_writer_inv form_writer_rest form_writer_work
proof
  fix s s' bs
  assume inv: "form_writer_inv s"
  {
    assume "form_writer_get s = (s', Get_None)"
    with inv show "form_writer_rest s = []"
      by (auto simp: form_writer_defs Let_def split: writer_step.splits if_splits)
  next
    assume "form_writer_get s = (s', Get_Chunk bs False)"
    with inv show "form_writer_rest s = bs"
      by (auto simp: form_writer_defs Let_def split: writer_step.splits if_splits)
  next
    assume "form_writer_get s = (s', Get_Chunk bs True)"
    with inv show "form_writer_rest s = bs @ form_writer_rest s' \<and> form_writer_inv s' \<and>
        form_writer_work s' < form_writer_work s"
      by (auto simp: form_writer_defs Let_def Cons_nth_drop_Suc [symmetric]
          split: writer_step.splits if_splits)
  next
    fix e
    show "form_writer_get s \<noteq> (s', Get_Error e)"
      by (auto simp: form_writer_get_def Let_def split: writer_step.splits)
  }
qed

lemma form_writer_text:
  assumes "fd_fields b \<noteq> []" "3 * length (fd_fields b) < n"
  shows "drain form_writer_get n (form_writer_init (form_writer_new b)) =
           Some (form_text (fd_boundary b) (fd_fields b), None)"
  using assms form_w.drain_rest [of "form_writer_init (form_writer_new b)" n]
  by (simp add: form_writer_inv_def form_writer_rest_def form_writer_work_def
      form_writer_new_def form_writer_init_def)

subsection \<open>The reader\<close>

lemmas put_defs =
  put_boundary_line_def put_boundary_header_def put_boundary_content_def put_finshed_def

lemma form_reader_put_takes:
  "form_reader_put s d = (s', Inr n) \<Longrightarrow> n \<le> length d \<and> (d \<noteq> [] \<longrightarrow> 0 < n)"
proof -
  assume p: "form_reader_put s d = (s', Inr n)"
  have "0 < i" if "find_sub [cr] d = Some i" "\<not> starts_with [cr] d" for i
    using that by (cases d) auto
  with p show ?thesis
    by (auto simp: form_reader_put_def put_defs Let_def boundary_line_def boundary_line_last_def
        dest: starts_with_length find_sub_SomeD
        split: reader_step.splits if_splits option.splits sum.splits)
qed

interpretation form_r: body_reader form_reader_put
  by unfold_locales (auto dest: form_reader_put_takes)

text \<open>
  More bytes change no decision of \<open>put\<close>, except that a run of content without a carriage
  return goes on into them.
\<close>

definition content_run :: "form_reader \<Rightarrow> string \<Rightarrow> bool" where
  "content_run s d \<longleftrightarrow> fr_step s = Boundary_Content \<and> cr \<notin> set d"

lemma put_boundary_line_append:
  "put_boundary_line s d = (s', r) \<Longrightarrow> r \<noteq> Inl Need_More \<Longrightarrow> put_boundary_line s (d @ x) = (s', r)"
  by (auto simp: put_boundary_line_def Let_def boundary_line_def boundary_line_last_def
      starts_with_append_right split: if_splits)

lemma put_boundary_header_append:
  "put_boundary_header s d = (s', r) \<Longrightarrow> r \<noteq> Inl Need_More \<Longrightarrow>
   put_boundary_header s (d @ x) = (s', r)"
proof -
  assume p: "put_boundary_header s d = (s', r)" and r: "r \<noteq> Inl Need_More"
  then obtain i where i: "find_sub (crlf @ crlf) d = Some i"
    by (cases "find_sub (crlf @ crlf) d") (auto simp: put_boundary_header_def)
  then have "i + 4 \<le> length d" using find_sub_SomeD [OF i] by simp
  with p i find_sub_append_right [OF i, of x] show ?thesis
    by (simp add: put_boundary_header_def)
qed

lemma put_boundary_content_append:
  assumes "put_boundary_content s d = (s', r)" "r \<noteq> Inl Need_More" "d \<noteq> []" "cr \<in> set d"
  shows "put_boundary_content s (d @ x) = (s', r)"
proof (cases "starts_with [cr] d")
  case True
  then have "starts_with [cr] (d @ x)"
    using assms(3) by (auto simp: starts_with_append_right Suc_le_eq)
  with True assms show ?thesis
    by (auto simp: put_boundary_content_def Let_def starts_with_append_right split: if_splits)
next
  case False
  then have "\<not> starts_with [cr] (d @ x)"
    using assms(3) by (simp add: starts_with_append_right Suc_le_eq)
  moreover obtain i where i: "find_sub [cr] d = Some i"
    using assms(4) by (cases "find_sub [cr] d") auto
  moreover have "i \<le> length d" using find_sub_SomeD [OF i] by simp
  ultimately show ?thesis using False assms(1) find_sub_append_right [OF i, of x]
    by (simp add: put_boundary_content_def)
qed

lemma form_reader_put_append:
  assumes "form_reader_put s d = (s', r)" "r \<noteq> Inl Need_More" "d \<noteq> []" "\<not> content_run s d"
  shows "form_reader_put s (d @ x) = (s', r)"
proof (cases "fr_step s")
  case Finshed
  with assms show ?thesis
    by (auto simp: form_reader_put_def put_finshed_def starts_with_append_right split: if_splits)
qed (use assms in \<open>auto simp: form_reader_put_def content_run_def put_boundary_line_append
  put_boundary_header_append put_boundary_content_append\<close>)

lemma put_content_run:
  "content_run s d \<Longrightarrow> form_reader_put s d = (append_content s d, Inr (length d))"
  by (auto simp: content_run_def form_reader_put_def put_boundary_content_def starts_with_hd_notin
      find_sub_hd_notin)

lemma append_content_append [simp]:
  "append_content (append_content s a) b = append_content s (a @ b)"
  "fr_step (append_content s a) = fr_step s"
  "fr_boundary (append_content s a) = fr_boundary s"
  "append_content s [] = s"
  by (simp_all add: append_content_def)

lemma feed_content_run:
  assumes "content_run s d"
  shows "feed form_reader_put s (d @ x) = feed form_reader_put (append_content s d) x"
proof (cases "d = []")
  case False
  let ?t = "takeWhile (\<lambda>c. c \<noteq> cr) x" and ?u = "dropWhile (\<lambda>c. c \<noteq> cr) x"
  have run: "feed form_reader_put t (e @ ?u) = feed form_reader_put (append_content t e) ?u"
    if "content_run t e" "e \<noteq> []" for t e
  proof (cases "?u = []")
    case True
    then show ?thesis
      unfolding True using form_r.feed_takes [OF that(2) put_content_run [OF that(1)]] by simp
  next
    case u: False
    then obtain v where v: "?u = cr # v"
      using hd_dropWhile [of "\<lambda>c. c \<noteq> cr" x] by (cases ?u) auto
    have "\<not> starts_with [cr] (e @ ?u)" using that by (cases e) (auto simp: content_run_def)
    with that v have "form_reader_put t (e @ ?u) = (append_content t e, Inr (length e))"
      by (simp add: content_run_def form_reader_put_def put_boundary_content_def
          find_sub_char_append)
    from form_r.feed_takes [OF _ this] that show ?thesis by simp
  qed
  have "cr \<notin> set ?t" by (auto dest: set_takeWhileD)
  with assms have d: "content_run s (d @ ?t)" "content_run (append_content s d) ?t"
    by (simp_all add: content_run_def)
  have "feed form_reader_put s (d @ x) = feed form_reader_put s ((d @ ?t) @ ?u)"
    by (simp add: takeWhile_dropWhile_id)
  also have "\<dots> = feed form_reader_put (append_content s (d @ ?t)) ?u"
    using False by (intro run [OF d(1)]) simp
  also have "\<dots> = feed form_reader_put (append_content s d) (?t @ ?u)"
    using run [OF d(2)] by (cases "?t = []") simp_all
  finally show ?thesis by (simp add: takeWhile_dropWhile_id)
qed simp

interpretation form_s: streaming_reader form_reader_put
proof
  fix s s' d x
  {
    assume "form_reader_put s d = (s', Inl Need_More)"
    then show "s' = s"
      by (auto simp: form_reader_put_def put_defs Let_def
          split: reader_step.splits if_splits option.splits sum.splits)
  next
    fix e
    assume "d \<noteq> []" "form_reader_put s d = (s', Inl e)" "e \<noteq> Need_More"
    moreover from this have "\<not> content_run s d" by (auto dest: put_content_run)
    ultimately show "form_reader_put s (d @ x) = (s', Inl e)"
      by (intro form_reader_put_append) auto
  next
    fix n
    assume d: "d \<noteq> []" and p: "form_reader_put s d = (s', Inr n)"
    show "feed form_reader_put s (d @ x) = feed form_reader_put s' (drop n d @ x)"
    proof (cases "content_run s d")
      case True
      with p put_content_run [OF True] feed_content_run [OF True, of x] show ?thesis by auto
    next
      case False
      then have "form_reader_put s (d @ x) = (s', Inr n)"
        using d p by (intro form_reader_put_append) auto
      from form_r.feed_takes [OF _ this] d p form_reader_put_takes [OF p] show ?thesis by simp
    qed
  }
qed

section \<open>Reading back what the writer wrote\<close>

definition boundary_ok :: "string \<Rightarrow> bool" where
  "boundary_ok b \<longleftrightarrow> b \<noteq> [] \<and> trim b = b \<and> cr \<notin> set b \<and> CHR '';'' \<notin> set b \<and> CHR ''='' \<notin> set b"

definition quotable :: "string \<Rightarrow> bool" where
  "quotable s \<longleftrightarrow> cr \<notin> set s \<and> dquote \<notin> set s \<and> backslash \<notin> set s"

definition field_ok :: "string \<Rightarrow> form_field \<Rightarrow> bool" where
  "field_ok b f \<longleftrightarrow> quotable (field_name f) \<and> quotable (field_filename f) \<and>
     cr \<notin> set (field_content_type f) \<and> trim (field_content_type f) = field_content_type f \<and>
     find_sub (crlf @ ''--'' @ b) (field_content f) = None"

lemma scan_quoted_clean:
  "quotable s \<Longrightarrow> scan_quoted False (s @ dquote # r) = (s, r)"
  by (induction s) (auto simp: quotable_def)

lemma scan_value_clean [simp]: "quotable s \<Longrightarrow> scan_value (dquote # s @ dquote # r) = (s, r)"
  by (simp add: scan_value_def scan_quoted_clean)

lemma isspace_simps [simp]:
  "isspace CHR '' ''" "isspace cr" "isspace lf" "\<not> isspace dquote" "\<not> isspace CHR ''C''"
  "\<not> isspace CHR ''b''" "\<not> isspace CHR ''f''" "\<not> isspace CHR ''n''" "\<not> isspace CHR '';''"
  "\<not> isspace CHR ''m''"
  by (simp_all add: isspace_def)

definition disposition_params :: "form_field \<Rightarrow> string" where
  "disposition_params f =
     '' name='' @ dquote # field_name f @ dquote #
     (if field_filename f \<noteq> [] then ''; filename='' @ dquote # field_filename f @ [dquote] else [])"

definition disposition_line :: "form_field \<Rightarrow> string" where
  "disposition_line f = ''Content-Disposition: form-data;'' @ disposition_params f"

definition type_line :: "form_field \<Rightarrow> string" where
  "type_line f = ''Content-Type: '' @ field_content_type f"

lemma part_header_lines:
  "part_header f = disposition_line f @ crlf @
     (if field_content_type f \<noteq> [] then type_line f @ crlf else []) @ crlf"
  by (simp add: part_header_def disposition_line_def disposition_params_def type_line_def)

lemma parse_disposition_params:
  assumes "quotable (field_name f)" "quotable (field_filename f)"
  shows "parse_content_disposition (disposition_params f) =
           (''name'', field_name f) #
           (if field_filename f \<noteq> [] then [(''filename'', field_filename f)] else [])"
proof -
  have nil: "parse_content_disposition [] = []"
    by (simp add: parse_content_disposition.simps [of "[]"])
  have fname: "parse_content_disposition (''filename='' @ dquote # field_filename f @ [dquote]) =
      [(''filename'', field_filename f)]"
    using assms(2)
    by (subst parse_content_disposition.simps)
       (simp add: Let_def trim_def skip_separator_def nil isspace_def)
  show ?thesis
    using assms(1) fname
    by (subst parse_content_disposition.simps)
       (auto simp: disposition_params_def Let_def trim_def skip_separator_def nil isspace_def)
qed

lemma no_cr_lines:
  assumes "field_ok b f"
  shows "cr \<notin> set (disposition_line f)" "cr \<notin> set (type_line f)"
  using assms
  by (auto simp: disposition_line_def disposition_params_def type_line_def field_ok_def quotable_def)

lemma trim_lines:
  assumes "field_ok b f"
  shows "trim (disposition_line f) = disposition_line f"
    "field_content_type f \<noteq> [] \<Longrightarrow> trim (type_line f) = type_line f"
proof -
  have "disposition_line f \<noteq> []" "hd (disposition_line f) = CHR ''C''"
    "last (disposition_line f) = dquote"
    by (simp_all add: disposition_line_def disposition_params_def)
  then show "trim (disposition_line f) = disposition_line f" by (intro trim_id) simp
  show "trim (type_line f) = type_line f" if "field_content_type f \<noteq> []"
    unfolding type_line_def using that assms by (intro trim_append_id) (simp_all add: field_ok_def)
qed

lemma split_tail_crlf:
  "cr \<notin> set a \<Longrightarrow> split_tail crlf (a @ crlf @ t) = trim a # (if t = [] then [] else split_tail crlf t)"
  by (rule split_tail_hit) (simp_all add: find_sub_skip)

lemma split_part_header:
  assumes "field_ok b f"
  shows "split (part_header f) crlf =
           disposition_line f # (if field_content_type f \<noteq> [] then [type_line f] else []) @ [[]]"
proof -
  have "\<not> starts_with crlf (part_header f)" "part_header f \<noteq> []"
    by (simp_all add: part_header_lines disposition_line_def)
  then have "split (part_header f) crlf = split_tail crlf (part_header f)"
    by (simp add: split_eq_ref split_ref_def)
  moreover have "split_tail crlf crlf = [[]]"
    using split_tail_crlf [of "[]" "[]"] by simp
  ultimately show ?thesis
    using split_tail_crlf [OF no_cr_lines(1) [OF assms]] split_tail_crlf [OF no_cr_lines(2) [OF assms]]
      trim_lines [OF assms]
    by (simp add: part_header_lines)
qed

lemma header_items:
  assumes "field_ok b f"
  shows "split_header_field_value (part_header f) =
           Inr ((''Content-Disposition'', ''form-data;'' @ disposition_params f) #
             (if field_content_type f \<noteq> [] then [(''Content-Type'', field_content_type f)] else []))"
proof -
  have disp: "trim (CHR '' '' # ''form-data;'' @ disposition_params f) = ''form-data;'' @ disposition_params f"
    by (subst trim_Cons_space) (simp_all add: trim_id disposition_params_def)
  have ctype: "trim (CHR '' '' # field_content_type f) = field_content_type f"
    using assms by (simp add: trim_Cons_space field_ok_def)
  have keys: "trim ''Content-Disposition'' = ''Content-Disposition''" "trim ''Content-Type'' = ''Content-Type''"
    by (simp_all add: trim_def isspace_def)
  have "find_sub '':'' (disposition_line f) = Some 19" "find_sub '':'' (type_line f) = Some 12"
    by (simp_all add: disposition_line_def type_line_def)
  moreover have "take 19 (disposition_line f) = ''Content-Disposition''"
    "drop 20 (disposition_line f) = CHR '' '' # ''form-data;'' @ disposition_params f"
    "take 12 (type_line f) = ''Content-Type''" "drop 13 (type_line f) = CHR '' '' # field_content_type f"
    by (simp_all add: disposition_line_def type_line_def)
  moreover have "disposition_line f \<noteq> []" "type_line f \<noteq> []"
    by (simp_all add: disposition_line_def type_line_def)
  ultimately show ?thesis
    using disp ctype keys
    by (simp add: split_header_field_value_def split_part_header [OF assms])
qed

lemma set_part_header:
  assumes "field_ok b f"
  shows "set_header_items empty_field
           ((''Content-Disposition'', ''form-data;'' @ disposition_params f) #
             (if field_content_type f \<noteq> [] then [(''Content-Type'', field_content_type f)] else [])) =
         Inr (f\<lparr>field_content := []\<rparr>)"
proof -
  have q: "quotable (field_name f)" "quotable (field_filename f)"
    using assms by (simp_all add: field_ok_def)
  have t: "trim ''form-data'' = ''form-data''" by (simp add: trim_def isspace_def)
  have "set_disposition empty_field (''form-data;'' @ disposition_params f) =
      Inr (empty_field\<lparr>field_name := field_name f, field_filename := field_filename f\<rparr>)"
    using parse_disposition_params [OF q] t
    by (simp add: set_disposition_def set_disposition_pair_def empty_field_def)
  then show ?thesis by (simp add: empty_field_def)
qed

lemma put_part_header:
  assumes "field_ok b f" "fr_step r = Boundary_Header"
  shows "feed form_reader_put r (part_header f @ t) =
           feed form_reader_put
             (r\<lparr>fr_step := Boundary_Content, fr_field := f\<lparr>field_content := []\<rparr>\<rparr>) t"
proof -
  note [simp] = no_cr_lines [OF assms(1)]
  have "find_sub (crlf @ crlf) (part_header f @ t) = Some (length (part_header f) - 4)"
    by (simp add: part_header_lines find_sub_skip) (simp add: type_line_def find_sub_skip)
  moreover have "length (part_header f) - 4 + 4 = length (part_header f)"
    by (simp add: part_header_def)
  ultimately have "form_reader_put r (part_header f @ t) =
      (r\<lparr>fr_step := Boundary_Content, fr_field := f\<lparr>field_content := []\<rparr>\<rparr>, Inr (length (part_header f)))"
    using assms(2) header_items [OF assms(1)] set_part_header [OF assms(1)]
    by (simp add: form_reader_put_def put_boundary_header_def)
  moreover have "part_header f \<noteq> []" by (simp add: part_header_def)
  ultimately show ?thesis using form_r.feed_takes by fastforce
qed

lemma put_boundary:
  assumes "fr_step r = Boundary_Line"
  shows "feed form_reader_put r (boundary_line (fr_boundary r) @ t) =
           feed form_reader_put (r\<lparr>fr_step := Boundary_Header\<rparr>) t"
proof -
  have "form_reader_put r (boundary_line (fr_boundary r) @ t) =
      (r\<lparr>fr_step := Boundary_Header\<rparr>, Inr (length (boundary_line (fr_boundary r))))"
    using assms
    by (simp add: form_reader_put_def put_boundary_line_def boundary_line_def boundary_line_last_def
        Let_def)
  from form_r.feed_takes [OF _ this] show ?thesis by (simp add: boundary_line_def)
qed

lemma put_last_boundary:
  assumes "fr_step r = Boundary_Line"
  shows "feed form_reader_put r (boundary_line_last (fr_boundary r) @ crlf) =
           (r\<lparr>fr_step := R_Eof\<rparr>, [], None)"
proof -
  let ?l = "boundary_line_last (fr_boundary r)"
  have "form_reader_put r (?l @ crlf) = (r\<lparr>fr_step := Finshed\<rparr>, Inr (length ?l))"
    using assms
    by (simp add: form_reader_put_def put_boundary_line_def boundary_line_def boundary_line_last_def
        Let_def)
  from form_r.feed_takes [OF _ this]
  have "feed form_reader_put r (?l @ crlf) = feed form_reader_put (r\<lparr>fr_step := Finshed\<rparr>) crlf"
    by (simp add: boundary_line_last_def)
  moreover have "form_reader_put (r\<lparr>fr_step := Finshed\<rparr>) crlf = (r\<lparr>fr_step := R_Eof\<rparr>, Inr 2)"
    by (simp add: form_reader_put_def put_finshed_def)
  ultimately show ?thesis by (simp add: feed.simps)
qed

lemma put_content:
  assumes "fr_step r = Boundary_Content" "cr \<notin> set (fr_boundary r)"
    and "find_sub (crlf @ ''--'' @ fr_boundary r) c = None"
  shows "feed form_reader_put r (c @ crlf @ ''--'' @ fr_boundary r @ t) =
           feed form_reader_put (push_field (append_content r c)) (''--'' @ fr_boundary r @ t)"
  using assms
proof (induction "length c" arbitrary: c r rule: less_induct)
  case less
  let ?e = "crlf @ ''--'' @ fr_boundary r"
  show ?case
  proof (cases c)
    case Nil
    have "form_reader_put r (?e @ t) = (push_field r, Inr 2)"
      using less.prems(1) by (simp add: form_reader_put_def put_boundary_content_def)
    from form_r.feed_takes [OF _ this] Nil show ?thesis by simp
  next
    case (Cons x c')
    show ?thesis
    proof (cases "x = cr")
      case True
      have "find_sub ?e (c @ ?e @ t) = Some (length c)"
        using find_sub_append_hit [of cr "[lf] @ ''--'' @ fr_boundary r" c t] less.prems(2,3) by simp
      then have "\<not> starts_with ?e (c @ ?e @ t)"
        using Cons by (auto split: if_splits)
      then have "form_reader_put r (c @ ?e @ t) = (append_content r [cr], Inr 1)"
        using less.prems(1) True Cons by (simp add: form_reader_put_def put_boundary_content_def)
      from form_r.feed_takes [OF _ this]
      have "feed form_reader_put r (c @ ?e @ t) =
          feed form_reader_put (append_content r [cr]) (c' @ ?e @ t)"
        using Cons by simp
      also have "\<dots> = feed form_reader_put (push_field (append_content r (cr # c'))) (''--'' @ fr_boundary r @ t)"
        using less.hyps [of c' "append_content r [cr]"] less.prems Cons
        by (simp split: if_splits)
      finally show ?thesis using Cons True by simp
    next
      case False
      let ?d = "takeWhile (\<lambda>y. y \<noteq> cr) c" and ?u = "dropWhile (\<lambda>y. y \<noteq> cr) c"
      have c: "c = ?d @ ?u" by simp
      have run: "content_run r ?d"
        using less.prems(1) by (auto simp: content_run_def dest: set_takeWhileD)
      have "length ?u < length c"
        using False Cons by (simp add: less_Suc_eq_le length_dropWhile_le)
      moreover have "find_sub ?e ?u = None"
        using less.prems(3) c find_sub_suffix_None [of ?e ?d ?u] by simp
      ultimately have "feed form_reader_put (append_content r ?d) (?u @ ?e @ t) =
          feed form_reader_put (push_field (append_content r c)) (''--'' @ fr_boundary r @ t)"
        using less.hyps [of ?u "append_content r ?d"] less.prems(1,2) by simp
      with feed_content_run [OF run, of "?u @ ?e @ t"] show ?thesis
        by (simp flip: append_assoc add: takeWhile_dropWhile_id)
    qed
  qed
qed

lemma put_form_text:
  assumes "\<forall>f\<in>set fs. field_ok (fr_boundary r) f" "cr \<notin> set (fr_boundary r)"
    and "fr_step r = Boundary_Line"
  shows "\<exists>r'. feed form_reader_put r (form_text (fr_boundary r) fs) = (r', [], None) \<and>
           fr_step r' = R_Eof \<and>
           fr_body r' = (fr_body r)\<lparr>fd_fields := fd_fields (fr_body r) @ fs\<rparr>"
  using assms
proof (induction fs arbitrary: r)
  case Nil
  then show ?case by (simp add: put_last_boundary)
next
  case (Cons f fs)
  let ?b = "fr_boundary r"
  let ?r1 = "r\<lparr>fr_step := Boundary_Header\<rparr>"
  let ?r2 = "?r1\<lparr>fr_step := Boundary_Content, fr_field := f\<lparr>field_content := []\<rparr>\<rparr>"
  let ?r3 = "push_field (append_content ?r2 (field_content f))"
  have ok: "field_ok ?b f" "find_sub (crlf @ ''--'' @ ?b) (field_content f) = None"
    using Cons.prems(1) by (simp_all add: field_ok_def)
  obtain t where t: "form_text ?b fs = ''--'' @ ?b @ t"
    by (cases fs) (auto simp: boundary_line_def boundary_line_last_def)
  have "feed form_reader_put r (form_text ?b (f # fs)) =
      feed form_reader_put ?r2 (field_content f @ crlf @ form_text ?b fs)"
    using put_boundary [OF Cons.prems(3)] put_part_header [OF ok(1), of ?r1] by simp
  also have "\<dots> = feed form_reader_put ?r3 (form_text ?b fs)"
    using put_content [of ?r2 "field_content f" t] ok(2) Cons.prems(2) t by simp
  finally have "feed form_reader_put r (form_text ?b (f # fs)) =
      feed form_reader_put ?r3 (form_text ?b fs)" .
  moreover have "fr_boundary ?r3 = ?b" "fr_step ?r3 = Boundary_Line"
    "fr_body ?r3 = (fr_body r)\<lparr>fd_fields := fd_fields (fr_body r) @ [f]\<rparr>"
    by (simp_all add: push_field_def append_content_def)
  ultimately show ?case using Cons.IH [of ?r3] Cons.prems by simp
qed

lemma form_reader_init_ok:
  assumes "boundary_ok b"
  shows "form_reader_init (form_reader_new (''multipart/form-data; boundary='' @ b) body) =
           ((form_reader_new (''multipart/form-data; boundary='' @ b) body)\<lparr>fr_boundary := b\<rparr>, None)"
proof -
  from assms obtain b: "b \<noteq> []" "trim b = b" "CHR '';'' \<notin> set b" "CHR ''='' \<notin> set b"
    by (simp add: boundary_ok_def)
  let ?p = "''boundary='' @ b"
  have p: "trim (CHR '' '' # ?p) = ?p" "trim ?p = ?p"
    using trim_append_id [of "''boundary=''" b] b by (simp_all add: trim_Cons_space)
  have t: "trim ''multipart/form-data'' = ''multipart/form-data''" "trim ''boundary'' = ''boundary''"
    by (simp_all add: trim_def isspace_def)
  have "split (''multipart/form-data; boundary='' @ b) '';'' = [''multipart/form-data'', ?p]"
    using split_tail_char [of "CHR '';''" "''multipart/form-data''" "CHR '' '' # ?p"] p t b
    by (simp add: split_eq_ref split_ref_def split_tail_None)
  moreover have "split ?p ''='' = [''boundary'', b]"
    using split_tail_char [of "CHR ''=''" "''boundary''" b] t b
    by (simp add: split_eq_ref split_ref_def split_tail_None)
  ultimately show ?thesis
    using p t b by (simp add: form_reader_init_def boundary_part_def form_reader_new_def Let_def)
qed

section \<open>Properties\<close>

text \<open>
  C5. A form that the writer sends, cut into any segments on the way, is the form that the reader
  builds: names, file names, content types and contents of all fields in order, the reader
  finished and no byte left. Asked of the form: names that need no quoting, trimmed content types,
  and no content that holds the boundary after a line break.
\<close>

theorem form_data_roundtrip:
  assumes "boundary_ok (fd_boundary form)" and "fd_fields form \<noteq> []"
    and "\<forall>f\<in>set (fd_fields form). field_ok (fd_boundary form) f"
    and "3 * length (fd_fields form) < n"
    and "drain form_writer_get n (form_writer_init (form_writer_new form)) = Some (text, e)"
    and "concat segs = text"
  shows "\<exists>r r'. form_reader_init (form_reader_new
             (''multipart/form-data; boundary='' @ fd_boundary form)
             \<lparr>fd_fields = [], fd_boundary = []\<rparr>) = (r, None) \<and>
           feed_segments form_reader_put r [] segs = (r', [], None) \<and>
           form_reader_finish r' = None \<and> fd_fields (fr_body r') = fd_fields form"
proof -
  let ?b = "fd_boundary form"
  let ?r = "(form_reader_new (''multipart/form-data; boundary='' @ ?b)
      \<lparr>fd_fields = [], fd_boundary = []\<rparr>)\<lparr>fr_boundary := ?b\<rparr>"
  have "text = form_text ?b (fd_fields form)"
    using form_writer_text [OF assms(2,4)] assms(5) by simp
  moreover have "\<exists>r'. feed form_reader_put ?r (form_text ?b (fd_fields form)) = (r', [], None) \<and>
      fr_step r' = R_Eof \<and> fd_fields (fr_body r') = fd_fields form"
    using put_form_text [of "fd_fields form" ?r] assms(1,3)
    by (auto simp: form_reader_new_def boundary_ok_def)
  ultimately show ?thesis
    using form_reader_init_ok [OF assms(1)] assms(6)
    by (auto simp: form_s.feed_segments_concat form_reader_finish_def)
qed

theorem form_data_roundtrip_witness:
  "\<exists>r r'. form_reader_init (form_reader_new (''multipart/form-data; boundary=XX'')
       \<lparr>fd_fields = [], fd_boundary = []\<rparr>) = (r, None) \<and>
     feed_segments form_reader_put r []
       [''--X'', ''X'' @ [cr], [lf] @ ''Content-Disposition: form-data; name='' @ [dquote] @ ''a'' @
          [dquote], crlf @ crlf @ ''1'' @ [cr], [cr, lf] @ ''--XX--'' @ crlf] = (r', [], None) \<and>
     form_reader_finish r' = None \<and>
     fd_fields (fr_body r') = [empty_field\<lparr>field_name := ''a'', field_content := ''1'' @ [cr]\<rparr>]"
proof -
  let ?form = "\<lparr>fd_fields = [empty_field\<lparr>field_name := ''a'', field_content := ''1'' @ [cr]\<rparr>],
                fd_boundary = ''XX''\<rparr>"
  let ?segs = "[''--X'', ''X'' @ [cr], [lf] @ ''Content-Disposition: form-data; name='' @ [dquote] @ ''a'' @
      [dquote], crlf @ crlf @ ''1'' @ [cr], [cr, lf] @ ''--XX--'' @ crlf]"
  have d: "drain form_writer_get 4 (form_writer_init (form_writer_new ?form)) =
      Some (''--XX'' @ crlf @ ''Content-Disposition: form-data; name='' @ [dquote] @ ''a'' @ [dquote] @
        crlf @ crlf @ ''1'' @ [cr] @ crlf @ ''--XX--'' @ crlf, None)"
    by code_simp
  have "boundary_ok (fd_boundary ?form)" "fd_fields ?form \<noteq> []"
    "\<forall>f\<in>set (fd_fields ?form). field_ok (fd_boundary ?form) f" "3 * length (fd_fields ?form) < 4"
    by (simp_all add: boundary_ok_def field_ok_def quotable_def empty_field_def trim_def isspace_def)
  from form_data_roundtrip [OF this d, of ?segs] show ?thesis by simp
qed

end
