(* ===== verification/File_Body.thy ===== *)
theory File_Body
  imports Body_Interface Http_Ranges
begin

text \<open>
  \<open>file_body\<close> (\<open>include/httplib/body/file_body.hpp\<close>, \<open>lib/body/file_body.cpp\<close>):
  the open file as the \<open>std::fstream\<close> state the code touches (position, end-of-file bit, fail
  bit), and the writer with its three modes: the whole file, one range, several ranges as
  \<open>multipart/byteranges\<close>. \<open>seekg\<close> of the value type seeks relative to the current position
  (its default direction is \<open>std::ios::cur\<close>), and the writer's own \<open>file_size_\<close> is never
  initialised: its value is a parameter of the constructor. \<open>B\<close> is the size of the buffer.
\<close>

section \<open>The file stream\<close>

record file_stream =
  fs_data :: string
  fs_pos :: nat
  fs_eof :: bool
  fs_fail :: bool

text \<open>
  \<open>seekg(off, cur)\<close>: the end-of-file bit is cleared, a failed stream stays where it is, and
  a negative position fails.
\<close>

definition file_seekg :: "file_stream \<Rightarrow> int \<Rightarrow> file_stream" where
  "file_seekg f off =
     (let f' = f\<lparr>fs_eof := False\<rparr>
      in if fs_fail f then f'
         else if int (fs_pos f) + off < 0 then f'\<lparr>fs_fail := True\<rparr>
         else f'\<lparr>fs_pos := nat (int (fs_pos f) + off)\<rparr>)"

text \<open>
  \<open>read\<close> with \<open>gcount\<close>: a stream that is not good only gets its fail bit set; reaching the
  end of the file sets both bits.
\<close>

definition file_read :: "file_stream \<Rightarrow> nat \<Rightarrow> string \<times> file_stream" where
  "file_read f n =
     (if fs_eof f \<or> fs_fail f then ([], f\<lparr>fs_fail := True\<rparr>)
      else
        let bs = take n (drop (fs_pos f) (fs_data f));
            f' = f\<lparr>fs_pos := fs_pos f + length bs\<rparr>
        in (bs, if length bs < n then f'\<lparr>fs_eof := True, fs_fail := True\<rparr> else f'))"

record file_value =
  fv_ranges :: http_ranges
  fv_content_type :: string
  fv_boundary :: string
  fv_file :: file_stream
  fv_file_size :: nat

definition file_open :: "string \<Rightarrow> file_value" where
  "file_open data =
     \<lparr>fv_ranges = [], fv_content_type = [], fv_boundary = [],
      fv_file = \<lparr>fs_data = data, fs_pos = 0, fs_eof = False, fs_fail = False\<rparr>,
      fv_file_size = length data\<rparr>"

section \<open>The reader\<close>

text \<open>
  It does nothing: \<open>init\<close> leaves even the error code as it was. Its \<open>put\<close> is declared
  and never defined, so no message with this body can be read; the variant body never does.
\<close>

definition file_reader_init :: "nat option \<Rightarrow> body_error option \<Rightarrow> body_error option" where
  "file_reader_init content_length ec = ec"

definition file_reader_finish :: "body_error option \<Rightarrow> body_error option" where
  "file_reader_finish ec = None"

section \<open>The writer\<close>

datatype file_step = F_Header | F_Content | F_Content_End | F_Eof

record file_writer =
  fbw_body :: file_value
  fbw_range_index :: "nat option"
  fbw_pos :: "int option"
  fbw_step :: file_step
  fbw_file_size :: nat

definition file_writer_new :: "nat \<Rightarrow> file_value \<Rightarrow> file_writer" where
  "file_writer_new junk b =
     \<lparr>fbw_body = b, fbw_range_index = None, fbw_pos = None, fbw_step = F_Header,
      fbw_file_size = junk\<rparr>"

text \<open>\<open>if (!pos\_) \{ pos\_ = range.first; seekg(*pos\_); \}\<close>, with \<open>pos\_\<close> unsigned.\<close>

definition file_seek_start :: "file_writer \<Rightarrow> int \<Rightarrow> file_writer \<times> int" where
  "file_seek_start w first =
     (case fbw_pos w of
        Some p \<Rightarrow> (w, p)
      | None \<Rightarrow>
          let p = to_unsigned 64 first;
              b = fbw_body w
          in (w\<lparr>fbw_pos := Some p,
                fbw_body := b\<lparr>fv_file := file_seekg (fv_file b) (to_signed 64 p)\<rparr>\<rparr>, p))"

definition file_read_chunk :: "file_writer \<Rightarrow> int \<Rightarrow> nat \<Rightarrow> file_writer \<times> string" where
  "file_read_chunk w p n =
     (let b = fbw_body w;
          (bs, f) = file_read (fv_file b) n
      in (w\<lparr>fbw_body := b\<lparr>fv_file := f\<rparr>,
            fbw_pos := Some (if bs = [] then p else to_unsigned 64 (p + int (length bs)))\<rparr>, bs))"

definition file_single_get :: "nat \<Rightarrow> file_writer writer_get" where
  "file_single_get B w =
     (let (first, second) =
            (case fv_ranges (fbw_body w) of
               [] \<Rightarrow> (0, to_signed 64 (int (fv_file_size (fbw_body w))))
             | (a, b) # _ \<Rightarrow> (a, to_signed 64 (b + 1)));
          (w1, p) = file_seek_start w first;
          n = min B (nat (to_unsigned 64 (second - p)))
      in if n = 0 then (w1, Get_None)
         else
           let (w2, bs) = file_read_chunk w1 p n
           in if bs = [] then (w2, Get_Error Short_Read)
              else (w2, Get_Chunk bs
                (to_unsigned 64 (p + int (length bs)) < to_unsigned 64 second)))"

definition file_part_header :: "file_writer \<Rightarrow> byte_range \<Rightarrow> string" where
  "file_part_header w r =
     ''--'' @ fv_boundary (fbw_body w) @ crlf @
     ''Content-Type: '' @ fv_content_type (fbw_body w) @ crlf @
     ''Content-Range: bytes '' @ dec_int (fst r) @ ''-'' @ dec_int (snd r) @ ''/'' @
       dec_nat (fbw_file_size w) @ crlf @
     crlf"

definition file_part_end :: "file_writer \<Rightarrow> nat \<Rightarrow> file_writer \<times> get_result" where
  "file_part_end w i =
     (if i = length (fv_ranges (fbw_body w)) - 1
      then (w\<lparr>fbw_step := F_Eof\<rparr>,
            Get_Chunk (crlf @ ''--'' @ fv_boundary (fbw_body w) @ ''--'' @ crlf) False)
      else (w\<lparr>fbw_step := F_Header, fbw_range_index := Some (i + 1)\<rparr>, Get_Chunk crlf True))"

text \<open>
  The content step of a part. The recursive call at its end runs with the step \<open>content\_end\<close>
  and an index that was just checked, so it is the branch of that step.
\<close>

definition file_content_get :: "nat \<Rightarrow> file_writer \<Rightarrow> nat \<Rightarrow> file_writer \<times> get_result" where
  "file_content_get B w i =
     (let r = fv_ranges (fbw_body w) ! i;
          (w1, p) = file_seek_start w (fst r);
          n = min B (nat (to_unsigned 64 (snd r - p)))
      in if n = 0 then file_part_end (w1\<lparr>fbw_step := F_Content_End\<rparr>) i
         else
           let (w2, bs) = file_read_chunk w1 p n
           in if bs = [] then (w2, Get_Error Short_Read) else (w2, Get_Chunk bs True))"

definition file_multi_get :: "nat \<Rightarrow> file_writer writer_get" where
  "file_multi_get B w0 =
     (let w = (case fbw_range_index w0 of
                 None \<Rightarrow> w0\<lparr>fbw_range_index := Some 0, fbw_step := F_Header\<rparr>
               | Some _ \<Rightarrow> w0);
          i = the (fbw_range_index w)
      in if length (fv_ranges (fbw_body w)) \<le> i then (w, Get_None)
         else
           (case fbw_step w of
                 F_Header \<Rightarrow>
                   (w\<lparr>fbw_step := F_Content, fbw_pos := None\<rparr>,
                    Get_Chunk (file_part_header w (fv_ranges (fbw_body w) ! i)) True)
               | F_Content \<Rightarrow> file_content_get B w i
               | F_Content_End \<Rightarrow> file_part_end w i
               | F_Eof \<Rightarrow> (w, Get_None)))"

definition file_writer_get :: "nat \<Rightarrow> file_writer writer_get" where
  "file_writer_get B w =
     (if length (fv_ranges (fbw_body w)) \<le> 1 then file_single_get B w else file_multi_get B w)"

section \<open>Reading within the file\<close>

definition stream_ok :: "file_stream \<Rightarrow> bool" where
  "stream_ok f \<longleftrightarrow> \<not> fs_eof f \<and> \<not> fs_fail f"

lemma file_read_inside:
  "stream_ok f \<Longrightarrow> fs_pos f + n \<le> length (fs_data f) \<Longrightarrow>
   file_read f n = (take n (drop (fs_pos f) (fs_data f)), f\<lparr>fs_pos := fs_pos f + n\<rparr>)"
  by (simp add: file_read_def stream_ok_def Let_def)

lemma file_seekg_forward:
  "stream_ok f \<Longrightarrow> file_seekg f (int k) = f\<lparr>fs_pos := fs_pos f + k\<rparr>"
  by (simp add: file_seekg_def stream_ok_def Let_def nat_add_distrib nat_int_add)

lemma to_unsigned_nat: "int n < 2 ^ 63 \<Longrightarrow> to_unsigned 64 (int n) = int n"
  by (simp add: to_unsigned_def)

lemma to_signed_nat: "int n < 2 ^ 63 \<Longrightarrow> to_signed 64 (int n) = int n"
  by (rule to_signed_id) auto

section \<open>The contract: the whole file or one range\<close>

definition single_bounds :: "file_value \<Rightarrow> nat \<times> nat" where
  "single_bounds b =
     (case fv_ranges b of
        [] \<Rightarrow> (0, length (fs_data (fv_file b)))
      | (x, y) # _ \<Rightarrow> (nat x, nat (y + 1)))"

definition file_ok :: "file_value \<Rightarrow> bool" where
  "file_ok b \<longleftrightarrow> stream_ok (fv_file b) \<and> fv_file_size b = length (fs_data (fv_file b)) \<and>
     int (fv_file_size b) < 2 ^ 63 \<and>
     (\<forall>(x, y)\<in>set (fv_ranges b). 0 \<le> x \<and> x \<le> y + 1 \<and> y < int (fv_file_size b))"

definition file_at :: "file_writer \<Rightarrow> nat \<Rightarrow> nat" where
  "file_at w first = (case fbw_pos w of None \<Rightarrow> first | Some _ \<Rightarrow> fs_pos (fv_file (fbw_body w)))"

definition file_single_inv :: "nat \<Rightarrow> file_writer \<Rightarrow> bool" where
  "file_single_inv B w \<longleftrightarrow>
     (let b = fbw_body w; (first, lim) = single_bounds b
      in 0 < B \<and> file_ok b \<and> length (fv_ranges b) \<le> 1 \<and>
         (case fbw_pos w of
            None \<Rightarrow> fs_pos (fv_file b) = 0
          | Some p \<Rightarrow> p = int (fs_pos (fv_file b)) \<and> fs_pos (fv_file b) \<le> lim))"

definition file_single_rest :: "file_writer \<Rightarrow> string" where
  "file_single_rest w =
     (let (first, lim) = single_bounds (fbw_body w); c = file_at w first
      in take (lim - c) (drop c (fs_data (fv_file (fbw_body w)))))"

definition file_single_work :: "file_writer \<Rightarrow> nat" where
  "file_single_work w =
     (let (first, lim) = single_bounds (fbw_body w) in lim - file_at w first)"

lemma single_bounds_ok:
  assumes "file_ok b" "length (fv_ranges b) \<le> 1" "single_bounds b = (first, lim)"
  shows "first \<le> lim" "lim \<le> length (fs_data (fv_file b))"
    "(case fv_ranges b of
        [] \<Rightarrow> (0, to_signed 64 (int (fv_file_size b)))
      | (a, b) # _ \<Rightarrow> (a, to_signed 64 (b + 1))) = (int first, int lim)"
proof -
  have "first \<le> lim \<and> lim \<le> length (fs_data (fv_file b)) \<and>
    (case fv_ranges b of
        [] \<Rightarrow> (0, to_signed 64 (int (fv_file_size b)))
      | (a, b) # _ \<Rightarrow> (a, to_signed 64 (b + 1))) = (int first, int lim)"
  proof (cases "fv_ranges b")
    case Nil
    with assms to_signed_nat [of "fv_file_size b"] show ?thesis
      by (auto simp: single_bounds_def file_ok_def)
  next
    case (Cons r rs)
    obtain x y where r: "r = (x, y)" by (cases r)
    with Cons assms have xy: "0 \<le> x" "x \<le> y + 1" "y < int (fv_file_size b)"
      "int (fv_file_size b) < 2 ^ 63" "fv_file_size b = length (fs_data (fv_file b))"
      by (auto simp: file_ok_def)
    then have "to_signed 64 (y + 1) = y + 1" by (intro to_signed_id) simp_all
    with xy Cons r assms(3) show ?thesis by (auto simp: single_bounds_def)
  qed
  then show "first \<le> lim" "lim \<le> length (fs_data (fv_file b))"
    "(case fv_ranges b of
        [] \<Rightarrow> (0, to_signed 64 (int (fv_file_size b)))
      | (a, b) # _ \<Rightarrow> (a, to_signed 64 (b + 1))) = (int first, int lim)"
    by blast+
qed

text \<open>One step of the content loops, at a position \<open>c\<close> inside the file with \<open>n\<close> bytes to read.\<close>

lemma seek_start_at:
  assumes "stream_ok (fv_file (fbw_body w))" "int (fs_pos (fv_file (fbw_body w)) + first) < 2 ^ 63"
    and "case fbw_pos w of None \<Rightarrow> p = int first | Some q \<Rightarrow> p = q"
  shows "file_seek_start w (int first) =
           (w\<lparr>fbw_pos := Some p,
              fbw_body := (fbw_body w)\<lparr>fv_file := (fv_file (fbw_body w))\<lparr>fs_pos :=
                fs_pos (fv_file (fbw_body w)) + (if fbw_pos w = None then first else 0)\<rparr>\<rparr>\<rparr>, p)"
proof (cases "fbw_pos w")
  case None
  with assms show ?thesis
    by (simp add: file_seek_start_def to_unsigned_nat to_signed_nat file_seekg_forward Let_def)
next
  case (Some q)
  with assms(3) show ?thesis by (simp add: file_seek_start_def)
qed

lemma read_chunk_inside:
  assumes "stream_ok (fv_file (fbw_body w))" "0 < n"
    and "fs_pos (fv_file (fbw_body w)) + n \<le> length (fs_data (fv_file (fbw_body w)))"
    and "int q + int n < 2 ^ 63"
  shows "file_read_chunk w (int q) n =
           (w\<lparr>fbw_body := (fbw_body w)\<lparr>fv_file := (fv_file (fbw_body w))\<lparr>fs_pos :=
                fs_pos (fv_file (fbw_body w)) + n\<rparr>\<rparr>, fbw_pos := Some (int (q + n))\<rparr>,
            take n (drop (fs_pos (fv_file (fbw_body w))) (fs_data (fv_file (fbw_body w)))))"
  using assms to_unsigned_nat [of "q + n"]
  by (auto simp: file_read_chunk_def file_read_inside Let_def)

lemma file_single_get_step:
  assumes inv: "file_single_inv B w" and bnd: "single_bounds (fbw_body w) = (first, lim)"
  defines "c \<equiv> file_at w first"
  shows "c \<le> lim \<and>
    (if c = lim then \<exists>w'. file_single_get B w = (w', Get_None)
     else \<exists>w' n. file_single_get B w =
              (w', Get_Chunk (take n (drop c (fs_data (fv_file (fbw_body w))))) (c + n < lim)) \<and>
            0 < n \<and> c + n \<le> lim \<and> fbw_pos w' = Some (int (c + n)) \<and>
            fbw_body w' = (fbw_body w)\<lparr>fv_file := (fv_file (fbw_body w))\<lparr>fs_pos := c + n\<rparr>\<rparr>)"
proof -
  let ?b = "fbw_body w"
  let ?f = "fv_file ?b"
  from inv bnd have B: "0 < B" and ok: "file_ok ?b" and l1: "length (fv_ranges ?b) \<le> 1"
    and pos: "case fbw_pos w of None \<Rightarrow> fs_pos ?f = 0
              | Some p \<Rightarrow> p = int (fs_pos ?f) \<and> fs_pos ?f \<le> lim"
    by (simp_all add: file_single_inv_def Let_def)
  note bounds = single_bounds_ok [OF ok l1 bnd]
  from ok have so: "stream_ok ?f" and sz: "int (length (fs_data ?f)) < 2 ^ 63"
    by (simp_all add: file_ok_def)
  have c: "c \<le> lim" "fs_pos ?f + (if fbw_pos w = None then first else 0) = c"
    using pos bounds(1) by (auto simp: c_def file_at_def split: option.splits)
  have "fs_pos ?f + first \<le> lim + first" using pos bounds(1) by (auto split: option.splits)
  have seek: "file_seek_start w (int first) =
      (w\<lparr>fbw_pos := Some (int c), fbw_body := ?b\<lparr>fv_file := ?f\<lparr>fs_pos := c\<rparr>\<rparr>\<rparr>, int c)"
  proof (cases "fbw_pos w")
    case None
    then have "int (fs_pos ?f + first) < 2 ^ 63" using pos bounds(1,2) sz by simp
    from seek_start_at [OF so this, of "int c"] None c(2) pos show ?thesis by simp
  next
    case (Some p)
    with pos c(2) show ?thesis by (simp add: file_seek_start_def)
  qed
  define n where "n = min B (lim - c)"
  have n: "min B (nat (to_unsigned 64 (int lim - int c))) = n"
    using c(1) bounds(2) sz to_unsigned_nat [of "lim - c"] by (simp add: n_def of_nat_diff)
  show ?thesis
  proof (cases "c = lim")
    case True
    then have "file_single_get B w =
        (w\<lparr>fbw_pos := Some (int c), fbw_body := ?b\<lparr>fv_file := ?f\<lparr>fs_pos := c\<rparr>\<rparr>\<rparr>, Get_None)"
      using bounds(3) seek n by (simp add: file_single_get_def n_def)
    with True show ?thesis by auto
  next
    case False
    then have n0: "0 < n" "c + n \<le> lim" using B c(1) by (auto simp: n_def)
    then have cn: "int c + int n < 2 ^ 63" using bounds(2) sz by linarith
    let ?w1 = "w\<lparr>fbw_pos := Some (int c), fbw_body := ?b\<lparr>fv_file := ?f\<lparr>fs_pos := c\<rparr>\<rparr>\<rparr>"
    have len: "length (take n (drop c (fs_data ?f))) = n" using n0 bounds(2) by simp
    then have ne: "take n (drop c (fs_data ?f)) \<noteq> []" using n0 by auto
    have rd: "file_read_chunk ?w1 (int c) n =
        (?w1\<lparr>fbw_body := ?b\<lparr>fv_file := ?f\<lparr>fs_pos := c + n\<rparr>\<rparr>, fbw_pos := Some (int (c + n))\<rparr>,
         take n (drop c (fs_data ?f)))"
      using read_chunk_inside [of ?w1 n c] so n0 bounds(2) cn by (simp add: stream_ok_def)
    have cmp: "to_unsigned 64 (int c + int n) = int (c + n)" "to_unsigned 64 (int lim) = int lim"
      using to_unsigned_nat [of "c + n"] to_unsigned_nat [of lim] cn bounds(2) sz by auto
    have lt: "int c + int n < int lim \<longleftrightarrow> c + n < lim" by linarith
    have "file_single_get B w =
        (?w1\<lparr>fbw_body := ?b\<lparr>fv_file := ?f\<lparr>fs_pos := c + n\<rparr>\<rparr>, fbw_pos := Some (int (c + n))\<rparr>,
         Get_Chunk (take n (drop c (fs_data ?f))) (c + n < lim))"
      using bounds(3) seek n n0 rd ne len cmp lt by (simp add: file_single_get_def)
    with n0 c(1) False show ?thesis by auto
  qed
qed

text \<open>The step restated for a state of the invariant and its result.\<close>

lemma file_writer_get_single:
  assumes inv: "file_single_inv B w" and g: "file_writer_get B w = (w', r)"
  obtains (exhausted) "r = Get_None" "file_single_rest w = []"
    | (chunk) bs m where "r = Get_Chunk bs m" "bs \<noteq> []" "file_single_rest w = bs @ file_single_rest w'"
        "m \<longleftrightarrow> file_single_rest w' \<noteq> []" "file_single_inv B w'" "file_single_work w' < file_single_work w"
proof -
  obtain first lim where bnd: "single_bounds (fbw_body w) = (first, lim)" by fastforce
  define c where "c = file_at w first"
  let ?d = "fs_data (fv_file (fbw_body w))"
  have ok: "file_ok (fbw_body w)" "length (fv_ranges (fbw_body w)) \<le> 1" "0 < B"
    using inv bnd by (simp_all add: file_single_inv_def Let_def)
  note lim = single_bounds_ok(2) [OF ok(1,2) bnd]
  note st = file_single_get_step [OF inv bnd, folded c_def]
  have rest: "file_single_rest w = take (lim - c) (drop c ?d)"
    using bnd by (simp add: file_single_rest_def c_def Let_def)
  have eq: "file_single_get B w = (w', r)" using g ok(2) by (simp add: file_writer_get_def)
  show ?thesis
  proof (cases "c = lim")
    case True
    with st eq rest exhausted show ?thesis by auto
  next
    case False
    then have "\<exists>w' n. file_single_get B w = (w', Get_Chunk (take n (drop c ?d)) (c + n < lim)) \<and>
        0 < n \<and> c + n \<le> lim \<and> fbw_pos w' = Some (int (c + n)) \<and>
        fbw_body w' = (fbw_body w)\<lparr>fv_file := (fv_file (fbw_body w))\<lparr>fs_pos := c + n\<rparr>\<rparr>"
      using st by simp
    with eq obtain n where n: "r = Get_Chunk (take n (drop c ?d)) (c + n < lim)" "0 < n"
      "c + n \<le> lim" "fbw_pos w' = Some (int (c + n))"
      "fbw_body w' = (fbw_body w)\<lparr>fv_file := (fv_file (fbw_body w))\<lparr>fs_pos := c + n\<rparr>\<rparr>"
      by auto
    have bnd': "single_bounds (fbw_body w') = (first, lim)"
      using bnd n(5) by (auto simp: single_bounds_def split: list.splits)
    have rest': "file_single_rest w' = take (lim - (c + n)) (drop (c + n) ?d)"
      using bnd' n(4,5) by (simp add: file_single_rest_def file_at_def Let_def)
    have "take (lim - c) (drop c ?d) = take n (drop c ?d) @ take (lim - (c + n)) (drop (c + n) ?d)"
      using take_add [of n "lim - (c + n)" "drop c ?d"] n(3) by (simp add: add.commute)
    moreover have "c + n < lim \<longleftrightarrow> file_single_rest w' \<noteq> []"
      using rest' lim by auto
    moreover have "file_ok (fbw_body w')"
      using n(5) ok(1) by (simp add: file_ok_def stream_ok_def) auto
    then have "file_single_inv B w'"
      using bnd' n(3-5) ok by (simp add: file_single_inv_def)
    moreover have "file_single_work w = lim - c" using bnd by (simp add: file_single_work_def c_def)
    moreover have "file_single_work w' = lim - (c + n)"
      using bnd' n(4,5) by (simp add: file_single_work_def file_at_def)
    moreover have "lim - (c + n) < lim - c" using n(2,3) by linarith
    moreover have "take n (drop c ?d) \<noteq> []" using n(2,3) lim by auto
    ultimately show ?thesis using chunk [OF n(1)] rest rest' by simp
  qed
qed

interpretation file_w:
  body_writer "file_writer_get B" "file_single_inv B" file_single_rest file_single_work
proof
  fix s s' bs e
  assume inv: "file_single_inv B s"
  show "file_writer_get B s = (s', Get_None) \<Longrightarrow> file_single_rest s = []"
    by (erule file_writer_get_single [OF inv]) auto
  show "file_writer_get B s = (s', Get_Chunk bs False) \<Longrightarrow> file_single_rest s = bs"
    by (erule file_writer_get_single [OF inv]) auto
  show "file_writer_get B s = (s', Get_Chunk bs True) \<Longrightarrow>
      file_single_rest s = bs @ file_single_rest s' \<and> file_single_inv B s' \<and>
      file_single_work s' < file_single_work s"
    by (erule file_writer_get_single [OF inv]) auto
  show "file_writer_get B s \<noteq> (s', Get_Error e)"
    by (rule notI, erule file_writer_get_single [OF inv]) auto
qed

section \<open>The contract: several ranges\<close>

text \<open>
  What is sent for several ranges when the stream stands at \<open>p\<close>: because the seek of each part is
  relative, a part is read from \<open>p\<close> plus its first position, and because its last position is
  used as an exclusive bound, its length is one less than the range asks for.
\<close>

fun multi_text :: "(byte_range \<Rightarrow> string) \<Rightarrow> string \<Rightarrow> string \<Rightarrow> nat \<Rightarrow> http_ranges \<Rightarrow> string" where
  "multi_text hdr bnd data p [] = ''--'' @ bnd @ ''--'' @ crlf"
| "multi_text hdr bnd data p (r # rs) =
     hdr r @ take (nat (snd r) - nat (fst r)) (drop (p + nat (fst r)) data) @ crlf @
     multi_text hdr bnd data (p + nat (snd r)) rs"

fun multi_ok :: "nat \<Rightarrow> nat \<Rightarrow> http_ranges \<Rightarrow> bool" where
  "multi_ok sz p [] \<longleftrightarrow> True"
| "multi_ok sz p (r # rs) \<longleftrightarrow>
     0 \<le> fst r \<and> fst r \<le> snd r \<and> p + nat (snd r) \<le> sz \<and> multi_ok sz (p + nat (snd r)) rs"

text \<open>Where the content of the current part goes on, and how much of it is left.\<close>

definition part_left :: "file_writer \<Rightarrow> byte_range \<Rightarrow> nat \<times> nat" where
  "part_left w r =
     (let p = fs_pos (fv_file (fbw_body w))
      in case fbw_pos w of
           None \<Rightarrow> (p + nat (fst r), nat (snd r) - nat (fst r))
         | Some q \<Rightarrow> (p, nat (snd r) - nat q))"

definition file_multi_rest :: "file_writer \<Rightarrow> string" where
  "file_multi_rest w =
     (let b = fbw_body w; data = fs_data (fv_file b); p = fs_pos (fv_file b);
          text = multi_text (file_part_header w) (fv_boundary b) data
      in case fbw_range_index w of
           None \<Rightarrow> text p (fv_ranges b)
         | Some i \<Rightarrow>
             (case fbw_step w of
                F_Header \<Rightarrow> text p (drop i (fv_ranges b))
              | F_Content \<Rightarrow>
                  let (c, n) = part_left w (fv_ranges b ! i)
                  in take n (drop c data) @ crlf @ text (c + n) (drop (Suc i) (fv_ranges b))
              | F_Content_End \<Rightarrow> crlf @ text p (drop (Suc i) (fv_ranges b))
              | F_Eof \<Rightarrow> []))"

definition file_multi_inv :: "nat \<Rightarrow> file_writer \<Rightarrow> bool" where
  "file_multi_inv B w \<longleftrightarrow>
     (let b = fbw_body w; sz = length (fs_data (fv_file b)); p = fs_pos (fv_file b)
      in 0 < B \<and> stream_ok (fv_file b) \<and> int sz < 2 ^ 62 \<and> 1 < length (fv_ranges b) \<and>
         (case fbw_range_index w of
            None \<Rightarrow> multi_ok sz p (fv_ranges b)
          | Some i \<Rightarrow>
              i < length (fv_ranges b) \<and>
              (case fbw_step w of
                 F_Header \<Rightarrow> multi_ok sz p (drop i (fv_ranges b))
               | F_Content \<Rightarrow>
                   (let r = fv_ranges b ! i; (c, n) = part_left w r
                    in 0 \<le> fst r \<and> fst r \<le> snd r \<and> snd r \<le> int sz \<and> c + n \<le> sz \<and>
                       (case fbw_pos w of None \<Rightarrow> True | Some q \<Rightarrow> 0 \<le> q \<and> q \<le> snd r) \<and>
                       multi_ok sz (c + n) (drop (Suc i) (fv_ranges b)))
               | F_Content_End \<Rightarrow> multi_ok sz p (drop (Suc i) (fv_ranges b))
               | F_Eof \<Rightarrow> False)))"

definition file_multi_work :: "file_writer \<Rightarrow> nat" where
  "file_multi_work w =
     (let b = fbw_body w; unit = length (fs_data (fv_file b)) + 4
      in case fbw_range_index w of
           None \<Rightarrow> length (fv_ranges b) * unit
         | Some i \<Rightarrow>
             (case fbw_step w of
                F_Header \<Rightarrow> (length (fv_ranges b) - i) * unit
              | F_Content \<Rightarrow> (length (fv_ranges b) - Suc i) * unit + 2 + snd (part_left w (fv_ranges b ! i))
              | F_Content_End \<Rightarrow> (length (fv_ranges b) - Suc i) * unit + 1
              | F_Eof \<Rightarrow> 0))"

lemma multi_content_step:
  assumes inv: "file_multi_inv B w" and i: "fbw_range_index w = Some i" "fbw_step w = F_Content"
    and left: "part_left w (fv_ranges (fbw_body w) ! i) = (c, k)"
  defines "b \<equiv> fbw_body w"
  shows "\<exists>q n. n = min B k \<and> nat (snd (fv_ranges b ! i)) - nat q = k \<and> 0 \<le> q \<and>
      q \<le> snd (fv_ranges b ! i) \<and>
      file_content_get B w i =
        (if k = 0
         then file_part_end (w\<lparr>fbw_pos := Some q, fbw_body := b\<lparr>fv_file := (fv_file b)\<lparr>fs_pos := c\<rparr>\<rparr>,
                fbw_step := F_Content_End\<rparr>) i
         else (w\<lparr>fbw_pos := Some (q + int n), fbw_body := b\<lparr>fv_file := (fv_file b)\<lparr>fs_pos := c + n\<rparr>\<rparr>\<rparr>,
               Get_Chunk (take n (drop c (fs_data (fv_file b)))) True))"
proof -
  let ?r = "fv_ranges b ! i"
  let ?f = "fv_file b"
  from inv i left have B: "0 < B" and so: "stream_ok ?f" and sz: "int (length (fs_data ?f)) < 2 ^ 62"
    and r: "0 \<le> fst ?r" "fst ?r \<le> snd ?r" "snd ?r \<le> int (length (fs_data ?f))"
    and ck: "c + k \<le> length (fs_data ?f)"
    and q: "case fbw_pos w of None \<Rightarrow> True | Some q \<Rightarrow> 0 \<le> q \<and> q \<le> snd ?r"
    unfolding b_def by (simp_all add: file_multi_inv_def Let_def)
  define q0 where "q0 = (case fbw_pos w of None \<Rightarrow> fst ?r | Some q \<Rightarrow> q)"
  have q0: "0 \<le> q0" "q0 \<le> snd ?r" "nat (snd ?r) - nat q0 = k" "snd ?r - q0 = int k"
    using q r left by (auto simp: q0_def part_left_def Let_def b_def split: option.splits)
  let ?w1 = "w\<lparr>fbw_pos := Some q0, fbw_body := b\<lparr>fv_file := ?f\<lparr>fs_pos := c\<rparr>\<rparr>\<rparr>"
  have seek: "file_seek_start w (fst ?r) = (?w1, q0)"
  proof (cases "fbw_pos w")
    case None
    then have c: "c = fs_pos ?f + nat (fst ?r)"
      using left by (simp add: part_left_def b_def Let_def)
    have "int (fs_pos ?f + nat (fst ?r)) < 2 ^ 63"
      unfolding c [symmetric] using ck sz by simp
    from seek_start_at [of w, folded b_def, OF so this, of "fst ?r"] None c r(1)
    show ?thesis by (simp add: q0_def)
  next
    case (Some p)
    with left show ?thesis
      by (simp add: file_seek_start_def q0_def part_left_def Let_def b_def)
  qed
  define n where "n = min B k"
  have n: "min B (nat (to_unsigned 64 (snd ?r - q0))) = n"
    using q0(4) ck sz to_unsigned_nat [of k] by (simp add: n_def)
  show ?thesis
  proof (cases "k = 0")
    case True
    then show ?thesis using seek n q0 by (intro exI [of _ q0] exI [of _ n])
        (simp add: file_content_get_def n_def b_def)
  next
    case False
    then have n0: "0 < n" "c + n \<le> length (fs_data ?f)" "n \<le> k" using B ck by (auto simp: n_def)
    have "int (nat q0) + int n < 2 ^ 63" using q0(1,2) r(3) n0 sz by simp
    with n0 so q0(1) have rd: "file_read_chunk ?w1 q0 n =
        (?w1\<lparr>fbw_body := b\<lparr>fv_file := ?f\<lparr>fs_pos := c + n\<rparr>\<rparr>, fbw_pos := Some (q0 + int n)\<rparr>,
         take n (drop c (fs_data ?f)))"
      using read_chunk_inside [of ?w1 n "nat q0"] by (simp add: stream_ok_def)
    have "take n (drop c (fs_data ?f)) \<noteq> []" using n0 by auto
    with n0 seek n rd have "file_content_get B w i =
        (?w1\<lparr>fbw_body := b\<lparr>fv_file := ?f\<lparr>fs_pos := c + n\<rparr>\<rparr>, fbw_pos := Some (q0 + int n)\<rparr>,
         Get_Chunk (take n (drop c (fs_data ?f))) True)"
      unfolding file_content_get_def b_def [symmetric] by (simp add: Let_def)
    with False q0 n_def show ?thesis by (intro exI [of _ q0] exI [of _ n]) simp
  qed
qed

lemma file_multi_get_content:
  "fbw_range_index w = Some i \<Longrightarrow> fbw_step w = F_Content \<Longrightarrow> i < length (fv_ranges (fbw_body w)) \<Longrightarrow>
   file_multi_get B w = file_content_get B w i"
  by (simp add: file_multi_get_def)

text \<open>The result of one call, in terms of the text that is left.\<close>

definition multi_progress ::
  "nat \<Rightarrow> file_writer \<Rightarrow> file_writer \<Rightarrow> get_result \<Rightarrow> bool" where
  "multi_progress B w w' res \<longleftrightarrow>
     (\<exists>bs m. res = Get_Chunk bs m \<and>
        (if m then file_multi_rest w = bs @ file_multi_rest w' \<and> file_multi_inv B w' \<and>
           file_multi_work w' < file_multi_work w
         else file_multi_rest w = bs))"

lemma multi_progressI:
  "file_multi_inv B w' \<Longrightarrow> file_multi_rest w = bs @ file_multi_rest w' \<Longrightarrow>
   file_multi_work w' < file_multi_work w \<Longrightarrow> multi_progress B w w' (Get_Chunk bs True)"
  by (auto simp: multi_progress_def)

lemma multi_progress_from:
  "multi_progress B v w' res \<Longrightarrow> file_multi_rest v = file_multi_rest w \<Longrightarrow>
   file_multi_work v < file_multi_work w \<Longrightarrow> multi_progress B w w' res"
  unfolding multi_progress_def by (metis less_trans)

lemmas multi_defs = file_multi_inv_def file_multi_rest_def file_multi_work_def Let_def

lemma part_header_same:
  "file_part_header (w\<lparr>fbw_step := s, fbw_range_index := j\<rparr>) = file_part_header w"
  "file_part_header (w\<lparr>fbw_step := s\<rparr>) = file_part_header w"
  "file_part_header (w\<lparr>fbw_step := s, fbw_pos := q\<rparr>) = file_part_header w"
  by (simp_all add: file_part_header_def fun_eq_iff)

lemma part_end_progress:
  assumes inv: "file_multi_inv B w" and i: "fbw_range_index w = Some i" "fbw_step w = F_Content_End"
    and e: "file_part_end w i = (w', res)"
  shows "multi_progress B w w' res"
proof -
  let ?rs = "fv_ranges (fbw_body w)"
  have il: "i < length ?rs" using inv i by (simp add: multi_defs)
  show ?thesis
  proof (cases "i = length ?rs - 1")
    case True
    then have "drop (Suc i) ?rs = []" using il by simp
    with True e i show ?thesis
      by (auto simp: multi_progress_def multi_defs file_part_end_def)
  next
    case False
    then have si: "Suc i < length ?rs" using il by simp
    let ?w' = "w\<lparr>fbw_step := F_Header, fbw_range_index := Some (Suc i)\<rparr>"
    have w': "w' = ?w'" "res = Get_Chunk crlf True"
      using False e by (simp_all add: file_part_end_def)
    have "file_multi_inv B ?w'" using si i inv by (simp add: multi_defs)
    moreover have "file_multi_rest w = crlf @ file_multi_rest ?w'"
      using i by (simp add: multi_defs part_header_same)
    moreover have "file_multi_work ?w' < file_multi_work w" using i by (simp add: multi_defs)
    ultimately show ?thesis unfolding w' by (rule multi_progressI)
  qed
qed

lemma multi_header_progress:
  assumes inv: "file_multi_inv B w" and i: "fbw_range_index w = Some i" "fbw_step w = F_Header"
  shows "multi_progress B w (w\<lparr>fbw_step := F_Content, fbw_pos := None\<rparr>)
           (Get_Chunk (file_part_header w (fv_ranges (fbw_body w) ! i)) True)"
proof -
  let ?rs = "fv_ranges (fbw_body w)" and ?w' = "w\<lparr>fbw_step := F_Content, fbw_pos := None\<rparr>"
  from inv i have il: "i < length ?rs" by (simp add: multi_defs)
  then have d: "drop i ?rs = ?rs ! i # drop (Suc i) ?rs" by (rule Cons_nth_drop_Suc [symmetric])
  have left: "part_left ?w' (?rs ! i) =
      (fs_pos (fv_file (fbw_body w)) + nat (fst (?rs ! i)), nat (snd (?rs ! i)) - nat (fst (?rs ! i)))"
    by (simp add: part_left_def)
  have ok: "0 \<le> fst (?rs ! i)" "fst (?rs ! i) \<le> snd (?rs ! i)"
    "fs_pos (fv_file (fbw_body w)) + nat (snd (?rs ! i)) \<le> length (fs_data (fv_file (fbw_body w)))"
    using inv i d by (simp_all add: multi_defs)
  then have sum: "nat (fst (?rs ! i)) + (nat (snd (?rs ! i)) - nat (fst (?rs ! i))) = nat (snd (?rs ! i))"
    by simp
  have "file_multi_inv B ?w'"
    using inv i il d ok left sum by (simp add: multi_defs add.assoc)
  moreover have "file_multi_rest w =
      file_part_header w (?rs ! i) @ file_multi_rest ?w'"
    using i d left sum by (simp add: multi_defs part_header_same add.assoc)
  moreover have "file_multi_work ?w' < file_multi_work w"
  proof -
    have "length ?rs - i = Suc (length ?rs - Suc i)" using il by simp
    with i left ok show ?thesis by (simp add: multi_defs)
  qed
  ultimately show ?thesis by (rule multi_progressI)
qed

lemma multi_content_progress:
  assumes inv: "file_multi_inv B w" and i: "fbw_range_index w = Some i" "fbw_step w = F_Content"
    and e: "file_content_get B w i = (w', res)"
  shows "multi_progress B w w' res"
proof -
  let ?b = "fbw_body w"
  let ?r = "fv_ranges ?b ! i" and ?d = "fs_data (fv_file ?b)"
  obtain c k where left: "part_left w ?r = (c, k)" by fastforce
  from inv i left have il: "i < length (fv_ranges ?b)" and ck: "c + k \<le> length ?d" and B: "0 < B"
    and r: "0 \<le> fst ?r" "fst ?r \<le> snd ?r" "snd ?r \<le> int (length ?d)"
    and ok: "multi_ok (length ?d) (c + k) (drop (Suc i) (fv_ranges ?b))"
    by (simp_all add: multi_defs)
  from multi_content_step [OF inv i left] obtain q n where n: "n = min B k"
    and q: "nat (snd ?r) - nat q = k" "0 \<le> q" "q \<le> snd ?r"
    and g: "file_content_get B w i =
        (if k = 0
         then file_part_end (w\<lparr>fbw_pos := Some q, fbw_body := ?b\<lparr>fv_file := (fv_file ?b)\<lparr>fs_pos := c\<rparr>\<rparr>,
                fbw_step := F_Content_End\<rparr>) i
         else (w\<lparr>fbw_pos := Some (q + int n), fbw_body := ?b\<lparr>fv_file := (fv_file ?b)\<lparr>fs_pos := c + n\<rparr>\<rparr>\<rparr>,
               Get_Chunk (take n (drop c ?d)) True))"
    by blast
  have hdr: "file_part_header (w\<lparr>fbw_pos := p, fbw_body := ?b\<lparr>fv_file := f\<rparr>\<rparr>) = file_part_header w"
    "file_part_header (w\<lparr>fbw_pos := p, fbw_body := ?b\<lparr>fv_file := f\<rparr>, fbw_step := s\<rparr>) = file_part_header w"
    for p f s by (simp_all add: file_part_header_def fun_eq_iff)
  show ?thesis
  proof (cases "k = 0")
    case True
    let ?v = "w\<lparr>fbw_pos := Some q, fbw_body := ?b\<lparr>fv_file := (fv_file ?b)\<lparr>fs_pos := c\<rparr>\<rparr>,
                fbw_step := F_Content_End\<rparr>"
    have "file_multi_inv B ?v" using inv i il ok True by (simp add: multi_defs stream_ok_def)
    moreover have "file_part_end ?v i = (w', res)" using e g True by simp
    ultimately have "multi_progress B ?v w' res" using i by (intro part_end_progress) simp_all
    moreover have "file_multi_rest ?v = file_multi_rest w" using i left True hdr by (simp add: multi_defs)
    moreover have "file_multi_work ?v < file_multi_work w" using i left True by (simp add: multi_defs)
    ultimately show ?thesis by (rule multi_progress_from)
  next
    case False
    then have n0: "0 < n" "n \<le> k" using n B by auto
    let ?v = "w\<lparr>fbw_pos := Some (q + int n), fbw_body := ?b\<lparr>fv_file := (fv_file ?b)\<lparr>fs_pos := c + n\<rparr>\<rparr>\<rparr>"
    have v: "w' = ?v" "res = Get_Chunk (take n (drop c ?d)) True" using e g False by simp_all
    have qn: "nat (q + int n) = nat q + n" "q + int n \<le> snd ?r" using q n0 by linarith+
    have left': "part_left ?v ?r = (c + n, k - n)"
      using q(1) qn by (simp add: part_left_def)
    have "file_multi_inv B ?v"
      using inv i il ck r q qn n0 ok left' by (simp add: multi_defs stream_ok_def)
    moreover have "take k (drop c ?d) = take n (drop c ?d) @ take (k - n) (drop (c + n) ?d)"
      using take_add [of n "k - n" "drop c ?d"] n0 by (simp add: add.commute)
    then have "file_multi_rest w = take n (drop c ?d) @ file_multi_rest ?v"
      using i left left' n0 hdr by (simp add: multi_defs)
    moreover have "file_multi_work ?v < file_multi_work w"
      using i left left' n0 by (simp add: multi_defs)
    ultimately show ?thesis unfolding v by (rule multi_progressI)
  qed
qed

lemma file_writer_get_multi:
  assumes inv: "file_multi_inv B w" and g: "file_writer_get B w = (w', res)"
  shows "multi_progress B w w' res"
proof -
  have eq: "file_multi_get B w = (w', res)"
    using inv g by (simp add: file_multi_inv_def file_writer_get_def Let_def)
  show ?thesis
  proof (cases "fbw_range_index w")
    case None
    let ?v = "w\<lparr>fbw_range_index := Some 0, fbw_step := F_Header\<rparr>"
    have v: "file_multi_inv B ?v" using inv None by (auto simp: multi_defs)
    have hdr: "file_part_header ?v = file_part_header w" by (simp add: file_part_header_def fun_eq_iff)
    have "\<not> length (fv_ranges (fbw_body w)) \<le> 0" using v by (simp add: multi_defs)
    then have "w' = ?v\<lparr>fbw_step := F_Content, fbw_pos := None\<rparr>"
      "res = Get_Chunk (file_part_header ?v (fv_ranges (fbw_body ?v) ! 0)) True"
      using eq None by (simp_all add: file_multi_get_def)
    with multi_header_progress [OF v, of 0] have p: "multi_progress B ?v w' res" by simp
    have "file_multi_rest ?v = file_multi_rest w" "file_multi_work ?v = file_multi_work w"
      using None hdr by (simp_all add: multi_defs)
    with p show ?thesis unfolding multi_progress_def by metis
  next
    case (Some i)
    then have il: "\<not> length (fv_ranges (fbw_body w)) \<le> i" using inv by (simp add: multi_defs)
    show ?thesis
    proof (cases "fbw_step w")
      case F_Header
      with multi_header_progress [OF inv Some] eq il Some show ?thesis
        by (auto simp: file_multi_get_def)
    next
      case F_Content
      with multi_content_progress [OF inv Some] eq il Some show ?thesis
        by (simp add: file_multi_get_def)
    next
      case F_Content_End
      with part_end_progress [OF inv Some] eq il Some show ?thesis
        by (simp add: file_multi_get_def)
    next
      case F_Eof
      with inv Some show ?thesis by (simp add: multi_defs)
    qed
  qed
qed

interpretation file_m:
  body_writer "file_writer_get B" "file_multi_inv B" file_multi_rest file_multi_work
proof
  fix s s' bs e
  assume inv: "file_multi_inv B s"
  note p = file_writer_get_multi [OF inv, unfolded multi_progress_def]
  show "file_writer_get B s = (s', Get_None) \<Longrightarrow> file_multi_rest s = []"
    by (drule p) auto
  show "file_writer_get B s = (s', Get_Chunk bs False) \<Longrightarrow> file_multi_rest s = bs"
    by (drule p) auto
  show "file_writer_get B s = (s', Get_Chunk bs True) \<Longrightarrow>
      file_multi_rest s = bs @ file_multi_rest s' \<and> file_multi_inv B s' \<and>
      file_multi_work s' < file_multi_work s"
    by (drule p) auto
  show "file_writer_get B s \<noteq> (s', Get_Error e)"
    by (rule notI, drule p) simp
qed

text \<open>The text sent for the whole file or one range.\<close>

text \<open>A writer just made for an opened file, of which all or one range is asked for.\<close>

lemma fresh_file_writer:
  assumes "0 < B" and "int (length data) < 2 ^ 63"
    and "rs = [] \<or> (\<exists>a b. rs = [(int a, int b)] \<and> a \<le> b \<and> b < length data)"
    and "w = file_writer_new junk ((file_open data)\<lparr>fv_content_type := ct, fv_ranges := rs\<rparr>)"
  shows "file_single_inv B w" and "file_single_work w \<le> length data"
    and "file_single_rest w =
      (case rs of [] \<Rightarrow> data | (a, b) # _ \<Rightarrow> take (nat (b + 1 - a)) (drop (nat a) data))"
proof -
  from assms(3) consider "rs = []" | a b where "rs = [(int a, int b)]" "a \<le> b" "b < length data"
    by blast
  then have "file_single_inv B w \<and> file_single_work w \<le> length data \<and> file_single_rest w =
      (case rs of [] \<Rightarrow> data | (a, b) # _ \<Rightarrow> take (nat (b + 1 - a)) (drop (nat a) data))"
  proof cases
    case 1
    with assms(1,2,4) show ?thesis
      by (simp add: file_single_inv_def file_single_rest_def file_single_work_def file_writer_new_def
          file_open_def single_bounds_def file_at_def file_ok_def stream_ok_def)
  next
    case 2
    have eq: "nat (int b + 1) = Suc b" "nat (int b + 1 - int a) = Suc b - a" by linarith+
    with 2 assms(1,2,4) show ?thesis
      by (simp add: file_single_inv_def file_single_rest_def file_single_work_def file_writer_new_def
          file_open_def single_bounds_def file_at_def file_ok_def stream_ok_def Let_def)
  qed
  then show "file_single_inv B w" "file_single_work w \<le> length data"
    "file_single_rest w =
      (case rs of [] \<Rightarrow> data | (a, b) # _ \<Rightarrow> take (nat (b + 1 - a)) (drop (nat a) data))"
    by simp_all
qed

lemma file_writer_text:
  assumes "0 < B" and "int (length data) < 2 ^ 63"
    and "rs = [] \<or> (\<exists>a b. rs = [(int a, int b)] \<and> a \<le> b \<and> b < length data)"
    and "length data < n"
  shows "drain (file_writer_get B) n
           (file_writer_new junk ((file_open data)\<lparr>fv_content_type := ct, fv_ranges := rs\<rparr>)) =
           Some (case rs of [] \<Rightarrow> data | (a, b) # _ \<Rightarrow> take (nat (b + 1 - a)) (drop (nat a) data), None)"
proof -
  note fresh = fresh_file_writer [OF assms(1-3) refl, where junk = junk and ct = ct]
  from fresh(2) assms(4) have "file_single_work (file_writer_new junk
      ((file_open data)\<lparr>fv_content_type := ct, fv_ranges := rs\<rparr>)) < n" by (rule le_less_trans)
  from file_w.drain_rest [OF fresh(1) this] show ?thesis unfolding fresh(3) .
qed

section \<open>Properties\<close>

text \<open>
  A freshly opened file is sent whole, byte for byte, when there are no ranges, and one range
  is sent from its first to its last position, whatever the size of the buffer: the serializer gets
  no error and stops after at most one more call than there are bytes.
\<close>

theorem file_writer_sends_range:
  assumes "0 < B" and "int (length data) < 2 ^ 63"
    and "rs = [] \<or> (\<exists>a b. rs = [(int a, int b)] \<and> a \<le> b \<and> b < length data)"
    and "length data < n"
  shows "drain (file_writer_get B) n (file_writer_new junk ((file_open data)\<lparr>fv_content_type := ct, fv_ranges := rs\<rparr>)) =
           Some (case rs of [] \<Rightarrow> data | (a, b) # _ \<Rightarrow> take (nat (b + 1 - a)) (drop (nat a) data), None)"
  using assms by (rule file_writer_text)

theorem file_writer_sends_range_witness:
  "drain (file_writer_get 2) 6 (file_writer_new 7
       ((file_open ''hello'')\<lparr>fv_content_type := ''text/plain'', fv_ranges := [(int 1, int 3)]\<rparr>)) =
     Some (''ell'', None)"
  using file_writer_sends_range [of 2 "''hello''" "[(int 1, int 3)]" 6 7 "''text/plain''"] by (simp add: eval_nat_numeral)

text \<open>
  C40. What is sent for several ranges. The text has the announced form, one part with its header for
  every range, but it does not hold the ranges: the last byte of every range is missing, because its
  last position is used as an exclusive bound, and every part after the first is read from where the
  part before it ended plus its own first position, because the seek is relative. The total length
  in the part headers is the value of a member that is never set.
\<close>

theorem file_writer_sends_other_bytes:
  assumes "0 < B" and "int (length data) < 2 ^ 62" and "1 < length rs"
    and "multi_ok (length data) 0 rs" and "length rs * (length data + 4) < n"
    and "b = (file_open data)\<lparr>fv_ranges := rs, fv_boundary := bnd, fv_content_type := ct\<rparr>"
  shows "drain (file_writer_get B) n (file_writer_new junk b) =
           Some (multi_text (file_part_header (file_writer_new junk b)) bnd data 0 rs, None)"
proof -
  have "file_multi_inv B (file_writer_new junk b)"
    using assms by (simp add: file_multi_inv_def file_writer_new_def file_open_def stream_ok_def)
  from file_m.drain_rest [OF this, of n] assms(5,6) show ?thesis
    by (simp add: file_multi_rest_def file_multi_work_def file_writer_new_def file_open_def)
qed

theorem file_writer_sends_other_bytes_witness:
  "let b = (file_open ''0123456789'')\<lparr>fv_ranges := [(0, 2), (4, 6)], fv_boundary := ''X'',
             fv_content_type := ''t''\<rparr>
   in drain (file_writer_get 4096) 40 (file_writer_new 77 b) =
        Some (''--X'' @ crlf @ ''Content-Type: t'' @ crlf @ ''Content-Range: bytes 0-2/77'' @ crlf @ crlf @
          ''01'' @ crlf @
          ''--X'' @ crlf @ ''Content-Type: t'' @ crlf @ ''Content-Range: bytes 4-6/77'' @ crlf @ crlf @
          ''67'' @ crlf @ ''--X--'' @ crlf, None)"
proof -
  let ?b = "(file_open ''0123456789'')\<lparr>fv_ranges := [(0, 2), (4, 6)], fv_boundary := ''X'',
             fv_content_type := ''t''\<rparr>"
  have d: "dec_int 0 = ''0''" "dec_int 2 = ''2''" "dec_int 4 = ''4''" "dec_int 6 = ''6''" "dec_nat 77 = ''77''"
    by code_simp+
  have "drain (file_writer_get 4096) 40 (file_writer_new 77 ?b) =
      Some (multi_text (file_part_header (file_writer_new 77 ?b)) ''X'' ''0123456789'' 0 [(0, 2), (4, 6)], None)"
    by (rule file_writer_sends_other_bytes) simp_all
  then show ?thesis by (simp add: file_part_header_def file_writer_new_def d)
qed

end
