(* ===== verification/Simple_Bodies.thy ===== *)
theory Simple_Bodies
  imports Body_Interface Query_Params
begin

text \<open>
  The body types whose readers and writers keep little state: \<open>empty_body\<close>,
  \<open>string_body\<close>, \<open>query_params_body\<close> and \<open>json_body\<close>
  (\<open>lib/body/empty_body.cpp\<close>, \<open>string_body.cpp\<close>, \<open>query_params_body.cpp\<close>,
  \<open>json_body.cpp\<close>). The JSON serializer and parser are Boost's: a parameter.
\<close>

section \<open>empty\_body\<close>

definition empty_writer_get :: "unit writer_get" where
  "empty_writer_get w = (w, Get_None)"

definition empty_reader_put :: "unit reader_put" where
  "empty_reader_put r data = (r, Inl Unexpected_Body)"

definition empty_reader_finish :: "unit \<Rightarrow> body_error option" where
  "empty_reader_finish r = None"

section \<open>string\_body\<close>

text \<open>The reader's state is the body; \<open>max\_size\<close> is the limit of \<open>std::string\<close>.\<close>

definition string_reader_init :: "nat \<Rightarrow> nat option \<Rightarrow> body_error option" where
  "string_reader_init max_size content_length =
     (case content_length of
        None \<Rightarrow> None
      | Some n \<Rightarrow> if max_size < n then Some Buffer_Overflow else None)"

definition string_reader_put :: "nat \<Rightarrow> string reader_put" where
  "string_reader_put max_size body data =
     (if max_size - length body < length data then (body, Inl Buffer_Overflow)
      else (body @ data, Inr (length data)))"

definition string_reader_finish :: "string \<Rightarrow> body_error option" where
  "string_reader_finish body = None"

definition string_writer_get :: "string writer_get" where
  "string_writer_get body = (body, Get_Chunk body False)"

section \<open>query\_params\_body\<close>

definition query_writer_init :: "query_params \<Rightarrow> string" where
  "query_writer_init body = qp_encoded body"

definition query_writer_get :: "string writer_get" where
  "query_writer_get buffer = (buffer, Get_Chunk buffer False)"

definition query_reader_put :: "string reader_put" where
  "query_reader_put buffer data = (buffer @ data, Inr (length data))"

definition query_reader_finish :: "string \<Rightarrow> query_params result" where
  "query_reader_finish buffer = qp_decode buffer"

section \<open>json\_body\<close>

record ('j, 'p, 's) json_api =
  js_reset :: "'j \<Rightarrow> 's"
  js_read :: "'s \<Rightarrow> nat \<Rightarrow> 's \<times> string"
  js_done :: "'s \<Rightarrow> bool"
  jp_start :: 'p
  jp_write_some :: "'p \<Rightarrow> string \<Rightarrow> 'p \<times> (body_error + nat)"
  jp_done :: "'p \<Rightarrow> bool"
  jp_release :: "'p \<Rightarrow> 'j"

definition json_writer_new :: "('j, 'p, 's) json_api \<Rightarrow> 'j \<Rightarrow> 's" where
  "json_writer_new J body = js_reset J body"

definition json_writer_get :: "('j, 'p, 's) json_api \<Rightarrow> 's writer_get" where
  "json_writer_get J w =
     (let (w', buf) = js_read J w 32768 in (w', Get_Chunk buf (\<not> js_done J w')))"

definition json_reader_put :: "('j, 'p, 's) json_api \<Rightarrow> 'p reader_put" where
  "json_reader_put J p data = jp_write_some J p data"

definition json_reader_finish :: "('j, 'p, 's) json_api \<Rightarrow> 'p \<Rightarrow> body_error + 'j" where
  "json_reader_finish J p = (if jp_done J p then Inr (jp_release J p) else Inl Incomplete)"

section \<open>The contracts\<close>

interpretation empty_w: body_writer empty_writer_get "\<lambda>_. True" "\<lambda>_. []" "\<lambda>_. 0"
  by unfold_locales (auto simp: empty_writer_get_def)

interpretation string_w: body_writer string_writer_get "\<lambda>_. True" "\<lambda>w. w" "\<lambda>_. 0"
  by unfold_locales (auto simp: string_writer_get_def)

interpretation query_w: body_writer query_writer_get "\<lambda>_. True" "\<lambda>w. w" "\<lambda>_. 0"
  by unfold_locales (auto simp: query_writer_get_def)

interpretation empty_r: body_reader empty_reader_put
  by unfold_locales (auto simp: empty_reader_put_def)

interpretation string_r: body_reader "string_reader_put max_size"
  by unfold_locales (auto simp: string_reader_put_def split: if_splits)

interpretation query_r: streaming_reader query_reader_put
proof unfold_locales
  fix s s' :: string and d x n
  assume "d \<noteq> []" "query_reader_put s d = (s', Inr n)"
  then show "feed query_reader_put s (d @ x) = feed query_reader_put s' (drop n d @ x)"
    by (cases "x = []") (auto simp: query_reader_put_def feed.simps)
qed (auto simp: query_reader_put_def)

lemma feed_query: "feed query_reader_put b d = (b @ d, [], None)"
  by (cases "d = []") (auto simp: query_reader_put_def feed.simps)

section \<open>Properties\<close>

text \<open>
  A form submitted as \<open>application/x-www-form-urlencoded\<close>, written by the query writer,
  cut into any segments and put back together by the query reader, gives the same entries (up to
  the order of the container and plus signs for spaces).
\<close>

theorem query_body_roundtrip:
  assumes "mset xs = mset ps" and "\<forall>(k, v)\<in>set ps. k \<noteq> [] \<or> v = []"
    and "drain query_writer_get 1 (query_writer_init xs) = Some (text, None)"
    and "concat segs = text"
  shows "\<exists>buf qs. feed_segments query_reader_put [] [] segs = (buf, [], None) \<and>
           query_reader_finish buf = Inr qs \<and>
           mset qs = image_mset (\<lambda>(k, v). (plus_for_space k, plus_for_space v)) (mset ps)"
proof -
  have tx: "text = qp_encoded xs"
    using query_w.drain_rest [of 1 "query_writer_init xs"] assms(3)
    by (simp add: query_writer_init_def)
  have "set xs = set ps" using assms(1) by (rule mset_eq_setD)
  with assms(2) have "\<forall>(k, v)\<in>set xs. k \<noteq> [] \<or> v = []" by simp
  from qp_decode_encoded [OF this] assms(1) tx show ?thesis
    by (simp add: query_r.feed_segments_concat feed_query assms(4) query_reader_finish_def)
qed

theorem query_body_roundtrip_witness:
  "\<exists>buf qs. feed_segments query_reader_put [] [] [''a='', ''1&b='', ''2''] = (buf, [], None) \<and>
     query_reader_finish buf = Inr qs \<and>
     mset qs = image_mset (\<lambda>(k, v). (plus_for_space k, plus_for_space v))
       (mset [(''b'', ''2''), (''a'', ''1'')])"
proof (rule query_body_roundtrip)
  show "drain query_writer_get 1 (query_writer_init [(''a'', ''1''), (''b'', ''2'')]) =
      Some (''a=1&b=2'', None)"
    by code_simp
qed simp_all

text \<open>
  The string reader appends exactly what it is fed, over any segments, and never holds more
  than the limit; the first segment beyond the limit is refused with the body left as it was.
\<close>

theorem string_body_bounded:
  "length body \<le> max_size \<Longrightarrow> feed (string_reader_put max_size) body data = (body', left, e) \<Longrightarrow>
   length body' \<le> max_size \<and> body' @ left = body @ data \<and>
   (e = None \<longleftrightarrow> length body + length data \<le> max_size)"
  by (cases "data = []") (auto simp: string_reader_put_def feed.simps split: if_splits)

theorem string_body_bounded_witness:
  "feed (string_reader_put 4) ''ab'' ''xyz'' = (''ab'', ''xyz'', Some Buffer_Overflow) \<and>
   ''ab'' @ ''xyz'' = ''ab'' @ ''xyz'' \<and> length ''ab'' \<le> (4::nat)"
proof -
  have f: "feed (string_reader_put 4) ''ab'' ''xyz'' = (''ab'', ''xyz'', Some Buffer_Overflow)"
    by (simp add: feed.simps string_reader_put_def)
  then show ?thesis using string_body_bounded [OF _ f] by simp
qed

end
