(* ===== verification/Any_Body.thy ===== *)
theory Any_Body
  imports Simple_Bodies Form_Data_Body File_Body Compressor Mime_Types
begin

text \<open>
  \<open>any_body\<close> (\<open>include/httplib/body/any_body.hpp\<close>, \<open>lib/body/any_body.cpp\<close>): the
  variant of the six body types, the proxies that forward to the reader or writer of the
  alternative, and the compression that stands between them and the connection. The loop of
  \<open>get\<close> may be asked for a buffer again and again, so it is a partial function.
\<close>

section \<open>The variant and its proxies\<close>

datatype 'j any_value =
    V_Empty
  | V_String string
  | V_Json 'j
  | V_Form form_data
  | V_File file_value
  | V_Query query_params

datatype 's proxy_writer =
    PW_Empty unit
  | PW_String string
  | PW_Json 's
  | PW_Form form_writer
  | PW_File file_writer
  | PW_Query string

text \<open>The writer of the alternative, constructed and initialised.\<close>

fun create_proxy_writer ::
  "('j, 'p, 's) json_api \<Rightarrow> nat \<Rightarrow> 'j any_value \<Rightarrow> 's proxy_writer" where
  "create_proxy_writer J junk V_Empty = PW_Empty ()"
| "create_proxy_writer J junk (V_String s) = PW_String s"
| "create_proxy_writer J junk (V_Json j) = PW_Json (json_writer_new J j)"
| "create_proxy_writer J junk (V_Form f) = PW_Form (form_writer_init (form_writer_new f))"
| "create_proxy_writer J junk (V_File f) = PW_File (file_writer_new junk f)"
| "create_proxy_writer J junk (V_Query q) = PW_Query (query_writer_init q)"

fun proxy_writer_get :: "('j, 'p, 's) json_api \<Rightarrow> nat \<Rightarrow> 's proxy_writer writer_get" where
  "proxy_writer_get J B (PW_Empty w) = map_prod PW_Empty id (empty_writer_get w)"
| "proxy_writer_get J B (PW_String w) = map_prod PW_String id (string_writer_get w)"
| "proxy_writer_get J B (PW_Json w) = map_prod PW_Json id (json_writer_get J w)"
| "proxy_writer_get J B (PW_Form w) = map_prod PW_Form id (form_writer_get w)"
| "proxy_writer_get J B (PW_File w) = map_prod PW_File id (file_writer_get B w)"
| "proxy_writer_get J B (PW_Query w) = map_prod PW_Query id (query_writer_get w)"

datatype 'p proxy_reader =
    PR_Form form_reader
  | PR_Json 'p
  | PR_Query string
  | PR_String string

section \<open>The writer\<close>

type_synonym ('w, 'z) any_writer = "'w \<times> 'z compressor option"

definition any_writer_init ::
  "'z filter_api \<Rightarrow> creators \<Rightarrow> string \<Rightarrow> 'w \<Rightarrow> ('w, 'z) any_writer" where
  "any_writer_init F cs content_encoding proxy =
     (proxy, map_option (compressor_init F Encode) (factory_create cs content_encoding))"

text \<open>
  The check \<open>!result || ec\<close> comes first, so the branch after it that would finish the
  compressor when the proxy has nothing more is never entered.
\<close>

partial_function (option) compress_loop ::
  "'z filter_api \<Rightarrow> 'w writer_get \<Rightarrow> 'w \<Rightarrow> 'z compressor \<Rightarrow>
   (('w, 'z) any_writer \<times> get_result) option" where
  "compress_loop F get w c =
     (case get w of
        (w', Get_None) \<Rightarrow> Some ((w', Some c), Get_None)
      | (w', Get_Error e) \<Rightarrow> Some ((w', Some c), Get_Error e)
      | (w', Get_Chunk bs m) \<Rightarrow>
          if compressor_buffer (compressor_write F bs m c) \<noteq> []
          then Some ((w', Some (compressor_write F bs m c)),
                     Get_Chunk (compressor_buffer (compressor_write F bs m c)) m)
          else compress_loop F get w' (compressor_write F bs m c))"

definition any_writer_get ::
  "'z filter_api \<Rightarrow> 'w writer_get \<Rightarrow> ('w, 'z) any_writer \<Rightarrow> (('w, 'z) any_writer \<times> get_result) option"
where
  "any_writer_get F get w =
     (case w of
        (proxy, None) \<Rightarrow> (case get proxy of (proxy', r) \<Rightarrow> Some ((proxy', None), r))
      | (proxy, Some c) \<Rightarrow> compress_loop F get proxy (compressor_consume_all c))"

fun any_drain ::
  "'z filter_api \<Rightarrow> 'w writer_get \<Rightarrow> nat \<Rightarrow> ('w, 'z) any_writer \<Rightarrow> (string \<times> body_error option) option"
where
  "any_drain F get 0 w = None"
| "any_drain F get (Suc n) w =
     (case any_writer_get F get w of
        None \<Rightarrow> None
      | Some (w', Get_None) \<Rightarrow> Some ([], None)
      | Some (w', Get_Error e) \<Rightarrow> Some ([], Some e)
      | Some (w', Get_Chunk bs has_more) \<Rightarrow>
          if has_more then map_option (\<lambda>(out, e). (bs @ out, e)) (any_drain F get n w')
          else Some (bs, None))"

section \<open>The reader\<close>

text \<open>
  \<open>create\_proxy\_reader\<close>: a body that already holds the alternative is read into as it is,
  any other is replaced by an empty value first.
\<close>

definition create_form_reader :: "string \<Rightarrow> 'j any_value \<Rightarrow> form_reader" where
  "create_form_reader content_type body =
     form_reader_new content_type
       (case body of V_Form f \<Rightarrow> f | _ \<Rightarrow> \<lparr>fd_fields = [], fd_boundary = []\<rparr>)"

definition create_string_reader :: "'j any_value \<Rightarrow> string" where
  "create_string_reader body = (case body of V_String s \<Rightarrow> s | _ \<Rightarrow> [])"

definition create_proxy_reader ::
  "('j, 'p, 's) json_api \<Rightarrow> string \<Rightarrow> 'j any_value \<Rightarrow> 'p proxy_reader" where
  "create_proxy_reader J content_type body =
     (if starts_with ''multipart/form-data'' content_type
      then PR_Form (create_form_reader content_type body)
      else if starts_with ''application/json'' content_type then PR_Json (jp_start J)
      else if starts_with ''application/x-www-form-urlencoded'' content_type then PR_Query []
      else PR_String (create_string_reader body))"

fun proxy_reader_init ::
  "nat \<Rightarrow> nat option \<Rightarrow> 'p proxy_reader \<Rightarrow> 'p proxy_reader \<times> body_error option" where
  "proxy_reader_init max_size content_length (PR_Form r) = map_prod PR_Form id (form_reader_init r)"
| "proxy_reader_init max_size content_length (PR_String s) =
     (PR_String s, string_reader_init max_size content_length)"
| "proxy_reader_init max_size content_length r = (r, None)"

fun proxy_reader_put :: "('j, 'p, 's) json_api \<Rightarrow> nat \<Rightarrow> 'p proxy_reader reader_put" where
  "proxy_reader_put J max_size (PR_Form r) data = map_prod PR_Form id (form_reader_put r data)"
| "proxy_reader_put J max_size (PR_Json r) data = map_prod PR_Json id (json_reader_put J r data)"
| "proxy_reader_put J max_size (PR_Query r) data = map_prod PR_Query id (query_reader_put r data)"
| "proxy_reader_put J max_size (PR_String r) data =
     map_prod PR_String id (string_reader_put max_size r data)"

text \<open>The body after \<open>finish\<close>, or its error; decoding a query may fault.\<close>

fun proxy_reader_finish ::
  "('j, 'p, 's) json_api \<Rightarrow> 'p proxy_reader \<Rightarrow> (body_error + 'j any_value) result" where
  "proxy_reader_finish J (PR_Form r) =
     Inr (case form_reader_finish r of Some e \<Rightarrow> Inl e | None \<Rightarrow> Inr (V_Form (fr_body r)))"
| "proxy_reader_finish J (PR_Json r) =
     Inr (case json_reader_finish J r of Inl e \<Rightarrow> Inl e | Inr j \<Rightarrow> Inr (V_Json j))"
| "proxy_reader_finish J (PR_Query r) = rmap (\<lambda>q. Inr (V_Query q)) (query_reader_finish r)"
| "proxy_reader_finish J (PR_String r) = Inr (Inr (V_String r))"

type_synonym ('p, 'z) any_reader = "'p proxy_reader \<times> 'z compressor option"

definition any_reader_init ::
  "'z filter_api \<Rightarrow> creators \<Rightarrow> ('j, 'p, 's) json_api \<Rightarrow> nat \<Rightarrow> string \<Rightarrow> string \<Rightarrow> nat option \<Rightarrow>
   'j any_value \<Rightarrow> ('p, 'z) any_reader \<times> body_error option" where
  "any_reader_init F cs J max_size content_type content_encoding content_length body =
     (let proxy = create_proxy_reader J content_type body;
          c = map_option (compressor_init F Decode) (factory_create cs content_encoding);
          (proxy', e) = proxy_reader_init max_size content_length proxy
      in ((proxy', c), e))"

text \<open>\<open>put\<close> with the bytes it reports and its error code, which are independent here.\<close>

definition any_reader_put ::
  "'z filter_api \<Rightarrow> ('j, 'p, 's) json_api \<Rightarrow> nat \<Rightarrow> ('p, 'z) any_reader \<Rightarrow> string \<Rightarrow>
   ('p, 'z) any_reader \<times> nat \<times> body_error option" where
  "any_reader_put F J max_size r data =
     (case r of
        (proxy, None) \<Rightarrow>
          (case proxy_reader_put J max_size proxy data of
             (proxy', Inl e) \<Rightarrow> ((proxy', None), 0, Some e)
           | (proxy', Inr n) \<Rightarrow> ((proxy', None), n, None))
      | (proxy, Some c) \<Rightarrow>
          let c' = compressor_write F data True c
          in if compressor_buffer c' \<noteq> []
             then
               (case proxy_reader_put J max_size proxy (compressor_buffer c') of
                  (proxy', Inl e) \<Rightarrow>
                    ((proxy', Some (compressor_consume 0 c')), length data, Some e)
                | (proxy', Inr n) \<Rightarrow>
                    ((proxy', Some (compressor_consume n c')), length data, None))
             else ((proxy, Some c'), length data, None))"

definition any_reader_finish ::
  "'z filter_api \<Rightarrow> ('j, 'p, 's) json_api \<Rightarrow> nat \<Rightarrow> ('p, 'z) any_reader \<Rightarrow>
   (body_error + 'j any_value) result" where
  "any_reader_finish F J max_size r =
     (case r of
        (proxy, None) \<Rightarrow> proxy_reader_finish J proxy
      | (proxy, Some c) \<Rightarrow>
          let c' = compressor_finish F c
          in proxy_reader_finish J
               (if compressor_buffer c' \<noteq> []
                then fst (proxy_reader_put J max_size proxy (compressor_buffer c')) else proxy))"

text \<open>
  Reading a compressed body: \<open>put\<close> takes every segment whole, so the segments follow each
  other until an error ends the parse.
\<close>

fun any_feed ::
  "'z filter_api \<Rightarrow> ('j, 'p, 's) json_api \<Rightarrow> nat \<Rightarrow> ('p, 'z) any_reader \<Rightarrow> string list \<Rightarrow>
   ('p, 'z) any_reader \<times> body_error option" where
  "any_feed F J max_size r [] = (r, None)"
| "any_feed F J max_size r (seg # segs) =
     (case any_reader_put F J max_size r seg of
        (r', n, None) \<Rightarrow> any_feed F J max_size r' segs
      | (r', n, Some e) \<Rightarrow> (r', Some e))"

section \<open>What the filters owe\<close>

text \<open>All a filter puts out for a sequence of writes and the close that ends it.\<close>

fun filter_run :: "'z filter_api \<Rightarrow> 'z \<Rightarrow> string list \<Rightarrow> string" where
  "filter_run F z [] = snd (filter_close F z)"
| "filter_run F z (d # ds) = (case filter_write F z d of (z', out) \<Rightarrow> out @ filter_run F z' ds)"

text \<open>
  The decompressor of a codec gives back what its compressor was fed, however both are called; and
  the close of a compressor always puts out its final block.
\<close>

definition lossless :: "'z filter_api \<Rightarrow> codec \<Rightarrow> bool" where
  "lossless F k \<longleftrightarrow>
     (\<forall>chunks segs.
        concat segs = filter_run F (filter_open F (Compressor_Filter k)) chunks \<longrightarrow>
        filter_run F (filter_open F (Decompressor_Filter k)) segs = concat chunks)"

definition flushes :: "'z filter_api \<Rightarrow> 'z \<Rightarrow> bool" where
  "flushes F z \<longleftrightarrow>
     (\<forall>chunks. snd (filter_close F (foldl (\<lambda>z d. fst (filter_write F z d)) z chunks)) \<noteq> [])"

lemma flushes_write: "flushes F z \<Longrightarrow> filter_write F z d = (z', out) \<Longrightarrow> flushes F z'"
proof (unfold flushes_def, rule allI)
  fix ds
  assume "\<forall>ds. snd (filter_close F (foldl (\<lambda>z d. fst (filter_write F z d)) z ds)) \<noteq> []"
    and "filter_write F z d = (z', out)"
  then show "snd (filter_close F (foldl (\<lambda>z d. fst (filter_write F z d)) z' ds)) \<noteq> []"
    by (auto dest: spec [of _ "d # ds"])
qed

lemma flushes_run: "flushes F z \<Longrightarrow> filter_run F z ds \<noteq> []"
proof (induction ds arbitrary: z)
  case Nil
  then have "snd (filter_close F (foldl (\<lambda>z d. fst (filter_write F z d)) z [])) \<noteq> []"
    unfolding flushes_def by blast
  then show ?case by simp
next
  case (Cons d ds)
  then show ?case by (auto split: prod.splits dest: flushes_write)
qed

section \<open>The compressing writer over any marked writer\<close>

lemma compressor_write_more:
  "cz_stream c = Some z \<Longrightarrow> filter_write F z d = (z', out) \<Longrightarrow>
   compressor_write F d True c = c\<lparr>cz_buffer := cz_buffer c @ out, cz_stream := Some z'\<rparr>"
  by (simp add: compressor_write_def)

lemma compressor_write_last:
  "cz_stream c = Some z \<Longrightarrow> cz_buffer (compressor_write F d False c) = cz_buffer c @ filter_run F z [d]"
  by (auto simp: compressor_write_def compressor_finish_def split: prod.splits)

context marked_writer begin

lemma compress_loop_step:
  "inv s \<Longrightarrow> cz_stream c = Some z \<Longrightarrow> cz_buffer c = [] \<Longrightarrow> flushes F z \<Longrightarrow>
    (\<exists>chunks s' c'. compress_loop F get s c =
        Some ((s', Some c'), Get_Chunk (filter_run F z chunks) False) \<and> concat chunks = rest s) \<or>
    (\<exists>pre z' s' c' out. compress_loop F get s c = Some ((s', Some c'), Get_Chunk out True) \<and>
        inv s' \<and> work s' < work s \<and> rest s = concat pre @ rest s' \<and> cz_stream c' = Some z' \<and>
        flushes F z' \<and>
        (\<forall>ds. filter_run F z (pre @ ds) = out @ filter_run F z' ds))"
proof (induction "work s" arbitrary: s c z rule: less_induct)
  case less
  obtain s1 r where g: "get s = (s1, r)" by (cases "get s")
  obtain bs m where r: "r = Get_Chunk bs m"
    using g get_marked [OF less.prems(1)] get_no_error [OF less.prems(1)] by (cases r) auto
  obtain z1 out where fw: "filter_write F z bs = (z1, out)" by (cases "filter_write F z bs")
  show ?case
  proof (cases m)
    case False
    have "cz_buffer (compressor_write F bs False c) = filter_run F z [bs]"
      using compressor_write_last [OF less.prems(2)] less.prems(3) by simp
    moreover have "filter_run F z [bs] \<noteq> []" using flushes_run [OF less.prems(4)] by blast
    moreover have "rest s = bs" using get_last [OF less.prems(1)] g r False by simp
    ultimately show ?thesis using g r False
      by (intro disjI1 exI [of _ "[bs]"]) (simp add: compress_loop.simps [of F get s] compressor_buffer_def)
  next
    case True
    have s1: "rest s = bs @ rest s1" "inv s1" "work s1 < work s"
      using get_more [OF less.prems(1), of s1 bs] g r True by simp_all
    let ?c = "c\<lparr>cz_buffer := out, cz_stream := Some z1\<rparr>"
    have fl: "flushes F z1" by (rule flushes_write [OF less.prems(4) fw])
    have cw: "compressor_write F bs True c = ?c"
      using compressor_write_more [OF less.prems(2) fw] less.prems(3) by simp
    show ?thesis
    proof (cases "out = []")
      case False
      then have "compress_loop F get s c = Some ((s1, Some ?c), Get_Chunk out True)"
        using g r True cw by (simp add: compress_loop.simps [of F get s] compressor_buffer_def)
      with s1 fw fl show ?thesis
        by (intro disjI2 exI [of _ "[bs]"] exI [of _ z1]) auto
    next
      case o: True
      then have "compress_loop F get s c = compress_loop F get s1 ?c"
        using g r True cw by (simp add: compress_loop.simps [of F get s] compressor_buffer_def)
      moreover have run: "filter_run F z (bs # ds) = filter_run F z1 ds" for ds
        using fw o by simp
      moreover from less.hyps [OF s1(3,2), of ?c z1] o fl
      consider (last) chunks s' c' where
          "compress_loop F get s1 ?c = Some ((s', Some c'), Get_Chunk (filter_run F z1 chunks) False)"
          "concat chunks = rest s1"
        | (more) pre z' s' c' out' where
          "compress_loop F get s1 ?c = Some ((s', Some c'), Get_Chunk out' True)"
          "inv s'" "work s' < work s1" "rest s1 = concat pre @ rest s'" "cz_stream c' = Some z'"
          "flushes F z'"
          "\<forall>ds. filter_run F z1 (pre @ ds) = out' @ filter_run F z' ds"
        by auto
      then have "?thesis" if eq: "compress_loop F get s c = compress_loop F get s1 ?c"
      proof cases
        case last
        with eq run [of chunks] s1 show ?thesis by (intro disjI1 exI [of _ "bs # chunks"]) auto
      next
        case more
        with eq run s1 show ?thesis
          by (intro disjI2 exI [of _ "bs # pre"] exI [of _ z']) auto
      qed
      ultimately show ?thesis by blast
    qed
  qed
qed

lemma compressed_drain:
  "inv s \<Longrightarrow> cz_stream c = Some z \<Longrightarrow> flushes F z \<Longrightarrow> work s < n \<Longrightarrow>
    \<exists>chunks. concat chunks = rest s \<and>
      any_drain F get n (s, Some c) = Some (filter_run F z chunks, None)"
proof (induction n arbitrary: s c z)
  case (Suc n)
  let ?c = "compressor_consume_all c"
  have c: "cz_stream ?c = Some z" "cz_buffer ?c = []"
    using Suc.prems(2) by (simp_all add: compressor_consume_all_def compressor_consume_def)
  from compress_loop_step [OF Suc.prems(1) c Suc.prems(3)]
  consider (last) chunks s' c' where
      "compress_loop F get s ?c = Some ((s', Some c'), Get_Chunk (filter_run F z chunks) False)"
      "concat chunks = rest s"
    | (more) pre z' s' c' out where
      "compress_loop F get s ?c = Some ((s', Some c'), Get_Chunk out True)"
      "inv s'" "work s' < work s" "rest s = concat pre @ rest s'" "cz_stream c' = Some z'"
      "flushes F z'"
      "\<forall>ds. filter_run F z (pre @ ds) = out @ filter_run F z' ds"
    by blast
  then show ?case
  proof cases
    case last
    then show ?thesis by (intro exI [of _ chunks]) (simp add: any_writer_get_def)
  next
    case more
    then obtain chunks where "concat chunks = rest s'"
      "any_drain F get n (s', Some c') = Some (filter_run F z' chunks, None)"
      using Suc.IH [of s' c' z'] Suc.prems(4) by auto
    with more show ?thesis by (intro exI [of _ "pre @ chunks"]) (simp add: any_writer_get_def)
  qed
qed simp

end

section \<open>The proxy of the variant as a marked writer\<close>

text \<open>
  What Boost.JSON documents of its serializer, \<open>pend\<close> being the text it has still to give: a read
  gives some of it, as long as there is any, and the serializer is done when there is none.
\<close>

definition json_laws :: "('j, 'p, 's) json_api \<Rightarrow> ('s \<Rightarrow> string) \<Rightarrow> bool" where
  "json_laws J pend \<longleftrightarrow>
     (\<forall>w n. 0 < n \<longrightarrow>
        (case js_read J w n of (w', t) \<Rightarrow>
           pend w = t @ pend w' \<and> (js_done J w' \<longleftrightarrow> pend w' = []) \<and> (pend w \<noteq> [] \<longrightarrow> t \<noteq> [])))"

text \<open>A writer that can give its body whole: the file is there, with ranges inside it.\<close>

fun proxy_ready :: "('j, 'p, 's) json_api \<Rightarrow> ('s \<Rightarrow> string) \<Rightarrow> nat \<Rightarrow> 's proxy_writer \<Rightarrow> bool" where
  "proxy_ready J pend B (PW_Empty w) \<longleftrightarrow> True"
| "proxy_ready J pend B (PW_String w) \<longleftrightarrow> True"
| "proxy_ready J pend B (PW_Json w) \<longleftrightarrow> json_laws J pend"
| "proxy_ready J pend B (PW_Form w) \<longleftrightarrow> form_writer_inv w"
| "proxy_ready J pend B (PW_File w) \<longleftrightarrow> file_single_inv B w \<or> file_multi_inv B w"
| "proxy_ready J pend B (PW_Query w) \<longleftrightarrow> True"

text \<open>A writer that gives no buffer at all: of no body, of a form without fields, of no bytes of a file.\<close>

fun proxy_silent :: "'s proxy_writer \<Rightarrow> bool" where
  "proxy_silent (PW_Empty w) \<longleftrightarrow> True"
| "proxy_silent (PW_Form w) \<longleftrightarrow> fd_fields (fw_body w) = []"
| "proxy_silent (PW_File w) \<longleftrightarrow> length (fv_ranges (fbw_body w)) \<le> 1 \<and> file_single_rest w = []"
| "proxy_silent w \<longleftrightarrow> False"

definition proxy_inv :: "('j, 'p, 's) json_api \<Rightarrow> ('s \<Rightarrow> string) \<Rightarrow> nat \<Rightarrow> 's proxy_writer \<Rightarrow> bool" where
  "proxy_inv J pend B w \<longleftrightarrow> proxy_ready J pend B w \<and> \<not> proxy_silent w"

fun proxy_rest :: "('s \<Rightarrow> string) \<Rightarrow> 's proxy_writer \<Rightarrow> string" where
  "proxy_rest pend (PW_Empty w) = []"
| "proxy_rest pend (PW_String w) = w"
| "proxy_rest pend (PW_Json w) = pend w"
| "proxy_rest pend (PW_Query w) = w"
| "proxy_rest pend (PW_Form w) = form_writer_rest w"
| "proxy_rest pend (PW_File w) =
     (if length (fv_ranges (fbw_body w)) \<le> 1 then file_single_rest w else file_multi_rest w)"

fun proxy_work :: "('s \<Rightarrow> string) \<Rightarrow> 's proxy_writer \<Rightarrow> nat" where
  "proxy_work pend (PW_Json w) = length (pend w)"
| "proxy_work pend (PW_Form w) = form_writer_work w"
| "proxy_work pend (PW_File w) =
     (if length (fv_ranges (fbw_body w)) \<le> 1 then file_single_work w else file_multi_work w)"
| "proxy_work pend w = 0"

lemma form_writer_get_keeps: "form_writer_get w = (w', r) \<Longrightarrow> fw_body w' = fw_body w"
  by (auto simp: form_writer_get_def Let_def split: writer_step.splits if_splits)

lemma inv_modes:
  "file_single_inv B w \<Longrightarrow> length (fv_ranges (fbw_body w)) \<le> Suc 0"
  "file_multi_inv B w \<Longrightarrow> \<not> length (fv_ranges (fbw_body w)) \<le> Suc 0"
  by (simp_all add: file_single_inv_def file_multi_inv_def Let_def split: prod.splits)

lemma proxy_file_step:
  assumes inv: "proxy_inv J pend B (PW_File w)" and g: "file_writer_get B w = (w', r)"
  shows "\<exists>bs. r = Get_Chunk bs True \<and> proxy_rest pend (PW_File w) = bs @ proxy_rest pend (PW_File w') \<and>
        proxy_inv J pend B (PW_File w') \<and> proxy_work pend (PW_File w') < proxy_work pend (PW_File w) \<or>
      r = Get_Chunk bs False \<and> proxy_rest pend (PW_File w) = bs"
proof (cases "file_multi_inv B w")
  case True
  from file_writer_get_multi [OF True g] obtain bs m where p: "r = Get_Chunk bs m"
    "if m then file_multi_rest w = bs @ file_multi_rest w' \<and> file_multi_inv B w' \<and>
       file_multi_work w' < file_multi_work w
     else file_multi_rest w = bs"
    unfolding multi_progress_def by blast
  then show ?thesis using True by (cases m) (simp_all add: inv_modes(2) [of B] proxy_inv_def)
next
  case False
  with inv have s: "file_single_inv B w" "file_single_rest w \<noteq> []"
    using inv_modes(1) [of B w] by (auto simp: proxy_inv_def)
  from s(1) g show ?thesis
  proof (cases rule: file_writer_get_single)
    case exhausted
    with s show ?thesis by simp
  next
    case (chunk bs m)
    then show ?thesis using s by (cases m) (simp_all add: inv_modes(1) [of B] proxy_inv_def)
  qed
qed

lemma proxy_json_step:
  assumes "json_laws J pend" and "json_writer_get J w = (w', r)"
  shows "\<exists>bs. r = Get_Chunk bs True \<and> pend w = bs @ pend w' \<and> length (pend w') < length (pend w) \<or>
      r = Get_Chunk bs False \<and> pend w = bs"
proof -
  obtain t where t: "js_read J w 32768 = (w', t)" "r = Get_Chunk t (\<not> js_done J w')"
    using assms(2) by (auto simp: json_writer_get_def Let_def split: prod.splits)
  have "case js_read J w 32768 of (w', t) \<Rightarrow>
      pend w = t @ pend w' \<and> (js_done J w' \<longleftrightarrow> pend w' = []) \<and> (pend w \<noteq> [] \<longrightarrow> t \<noteq> [])"
    using assms(1) unfolding json_laws_def by simp
  then have p: "pend w = t @ pend w'" "js_done J w' \<longleftrightarrow> pend w' = []" "pend w \<noteq> [] \<longrightarrow> t \<noteq> []"
    unfolding t(1) prod.case by blast+
  show ?thesis
  proof (cases "pend w' = []")
    case True
    with p t(2) show ?thesis by simp
  next
    case False
    with p have "t \<noteq> []" by (metis append_is_Nil_conv)
    with False p t(2) show ?thesis by (intro exI [of _ t]) simp
  qed
qed

lemma proxy_step:
  assumes inv: "proxy_inv J pend B s" and g: "proxy_writer_get J B s = (s', r)"
  shows "\<exists>bs. r = Get_Chunk bs True \<and> proxy_rest pend s = bs @ proxy_rest pend s' \<and> proxy_inv J pend B s' \<and>
        proxy_work pend s' < proxy_work pend s \<or>
      r = Get_Chunk bs False \<and> proxy_rest pend s = bs"
proof (cases s)
  case (PW_Form w)
  then obtain w' where w': "form_writer_get w = (w', r)" "s' = PW_Form w'"
    using g by (auto simp: map_prod_def split: prod.splits)
  with PW_Form inv have "r \<noteq> Get_None" "\<forall>e. r \<noteq> Get_Error e"
    using form_w.get_no_error [of w w']
    by (auto simp: proxy_inv_def form_writer_defs Let_def split: writer_step.splits if_splits)
  then obtain bs m where "r = Get_Chunk bs m" by (cases r) auto
  with PW_Form inv w' form_w.get_more [of w w' bs] form_w.get_last [of w w' bs]
    form_writer_get_keeps [OF w'(1)] show ?thesis by (cases m) (auto simp: proxy_inv_def)
next
  case (PW_File w)
  then obtain w' where w': "file_writer_get B w = (w', r)" "s' = PW_File w'"
    using g by (auto simp: map_prod_def split: prod.splits)
  then show ?thesis
    using proxy_file_step [OF inv [unfolded PW_File] w'(1)] unfolding PW_File w'(2) by simp
next
  case (PW_Json w)
  then obtain w' where w': "json_writer_get J w = (w', r)" "s' = PW_Json w'"
    using g by (auto simp: map_prod_def split: prod.splits)
  have laws: "json_laws J pend" using inv PW_Json by (simp add: proxy_inv_def)
  show ?thesis
    using proxy_json_step [OF laws w'(1)] laws unfolding PW_Json w'(2) by (simp add: proxy_inv_def)
next
  case (PW_Empty w)
  with inv show ?thesis by (simp add: proxy_inv_def)
next
  case (PW_String w)
  with g show ?thesis by (auto simp: string_writer_get_def)
next
  case (PW_Query w)
  with g show ?thesis by (auto simp: query_writer_get_def)
qed

lemma proxy_silent_get:
  assumes "proxy_ready J pend B w" and "proxy_silent w"
  shows "snd (proxy_writer_get J B w) = Get_None" and "proxy_rest pend w = []"
proof -
  have "snd (proxy_writer_get J B w) = Get_None \<and> proxy_rest pend w = []"
  proof (cases w)
    case (PW_File f)
    with assms have f: "file_single_inv B f" "file_single_rest f = []" "length (fv_ranges (fbw_body f)) \<le> 1"
      using inv_modes(2) [of B f] by auto
    obtain f' r where g: "file_writer_get B f = (f', r)" by fastforce
    from f(1) g have "r = Get_None"
      by (cases rule: file_writer_get_single) (use f(2) in auto)
    with PW_File g f show ?thesis by simp
  qed (use assms in \<open>auto simp: empty_writer_get_def form_writer_get_def form_writer_rest_def Let_def\<close>)
  then show "snd (proxy_writer_get J B w) = Get_None" "proxy_rest pend w = []" by simp_all
qed

interpretation any_w:
  marked_writer "proxy_writer_get J B" "proxy_inv J pend B" "proxy_rest pend" "proxy_work pend"
proof
  fix s s' :: "'c proxy_writer" and bs e
  assume inv: "proxy_inv J pend B s"
  note step = proxy_step [OF inv]
  show "proxy_writer_get J B s = (s', Get_None) \<Longrightarrow> proxy_rest pend s = []"
    by (drule step) auto
  show "proxy_writer_get J B s = (s', Get_Chunk bs False) \<Longrightarrow> proxy_rest pend s = bs"
    by (drule step) auto
  show "proxy_writer_get J B s = (s', Get_Chunk bs True) \<Longrightarrow>
      proxy_rest pend s = bs @ proxy_rest pend s' \<and> proxy_inv J pend B s' \<and>
      proxy_work pend s' < proxy_work pend s"
    by (drule step) auto
  show "proxy_writer_get J B s \<noteq> (s', Get_Error e)"
    by (rule notI, drule step) auto
  show "proxy_writer_get J B s \<noteq> (s', Get_None)"
    by (rule notI, drule step) auto
qed

section \<open>A codec for examples\<close>

text \<open>
  Every byte twice and an odd byte at the end: the decompressor keeps an unpaired byte pending.
\<close>

fun undouble :: "string \<Rightarrow> string \<times> string" where
  "undouble (a # b # s) = (case undouble s of (out, pending) \<Rightarrow> (b # out, pending))"
| "undouble s = ([], s)"

definition doubling :: "(bool \<times> string) filter_api" where
  "doubling =
     \<lparr>filter_open = (\<lambda>f. case f of Compressor_Filter _ \<Rightarrow> (True, []) | Decompressor_Filter _ \<Rightarrow> (False, [])),
      filter_write = (\<lambda>z d. if fst z then (z, concat (map (\<lambda>c. [c, c]) d))
         else (case undouble (snd z @ d) of (out, pending) \<Rightarrow> ((False, pending), out))),
      filter_close = (\<lambda>z. (z, if fst z then ''E'' else []))\<rparr>"

text \<open>JSON values that are their own text.\<close>

definition text_json :: "(string, string, string) json_api" where
  "text_json =
     \<lparr>js_reset = (\<lambda>j. j), js_read = (\<lambda>s n. (drop n s, take n s)), js_done = (\<lambda>s. s = []),
      jp_start = [], jp_write_some = (\<lambda>p d. (p @ d, Inr (length d))), jp_done = (\<lambda>p. True),
      jp_release = (\<lambda>p. p)\<rparr>"

lemma undouble_append:
  "undouble (s @ t) = (fst (undouble s) @ fst (undouble (snd (undouble s) @ t)),
                       snd (undouble (snd (undouble s) @ t)))"
  by (induction s rule: undouble.induct) (auto split: prod.splits)

lemma undouble_double: "fst (undouble (concat (map (\<lambda>c. [c, c]) s) @ ''E'')) = s"
  by (induction s) (auto split: prod.splits)

lemma undouble_pending:
  "snd (undouble (snd (undouble s))) = snd (undouble s)" "length (snd (undouble s)) \<le> length s"
  "snd (undouble s) = s \<Longrightarrow> fst (undouble s) = []"
proof -
  show "snd (undouble (snd (undouble s))) = snd (undouble s)"
    by (induction s rule: undouble.induct) (auto split: prod.splits)
  have le: "length (snd (undouble s)) \<le> length s" for s
    by (induction s rule: undouble.induct) (auto split: prod.splits)
  then show "length (snd (undouble s)) \<le> length s" .
  show "snd (undouble s) = s \<Longrightarrow> fst (undouble s) = []"
  proof (cases s rule: undouble.cases)
    case (1 a b t)
    assume "snd (undouble s) = s"
    with 1 le [of t] show ?thesis by (auto split: prod.splits)
  qed auto
qed

lemma doubling_open:
  "filter_open doubling (Compressor_Filter k) = (True, [])"
  "filter_open doubling (Decompressor_Filter k) = (False, [])"
  by (simp_all add: doubling_def)

lemma doubling_compress:
  "filter_run doubling (True, p) ds = concat (map (\<lambda>c. [c, c]) (concat ds)) @ ''E''"
  by (induction ds) (simp_all add: doubling_def)

lemma doubling_decompress:
  "snd (undouble q) = q \<Longrightarrow> filter_run doubling (False, q) ds = fst (undouble (q @ concat ds))"
proof (induction ds arbitrary: q)
  case Nil
  then show ?case by (simp add: doubling_def undouble_pending(3))
next
  case (Cons d ds)
  obtain out pending where u: "undouble (q @ d) = (out, pending)" by fastforce
  then have "snd (undouble pending) = pending" using undouble_pending(1) [of "q @ d"] by simp
  from Cons.IH [OF this] u undouble_append [of "q @ d" "concat ds"] show ?case
    by (simp add: doubling_def)
qed

lemma doubling_laws: "lossless doubling k" "flushes doubling (filter_open doubling (Compressor_Filter k))"
proof -
  show "lossless doubling k"
    by (simp add: lossless_def doubling_open doubling_compress doubling_decompress undouble_double)
  have "foldl (\<lambda>z d. fst (filter_write doubling z d)) (True, []) cs = (True, [])" for cs
    by (induction cs) (simp_all add: doubling_def)
  moreover have "snd (filter_close doubling (True, [])) \<noteq> []" by (simp add: doubling_def)
  ultimately show "flushes doubling (filter_open doubling (Compressor_Filter k))"
    by (simp add: flushes_def doubling_open)
qed

section \<open>Reading a compressed string\<close>

lemma any_feed_string:
  assumes z: "cz_stream c = Some z" "cz_buffer c = []"
    and fit: "length body + length (filter_run F z segs) \<le> max_size"
  shows "\<exists>r. any_feed F J max_size (PR_String body, Some c) segs = (r, None) \<and>
           any_reader_finish F J max_size r = Inr (Inr (V_String (body @ filter_run F z segs)))"
  using assms
proof (induction segs arbitrary: body c z)
  case Nil
  obtain z' out where cl: "filter_close F z = (z', out)" by (cases "filter_close F z")
  with Nil show ?case
    by (auto simp: any_reader_finish_def compressor_finish_def compressor_buffer_def Let_def
        string_reader_put_def)
next
  case (Cons seg segs)
  obtain z' out where fw: "filter_write F z seg = (z', out)" by (cases "filter_write F z seg")
  let ?c = "c\<lparr>cz_buffer := [], cz_stream := Some z'\<rparr>"
  have cw: "compressor_write F seg True c = c\<lparr>cz_buffer := out, cz_stream := Some z'\<rparr>"
    using compressor_write_more [OF Cons.prems(1) fw] Cons.prems(2) by simp
  have "any_reader_put F J max_size (PR_String body, Some c) seg =
      ((PR_String (body @ out), Some ?c), length seg, None)"
    using Cons.prems(2,3) fw
    by (cases "out = []") (auto simp: any_reader_put_def cw compressor_buffer_def Let_def
        string_reader_put_def compressor_consume_def)
  moreover have "\<exists>r. any_feed F J max_size (PR_String (body @ out), Some ?c) segs = (r, None) \<and>
      any_reader_finish F J max_size r = Inr (Inr (V_String ((body @ out) @ filter_run F z' segs)))"
    using Cons.prems(3) fw by (intro Cons.IH) simp_all
  ultimately show ?case using fw by simp
qed

lemma factory_create_init:
  "is_supported_encoding cs enc \<Longrightarrow>
   \<exists>k. map_of cs enc = Some k \<and>
     map_option (compressor_init F m) (factory_create cs enc) =
       Some \<lparr>cz_codec = k, cz_buffer = [], cz_stream = Some (filter_open F (init_filtering_ostreambuf k m))\<rparr>"
  by (auto simp: is_supported_encoding_def factory_create_def compressor_init_def)

lemma encode_filter: "init_filtering_ostreambuf k Encode = Compressor_Filter k"
  by (cases k) (simp_all add: brotli_compressor_def)

lemma decode_filter: "k \<noteq> Brotli \<Longrightarrow> init_filtering_ostreambuf k Decode = Decompressor_Filter k"
  by (cases k) simp_all

text \<open>A string sent under an encoding, and what a reader makes of text that arrives under one.\<close>

lemma string_sent:
  assumes "is_supported_encoding cs enc" and "map_of cs enc = Some k"
    and "flushes F (filter_open F (Compressor_Filter k))"
    and "any_drain F (proxy_writer_get J B) 1
           (any_writer_init F cs enc (create_proxy_writer J junk (V_String data))) = Some (text, e)"
  obtains chunks where "concat chunks = data" "text = filter_run F (filter_open F (Compressor_Filter k)) chunks"
proof -
  let ?w = "create_proxy_writer J junk (V_String data)"
  let ?e = "\<lparr>cz_codec = k, cz_buffer = [], cz_stream = Some (filter_open F (Compressor_Filter k))\<rparr>"
  have "any_writer_init F cs enc ?w = (?w, Some ?e)"
    using factory_create_init [OF assms(1), of F Encode] assms(2)
    by (auto simp: any_writer_init_def encode_filter)
  moreover obtain chunks where "concat chunks = data"
    "any_drain F (proxy_writer_get J B) 1 (?w, Some ?e) =
       Some (filter_run F (filter_open F (Compressor_Filter k)) chunks, None)"
    using any_w.compressed_drain [of J "\<lambda>_. []" B ?w ?e _ F 1] assms(3) by (auto simp: proxy_inv_def)
  ultimately show thesis using that assms(4) by simp
qed

lemma string_read:
  assumes "is_supported_encoding cs enc" and "map_of cs enc = Some k"
    and "\<not> starts_with ''multipart/form-data'' ct" and "\<not> starts_with ''application/json'' ct"
    and "\<not> starts_with ''application/x-www-form-urlencoded'' ct"
    and "filter_run F (filter_open F (init_filtering_ostreambuf k Decode)) segs = body" and "length body \<le> max_size"
  shows "\<exists>r r'. any_reader_init F cs J max_size ct enc None V_Empty = (r, None) \<and>
           any_feed F J max_size r segs = (r', None) \<and>
           any_reader_finish F J max_size r' = Inr (Inr (V_String body))"
proof -
  let ?d = "\<lparr>cz_codec = k, cz_buffer = [], cz_stream = Some (filter_open F (init_filtering_ostreambuf k Decode))\<rparr>"
  have "\<exists>r'. any_feed F J max_size (PR_String [], Some ?d) segs = (r', None) \<and>
      any_reader_finish F J max_size r' = Inr (Inr (V_String body))"
    using any_feed_string [of ?d _ "[]" F segs max_size J] assms(6,7) by simp
  moreover have "any_reader_init F cs J max_size ct enc None V_Empty = ((PR_String [], Some ?d), None)"
    using factory_create_init [OF assms(1), of F Decode] assms(2-5)
    by (auto simp: any_reader_init_def create_proxy_reader_def create_string_reader_def string_reader_init_def)
  ultimately show ?thesis by auto
qed

text \<open>Without an encoding the writer and the reader of the kind are all there is.\<close>

lemma any_drain_plain: "any_drain F get n (w, None) = drain get n w"
  by (induction n arbitrary: w) (auto simp: any_writer_get_def split: prod.splits get_result.splits)

lemma drain_file: "drain (proxy_writer_get J B) n (PW_File w) = drain (file_writer_get B) n w"
  by (induction n arbitrary: w) (auto split: prod.splits get_result.splits)

lemma any_feed_plain:
  assumes "length body + length (concat segs) \<le> max_size"
  shows "any_feed F J max_size (PR_String body, None) segs = ((PR_String (body @ concat segs), None), None)"
  using assms
  by (induction segs arbitrary: body) (auto simp: any_reader_put_def string_reader_put_def)

lemma plain_string_read:
  assumes "factory_create cs enc = (None :: 'z compressor option)" and "read_as_text ct"
    and "len = None \<or> len = Some (length (concat segs))" and "length (concat segs) \<le> max_size"
  shows "\<exists>r r'. any_reader_init (F :: 'z filter_api) cs J max_size ct enc len V_Empty = (r, None) \<and>
           any_feed F J max_size r segs = (r', None) \<and>
           any_reader_finish F J max_size r' = Inr (Inr (V_String (concat segs)))"
proof -
  have "any_reader_init F cs J max_size ct enc len V_Empty = ((PR_String [], None), None)"
    using assms
    by (auto simp: any_reader_init_def create_proxy_reader_def create_string_reader_def string_reader_init_def
        read_as_text_def)
  then show ?thesis using any_feed_plain [of "[]" segs max_size F J] assms(4)
    by (simp add: any_reader_finish_def)
qed

text \<open>What is sent under an encoding, for the body of every kind.\<close>

lemma any_body_sent:
  assumes "is_supported_encoding cs enc" and "map_of cs enc = Some k"
    and "lossless F k" and "flushes F (filter_open F (Compressor_Filter k))"
    and "w = create_proxy_writer J junk v" and "proxy_ready J pend B w" and "proxy_work pend w < n"
  shows "drain (proxy_writer_get J B) n w = Some (proxy_rest pend w, None) \<and>
    (if proxy_silent w
     then proxy_rest pend w = [] \<and>
       any_drain F (proxy_writer_get J B) n (any_writer_init F cs enc w) = Some ([], None)
     else \<exists>text. any_drain F (proxy_writer_get J B) n (any_writer_init F cs enc w) = Some (text, None) \<and>
       (\<forall>segs. concat segs = text \<longrightarrow>
          filter_run F (filter_open F (Decompressor_Filter k)) segs = proxy_rest pend w))"
proof -
  let ?c = "\<lparr>cz_codec = k, cz_buffer = [], cz_stream = Some (filter_open F (Compressor_Filter k))\<rparr>"
  have init: "any_writer_init F cs enc w = (w, Some ?c)"
    using factory_create_init [OF assms(1), of F Encode] assms(2)
    by (auto simp: any_writer_init_def encode_filter)
  show ?thesis
  proof (cases "proxy_silent w")
    case True
    note silent = proxy_silent_get [OF assms(6) True]
    obtain m where n: "n = Suc m" using assms(7) by (cases n) auto
    obtain w' where "proxy_writer_get J B w = (w', Get_None)" using silent(1) by (cases "proxy_writer_get J B w") auto
    then show ?thesis using True silent(2) init
      by (simp add: n any_writer_get_def compress_loop.simps)
  next
    case False
    then have inv: "proxy_inv J pend B w" using assms(6) by (simp add: proxy_inv_def)
    obtain chunks where "concat chunks = proxy_rest pend w"
      "any_drain F (proxy_writer_get J B) n (w, Some ?c) =
         Some (filter_run F (filter_open F (Compressor_Filter k)) chunks, None)"
      using any_w.compressed_drain [OF inv _ assms(4,7), of ?c] by auto
    moreover have "drain (proxy_writer_get J B) n w = Some (proxy_rest pend w, None)"
      by (rule any_w.drain_rest [OF inv assms(7)])
    ultimately show ?thesis using assms(3) False init by (auto simp: lossless_def)
  qed
qed

section \<open>Properties\<close>


lemma text_json_laws: "json_laws text_json (\<lambda>s. s)"
  by (simp add: json_laws_def text_json_def)


text \<open>
  C6. A string written under an encoding and read back under the same encoding, in any segments, is the
  string, unless the encoding is that of brotli: then the reader, which has a second compressor
  instead of a decompressor, hands out the text compressed once more. This is if what comes out fits
  the limit of the reader.
\<close>

theorem compressed_string_roundtrip:
  assumes "is_supported_encoding cs enc" and "map_of cs enc = Some k"
    and "lossless F k" and "flushes F (filter_open F (Compressor_Filter k))"
    and "\<not> starts_with ''multipart/form-data'' ct" and "\<not> starts_with ''application/json'' ct"
    and "\<not> starts_with ''application/x-www-form-urlencoded'' ct"
    and "any_drain F (proxy_writer_get J B) 1
           (any_writer_init F cs enc (create_proxy_writer J junk (V_String data))) = Some (text, e)"
    and "concat segs = text"
    and "body = (if k = Brotli then filter_run F (filter_open F (Compressor_Filter Brotli)) segs else data)"
    and "length body \<le> max_size"
  shows "\<exists>r r'. any_reader_init F cs J max_size ct enc None V_Empty = (r, None) \<and>
           any_feed F J max_size r segs = (r', None) \<and>
           any_reader_finish F J max_size r' = Inr (Inr (V_String body))"
proof -
  obtain chunks where "concat chunks = data" "text = filter_run F (filter_open F (Compressor_Filter k)) chunks"
    by (rule string_sent [OF assms(1,2,4,8)])
  then have "filter_run F (filter_open F (init_filtering_ostreambuf k Decode)) segs = body"
    using assms(3,9,10) by (auto simp: lossless_def decode_filter brotli_decompressor_def)
  from string_read [OF assms(1,2,5-7) this assms(11)] show ?thesis .
qed

theorem compressed_string_roundtrip_witness:
  "(\<exists>r r'. any_reader_init doubling (compressor_factory True) text_json 100 ''text/plain'' ''gzip'' None V_Empty =
       (r, None) \<and>
     any_feed doubling text_json 100 r [''hhi'', ''iE''] = (r', None) \<and>
     any_reader_finish doubling text_json 100 r' = Inr (Inr (V_String ''hi''))) \<and>
   (\<exists>r r'. any_reader_init doubling (compressor_factory True) text_json 100 ''text/plain'' ''br'' None V_Empty =
       (r, None) \<and>
     any_feed doubling text_json 100 r [''hhi'', ''iE''] = (r', None) \<and>
     any_reader_finish doubling text_json 100 r' = Inr (Inr (V_String ''hhhhiiiiEEE'')))"
proof -
  have sent: "any_drain doubling (proxy_writer_get text_json 4096) 1
      (any_writer_init doubling (compressor_factory True) enc
        (create_proxy_writer text_json 0 (V_String ''hi''))) = Some (''hhiiE'', None)"
    if "enc \<in> {''gzip'', ''br''}" for enc
    using that
    by (auto simp: any_writer_init_def factory_create_def factory_lookup compressor_init_def
        any_writer_get_def compress_loop.simps string_writer_get_def compressor_write_def
        compressor_finish_def compressor_consume_all_def compressor_consume_def
        compressor_buffer_def encode_filter doubling_def)
  have br: "filter_run doubling (filter_open doubling (Compressor_Filter Brotli)) [''hhi'', ''iE''] = ''hhhhiiiiEEE''"
    by (simp add: doubling_def)
  then show ?thesis
    using compressed_string_roundtrip [OF _ _ _ _ _ _ _ sent, of "''gzip''" Gzip "''text/plain''" "[''hhi'', ''iE'']" "''hi''" 100]
      compressed_string_roundtrip [OF _ _ _ _ _ _ _ sent, of "''br''" Brotli "''text/plain''" "[''hhi'', ''iE'']" "''hhhhiiiiEEE''" 100]
    by (simp add: doubling_laws is_supported_encoding_def factory_lookup br
        del: filter_run.simps any_feed.simps)
qed

text \<open>
  A form that arrives under a supported encoding in one segment is refused as incomplete,
  whatever its fields are, although the decompressor gives the complete text: \<open>put\<close> and
  \<open>finish\<close> hand the decoded bytes to the form reader once each, which takes one boundary line
  and one part header.
\<close>

theorem compressed_form_refused:
  assumes "is_supported_encoding cs enc" and "map_of cs enc = Some k" and "boundary_ok b"
    and "filter_write F (filter_open F (init_filtering_ostreambuf k Decode)) text = (z, form_text b fs)"
    and "filter_close F z = (z', [])" and "fs \<noteq> []"
  shows "\<exists>r r'. any_reader_init F cs J max_size (''multipart/form-data; boundary='' @ b) enc None V_Empty =
             (r, None) \<and>
           any_feed F J max_size r [text] = (r', None) \<and>
           any_reader_finish F J max_size r' = Inr (Inl Partial_Message)"
proof -
  let ?body = "\<lparr>fd_fields = [], fd_boundary = []\<rparr>"
  let ?r = "(form_reader_new (''multipart/form-data; boundary='' @ b) ?body)\<lparr>fr_boundary := b\<rparr>"
  let ?d = "\<lparr>cz_codec = k, cz_buffer = [],
             cz_stream = Some (filter_open F (init_filtering_ostreambuf k Decode))\<rparr>"
  obtain f fs' where fs: "fs = f # fs'" using assms(6) by (cases fs) auto
  then obtain t where t: "form_text b fs = boundary_line b @ t" by simp
  let ?r1 = "?r\<lparr>fr_step := Boundary_Header\<rparr>"
  let ?d1 = "?d\<lparr>cz_buffer := t, cz_stream := Some z\<rparr>"
  have init: "any_reader_init F cs J max_size (''multipart/form-data; boundary='' @ b) enc None V_Empty =
      ((PR_Form ?r, Some ?d), None)"
    using factory_create_init [OF assms(1), of F Decode] assms(2) form_reader_init_ok [OF assms(3)]
    by (auto simp: any_reader_init_def create_proxy_reader_def create_form_reader_def)
  have ne: "boundary_line b @ t \<noteq> []" by (simp add: boundary_line_def)
  have "form_reader_put ?r (boundary_line b @ t) = (?r1, Inr (length (boundary_line b)))"
    by (simp add: form_reader_put_def put_boundary_line_def boundary_line_def boundary_line_last_def
        form_reader_new_def Let_def)
  then have "any_feed F J max_size (PR_Form ?r, Some ?d) [text] = ((PR_Form ?r1, Some ?d1), None)"
    using assms(4) ne
    by (simp add: any_reader_put_def compressor_write_def compressor_buffer_def compressor_consume_def t)
  moreover have "fr_step (fst (form_reader_put ?r1 t)) \<noteq> R_Eof"
    by (auto simp: form_reader_put_def put_boundary_header_def Let_def split: option.splits sum.splits)
  then have "any_reader_finish F J max_size (PR_Form ?r1, Some ?d1) = Inr (Inl Partial_Message)"
    using assms(5)
    by (auto simp: any_reader_finish_def compressor_finish_def compressor_buffer_def
        form_reader_finish_def map_prod_def split: prod.splits)
  ultimately show ?thesis using init by blast
qed

theorem compressed_form_refused_witness:
  "\<exists>r r'. any_reader_init doubling (compressor_factory True) text_json 100
       (''multipart/form-data; boundary='' @ ''XX'') ''gzip'' None V_Empty = (r, None) \<and>
     any_feed doubling text_json 100 r
       [concat (map (\<lambda>c. [c, c]) (form_text ''XX'' [empty_field])) @ ''E''] = (r', None) \<and>
     any_reader_finish doubling text_json 100 r' = Inr (Inl Partial_Message)"
proof -
  obtain out pending where u: "undouble (concat (map (\<lambda>c. [c, c]) (form_text ''XX'' [empty_field])) @ ''E'') =
      (out, pending)" by fastforce
  then have "out = form_text ''XX'' [empty_field]"
    using undouble_double [of "form_text ''XX'' [empty_field]"] by simp
  with u have w: "filter_write doubling (filter_open doubling (init_filtering_ostreambuf Gzip Decode))
      (concat (map (\<lambda>c. [c, c]) (form_text ''XX'' [empty_field])) @ ''E'') =
      ((False, pending), form_text ''XX'' [empty_field])"
    by (simp add: doubling_def)
  show ?thesis
    by (rule compressed_form_refused [OF _ _ _ w])
       (simp_all add: is_supported_encoding_def factory_lookup boundary_ok_def trim_def isspace_def
         doubling_def)
qed

end
