(* ===== verification/Brotli.thy ===== *)
theory Brotli
  imports Compressor
begin

text \<open>
  The two filters of \<open>lib/body/brotli.hpp\<close>: the compressor and the decompressor that
  \<open>boost::iostreams::symmetric\_filter\<close> drives. The brotli library is the parameter
  \<open>brotli\_api\<close>, each of its functions a field; pointers into buffers are the bytes that are left to
  read and the bytes that were written.
\<close>

section \<open>The library\<close>

datatype brotli_operation = Operation_Process | Operation_Finish

datatype brotli_result = Result_Success | Result_Needs_More_Input | Result_Needs_More_Output | Result_Error

text \<open>
  A call takes the input and the room for output; it gives the new state, the input that is left and
  the output, or nothing when it fails.
\<close>

record ('e, 'd) brotli_api =
  encoder_create :: "nat \<Rightarrow> 'e option"
  encoder_stream :: "brotli_operation \<Rightarrow> string \<Rightarrow> nat \<Rightarrow> 'e \<Rightarrow> ('e \<times> string \<times> string) option"
  encoder_has_more_output :: "'e \<Rightarrow> bool"
  encoder_is_finished :: "'e \<Rightarrow> bool"
  decoder_create :: "'d option"
  decoder_stream :: "string \<Rightarrow> nat \<Rightarrow> 'd \<Rightarrow> 'd \<times> string \<times> string \<times> brotli_result"
  decoder_error_code :: "'d \<Rightarrow> int"

section \<open>The compressor\<close>

definition brotli_compressor_impl :: "('e, 'd) brotli_api \<Rightarrow> nat \<Rightarrow> 'e result" where
  "brotli_compressor_impl Z quality =
     (case encoder_create Z quality of
        None \<Rightarrow> Inl (Runtime_Error ''Failed to create Brotli encoder'')
      | Some e \<Rightarrow> Inr e)"

text \<open>The state, the input left, the output and whether it wants to be called again.\<close>

definition compressor_filter ::
  "('e, 'd) brotli_api \<Rightarrow> string \<Rightarrow> nat \<Rightarrow> bool \<Rightarrow> 'e \<Rightarrow> ('e \<times> string \<times> string \<times> bool) result" where
  "compressor_filter Z src room flush e =
     (case encoder_stream Z (if flush then Operation_Finish else Operation_Process) src room e of
        None \<Rightarrow> Inl (Runtime_Error ''Brotli compression failed'')
      | Some (e', src', out) \<Rightarrow> Inr (e', src', out, encoder_has_more_output Z e'))"

text \<open>
  \<open>close\<close> goes on until the encoder is finished, but gives it no room for output; a loop that never
  ends is \<open>None\<close>.
\<close>

partial_function (option) compressor_close_loop ::
  "('e, 'd) brotli_api \<Rightarrow> 'e \<Rightarrow> 'e result option" where
  "compressor_close_loop Z e =
     (if encoder_is_finished Z e then Some (Inr e)
      else case encoder_stream Z Operation_Finish [] 0 e of
             None \<Rightarrow> Some (Inl (Runtime_Error ''Brotli finalization failed''))
           | Some (e', src', out) \<Rightarrow> compressor_close_loop Z e')"

definition compressor_close :: "('e, 'd) brotli_api \<Rightarrow> 'e \<Rightarrow> 'e result option" where
  "compressor_close Z e = (if encoder_is_finished Z e then Some (Inr e) else compressor_close_loop Z e)"

section \<open>The decompressor\<close>

definition brotli_decompressor_impl :: "('e, 'd) brotli_api \<Rightarrow> 'd result" where
  "brotli_decompressor_impl Z =
     (case decoder_create Z of
        None \<Rightarrow> Inl (Runtime_Error ''Failed to create Brotli decoder'')
      | Some d \<Rightarrow> Inr d)"

definition decompressor_filter ::
  "('e, 'd) brotli_api \<Rightarrow> string \<Rightarrow> nat \<Rightarrow> bool \<Rightarrow> 'd \<Rightarrow> ('d \<times> string \<times> string \<times> bool) result" where
  "decompressor_filter Z src room flush d =
     (case decoder_stream Z src room d of
        (d', src', out, r) \<Rightarrow>
          (case r of
             Result_Needs_More_Input \<Rightarrow> Inr (d', src', out, False)
           | Result_Needs_More_Output \<Rightarrow> Inr (d', src', out, True)
           | Result_Success \<Rightarrow> Inr (d', src', out, False)
           | Result_Error \<Rightarrow> Inl (Runtime_Error ''Brotli decompression error'')))"

text \<open>The error code is compared with the value 1 of \<open>BROTLI\_DECODER\_RESULT\_SUCCESS\<close>.\<close>

definition decompressor_close :: "('e, 'd) brotli_api \<Rightarrow> 'd \<Rightarrow> unit result" where
  "decompressor_close Z d =
     (if decoder_error_code Z d \<noteq> 1 then Inl (Runtime_Error ''Brotli decompression closed with error'')
      else Inr ())"

section \<open>Driving the compressor\<close>

text \<open>
  What the library documents of the operation that finishes: an encoder holds the output it has pending
  (\<open>pend\<close>); finishing takes all the input there is, gives out as much as fits of what is pending,
  and is finished when nothing is.
\<close>

definition finish_laws :: "('e, 'd) brotli_api \<Rightarrow> ('e \<Rightarrow> string) \<Rightarrow> bool" where
  "finish_laws Z pend \<longleftrightarrow>
     (\<forall>e room. \<exists>e'. encoder_stream Z Operation_Finish [] room e = Some (e', [], take room (pend e)) \<and>
        pend e' = drop room (pend e) \<and>
        encoder_has_more_output Z e' = (pend e' \<noteq> []) \<and> encoder_is_finished Z e' = (pend e' = []))"

text \<open>
  How a symmetric filter is closed: it is called in flush mode with what input is left until it
  does not want to be called again, each time with a buffer of room; then it is closed.
\<close>

fun flush_calls :: "('e, 'd) brotli_api \<Rightarrow> nat \<Rightarrow> nat \<Rightarrow> 'e \<Rightarrow> ('e \<times> string) result option" where
  "flush_calls Z 0 room e = None"
| "flush_calls Z (Suc n) room e =
     (case compressor_filter Z [] room True e of
        Inl f \<Rightarrow> Some (Inl f)
      | Inr (e', _, out, again) \<Rightarrow>
          if again then map_option (rmap (\<lambda>(e'', out'). (e'', out @ out'))) (flush_calls Z n room e')
          else Some (Inr (e', out)))"

lemma finish_step:
  assumes "finish_laws Z pend"
  obtains e' where "encoder_stream Z Operation_Finish [] room e = Some (e', [], take room (pend e))"
    "pend e' = drop room (pend e)" "encoder_has_more_output Z e' = (pend e' \<noteq> [])"
    "encoder_is_finished Z e' = (pend e' = [])"
  using assms unfolding finish_laws_def by blast

lemma flush_calls_all:
  assumes "finish_laws Z pend" and "0 < room"
  shows "length (pend e) < n \<Longrightarrow>
    \<exists>e'. flush_calls Z n room e = Some (Inr (e', pend e)) \<and> encoder_is_finished Z e'"
proof (induction n arbitrary: e)
  case (Suc n)
  obtain e1 where e1: "encoder_stream Z Operation_Finish [] room e = Some (e1, [], take room (pend e))"
    "pend e1 = drop room (pend e)" "encoder_has_more_output Z e1 = (pend e1 \<noteq> [])"
    "encoder_is_finished Z e1 = (pend e1 = [])"
    by (rule finish_step [OF assms(1)])
  show ?case
  proof (cases "pend e1 = []")
    case True
    then show ?thesis using e1 by (simp add: compressor_filter_def)
  next
    case False
    then have "length (pend e1) < n" using Suc.prems e1(2) assms(2) by (cases "pend e") auto
    from Suc.IH [OF this] e1 False show ?thesis by (auto simp: compressor_filter_def)
  qed
qed simp

lemma close_loop_pending:
  fixes pend :: "'e \<Rightarrow> string" and Z :: "('e, 'd) brotli_api"
  shows "compressor_close_loop Z e = Some y \<Longrightarrow> finish_laws Z pend \<longrightarrow> encoder_is_finished Z e \<or> pend e = []"
proof (erule compressor_close_loop.raw_induct [rotated], intro impI)
  fix f :: "('e, 'd) brotli_api \<Rightarrow> 'e \<Rightarrow> 'e result option" and Z e y
  assume IH: "\<And>Z e y. f Z e = Some y \<Longrightarrow> finish_laws Z pend \<longrightarrow> encoder_is_finished Z e \<or> pend e = []"
    and run: "(if encoder_is_finished Z e then Some (Inr e)
      else case encoder_stream Z Operation_Finish [] 0 e of
             None \<Rightarrow> Some (Inl (Runtime_Error ''Brotli finalization failed''))
           | Some (e', src', out) \<Rightarrow> f Z e') = Some y"
    and laws: "finish_laws Z pend"
  obtain e' where e': "encoder_stream Z Operation_Finish [] 0 e = Some (e', [], [])" "pend e' = pend e"
    "encoder_is_finished Z e' = (pend e' = [])"
    by (rule finish_step [OF laws, of 0 e]) simp
  show "encoder_is_finished Z e \<or> pend e = []"
  proof (cases "encoder_is_finished Z e")
    case False
    then have "f Z e' = Some y" using run e'(1) by simp
    from IH [OF this] laws have "encoder_is_finished Z e' \<or> pend e' = []" by simp
    then show ?thesis using e'(2,3) by simp
  qed simp
qed

section \<open>Properties\<close>

text \<open>
  Finishing a compressed body: flushing the filter call by call, whatever the room of the buffer, gives
  out all that the encoder has pending and asks for no more calls after it; closing it then does
  nothing.
\<close>

theorem brotli_flush_then_close:
  assumes "finish_laws Z pend" and "0 < room" and "length (pend e) < n"
  shows "\<exists>e'. flush_calls Z n room e = Some (Inr (e', pend e)) \<and> compressor_close Z e' = Some (Inr e')"
  using flush_calls_all [OF assms] by (auto simp: compressor_close_def)

text \<open>
  Closing a compressor that was not flushed never returns when the encoder has output pending: the loop
  gives the encoder no room, so nothing changes from one round to the next.
\<close>

theorem brotli_close_unflushed:
  assumes "finish_laws Z pend" and "pend e \<noteq> []" and "\<not> encoder_is_finished Z e"
  shows "compressor_close Z e = None"
proof (rule ccontr)
  assume "compressor_close Z e \<noteq> None"
  then obtain y where "compressor_close_loop Z e = Some y"
    unfolding compressor_close_def if_not_P [OF assms(3)] not_None_eq ..
  from close_loop_pending [OF this, of pend] assms show False by simp
qed

text \<open>An encoder that keeps what it is given and gives it out when it finishes.\<close>

definition keeping_api :: "(string, unit) brotli_api" where
  "keeping_api =
     \<lparr>encoder_create = (\<lambda>q. Some []),
      encoder_stream = (\<lambda>op src room e.
        case op of Operation_Process \<Rightarrow> Some (e @ src, [], [])
        | Operation_Finish \<Rightarrow> Some (drop room (e @ src), [], take room (e @ src))),
      encoder_has_more_output = (\<lambda>e. e \<noteq> []), encoder_is_finished = (\<lambda>e. e = []),
      decoder_create = None, decoder_stream = (\<lambda>src room d. (d, src, [], Result_Error)),
      decoder_error_code = (\<lambda>d. 0)\<rparr>"

lemma keeping_laws: "finish_laws keeping_api (\<lambda>e. e)"
  by (simp add: finish_laws_def keeping_api_def)

theorem brotli_flush_then_close_witness:
  "\<exists>e'. flush_calls keeping_api 6 2 ''hello'' = Some (Inr (e', ''hello'')) \<and>
     compressor_close keeping_api e' = Some (Inr e')"
  by (rule brotli_flush_then_close [OF keeping_laws]) simp_all

theorem brotli_close_unflushed_witness: "compressor_close keeping_api ''hello'' = None"
  by (rule brotli_close_unflushed [OF keeping_laws]) (simp_all add: keeping_api_def)

end
