(* ===== verification/Http_Message.thy ===== *)
theory Http_Message
  imports Any_Body
begin

text \<open>
  The parts of Boost.Beast's messages that the server and the client use. The header container
  \<open>http::fields\<close> and the functions that keep the framing fields (Content-Length,
  Transfer-Encoding, Connection) are not under src/: they are the parameter \<open>fields\_api\<close>,
  and \<open>fields\_laws\<close> states what the code relies on of their documentation. Requests and
  responses are records over it (\<open>include/httplib/server/request.hpp\<close>,
  \<open>response.hpp\<close>).
\<close>

section \<open>Methods and fields\<close>

text \<open>The methods of Beast's \<open>http::verb\<close> and their texts.\<close>

datatype verb =
    V_unknown | V_delete | V_get | V_head | V_post | V_put | V_connect | V_options
  | V_trace | V_copy | V_lock | V_mkcol | V_move | V_propfind | V_proppatch | V_search
  | V_unlock | V_bind | V_rebind | V_unbind | V_acl | V_report | V_mkactivity
  | V_checkout | V_merge | V_msearch | V_notify | V_subscribe | V_unsubscribe | V_patch
  | V_purge | V_mkcalendar | V_link | V_unlink

fun verb_string :: "verb \<Rightarrow> string" where
  "verb_string V_unknown = ''<unknown>''"
| "verb_string V_delete = ''DELETE''"
| "verb_string V_get = ''GET''"
| "verb_string V_head = ''HEAD''"
| "verb_string V_post = ''POST''"
| "verb_string V_put = ''PUT''"
| "verb_string V_connect = ''CONNECT''"
| "verb_string V_options = ''OPTIONS''"
| "verb_string V_trace = ''TRACE''"
| "verb_string V_copy = ''COPY''"
| "verb_string V_lock = ''LOCK''"
| "verb_string V_mkcol = ''MKCOL''"
| "verb_string V_move = ''MOVE''"
| "verb_string V_propfind = ''PROPFIND''"
| "verb_string V_proppatch = ''PROPPATCH''"
| "verb_string V_search = ''SEARCH''"
| "verb_string V_unlock = ''UNLOCK''"
| "verb_string V_bind = ''BIND''"
| "verb_string V_rebind = ''REBIND''"
| "verb_string V_unbind = ''UNBIND''"
| "verb_string V_acl = ''ACL''"
| "verb_string V_report = ''REPORT''"
| "verb_string V_mkactivity = ''MKACTIVITY''"
| "verb_string V_checkout = ''CHECKOUT''"
| "verb_string V_merge = ''MERGE''"
| "verb_string V_msearch = ''M-SEARCH''"
| "verb_string V_notify = ''NOTIFY''"
| "verb_string V_subscribe = ''SUBSCRIBE''"
| "verb_string V_unsubscribe = ''UNSUBSCRIBE''"
| "verb_string V_patch = ''PATCH''"
| "verb_string V_purge = ''PURGE''"
| "verb_string V_mkcalendar = ''MKCALENDAR''"
| "verb_string V_link = ''LINK''"
| "verb_string V_unlink = ''UNLINK''"

datatype field =
    F_accept | F_accept_encoding | F_accept_ranges | F_allow | F_cache_control | F_content_encoding
  | F_content_range | F_content_type | F_date | F_etag | F_expect | F_host | F_if_modified_since
  | F_if_none_match | F_last_modified | F_location | F_range | F_server | F_user_agent
  | F_x_forwarded_for

section \<open>The header container\<close>

record 'f fields_api =
  fa_empty :: 'f
  fa_set :: "field \<Rightarrow> string \<Rightarrow> 'f \<Rightarrow> 'f"
  fa_find :: "'f \<Rightarrow> field \<Rightarrow> string option"
  fa_set_content_length :: "nat \<Rightarrow> 'f \<Rightarrow> 'f"
  fa_content_length :: "'f \<Rightarrow> nat option"
  fa_set_chunked :: "bool \<Rightarrow> 'f \<Rightarrow> 'f"
  fa_chunked :: "'f \<Rightarrow> bool"
  fa_set_keep_alive :: "nat \<Rightarrow> bool \<Rightarrow> 'f \<Rightarrow> 'f"
  fa_keep_alive :: "nat \<Rightarrow> 'f \<Rightarrow> bool"

text \<open>\<open>operator[]\<close>: the value of a field, empty when it is absent.\<close>

definition fa_get :: "'f fields_api \<Rightarrow> 'f \<Rightarrow> field \<Rightarrow> string" where
  "fa_get A f n = (case fa_find A f n of None \<Rightarrow> [] | Some v \<Rightarrow> v)"

definition fields_laws :: "'f fields_api \<Rightarrow> bool" where
  "fields_laws A \<longleftrightarrow>
     (\<forall>n. fa_find A (fa_empty A) n = None) \<and>
     (\<forall>f n m v. fa_find A (fa_set A n v f) m = (if m = n then Some v else fa_find A f m)) \<and>
     (\<forall>f n v. fa_content_length A (fa_set A n v f) = fa_content_length A f) \<and>
     (\<forall>f n v. fa_chunked A (fa_set A n v f) = fa_chunked A f) \<and>
     (\<forall>f n v ver. fa_keep_alive A ver (fa_set A n v f) = fa_keep_alive A ver f) \<and>
     (\<forall>f k n. fa_find A (fa_set_content_length A k f) n = fa_find A f n) \<and>
     (\<forall>f k. fa_content_length A (fa_set_content_length A k f) = Some k) \<and>
     (\<forall>f k. \<not> fa_chunked A (fa_set_content_length A k f)) \<and>
     (\<forall>f k ver. fa_keep_alive A ver (fa_set_content_length A k f) = fa_keep_alive A ver f) \<and>
     (\<forall>f b n. fa_find A (fa_set_chunked A b f) n = fa_find A f n) \<and>
     (\<forall>f b. fa_chunked A (fa_set_chunked A b f) = b) \<and>
     (\<forall>f b. fa_content_length A (fa_set_chunked A b f) = None) \<and>
     (\<forall>f b ver. fa_keep_alive A ver (fa_set_chunked A b f) = fa_keep_alive A ver f) \<and>
     (\<forall>f b n ver. fa_find A (fa_set_keep_alive A ver b f) n = fa_find A f n) \<and>
     (\<forall>f b ver. fa_content_length A (fa_set_keep_alive A ver b f) = fa_content_length A f) \<and>
     (\<forall>f b ver. fa_chunked A (fa_set_keep_alive A ver b f) = fa_chunked A f) \<and>
     (\<forall>f b ver. fa_keep_alive A ver (fa_set_keep_alive A ver b f) = b)"

lemma fields_laws_simps:
  assumes "fields_laws A"
  shows "fa_find A (fa_empty A) n = None"
    "fa_find A (fa_set A n v f) m = (if m = n then Some v else fa_find A f m)"
    "fa_content_length A (fa_set A n v f) = fa_content_length A f"
    "fa_chunked A (fa_set A n v f) = fa_chunked A f"
    "fa_keep_alive A ver (fa_set A n v f) = fa_keep_alive A ver f"
    "fa_find A (fa_set_content_length A k f) n = fa_find A f n"
    "fa_content_length A (fa_set_content_length A k f) = Some k"
    "\<not> fa_chunked A (fa_set_content_length A k f)"
    "fa_keep_alive A ver (fa_set_content_length A k f) = fa_keep_alive A ver f"
    "fa_find A (fa_set_chunked A b f) n = fa_find A f n"
    "fa_chunked A (fa_set_chunked A b f) = b"
    "fa_content_length A (fa_set_chunked A b f) = None"
    "fa_keep_alive A ver (fa_set_chunked A b f) = fa_keep_alive A ver f"
    "fa_find A (fa_set_keep_alive A ver b f) n = fa_find A f n"
    "fa_content_length A (fa_set_keep_alive A ver b f) = fa_content_length A f"
    "fa_chunked A (fa_set_keep_alive A ver b f) = fa_chunked A f"
    "fa_keep_alive A ver (fa_set_keep_alive A ver b f) = b"
  using assms [unfolded fields_laws_def] by simp_all

text \<open>A container that keeps the laws, for examples.\<close>

record plain_fields =
  pf_map :: "(field \<times> string) list"
  pf_length :: "nat option"
  pf_chunked :: bool
  pf_keep_alive :: bool

definition plain_api :: "plain_fields fields_api" where
  "plain_api =
     \<lparr>fa_empty = \<lparr>pf_map = [], pf_length = None, pf_chunked = False, pf_keep_alive = True\<rparr>,
      fa_set = (\<lambda>n v f. f\<lparr>pf_map := (n, v) # pf_map f\<rparr>),
      fa_find = (\<lambda>f n. map_of (pf_map f) n),
      fa_set_content_length = (\<lambda>k f. f\<lparr>pf_length := Some k, pf_chunked := False\<rparr>),
      fa_content_length = pf_length,
      fa_set_chunked = (\<lambda>b f. f\<lparr>pf_chunked := b, pf_length := None\<rparr>),
      fa_chunked = pf_chunked,
      fa_set_keep_alive = (\<lambda>ver b f. f\<lparr>pf_keep_alive := b\<rparr>),
      fa_keep_alive = (\<lambda>ver f. pf_keep_alive f)\<rparr>"

lemma plain_laws: "fields_laws plain_api"
  by (simp add: fields_laws_def plain_api_def)

section \<open>Requests\<close>

record ('f, 'j) request =
  rq_method :: verb
  rq_target :: string
  rq_version :: nat
  rq_fields :: 'f
  rq_body :: "'j any_value"
  rq_decoded_path :: string
  rq_query_params :: query_params
  rq_remote_address :: string
  rq_path_params :: "string \<rightharpoonup> string"

text \<open>The constructor: the target is cut at the first question mark and decoded.\<close>

definition request_new ::
  "string \<Rightarrow> verb \<Rightarrow> string \<Rightarrow> nat \<Rightarrow> 'f \<Rightarrow> 'j any_value \<Rightarrow> ('f, 'j) request result" where
  "request_new remote m target ver f body =
     (let r = \<lparr>rq_method = m, rq_target = target, rq_version = ver, rq_fields = f, rq_body = body,
               rq_decoded_path = [], rq_query_params = [], rq_remote_address = remote,
               rq_path_params = Map.empty\<rparr>
      in case find_sub ''?'' target of
           None \<Rightarrow> rmap (\<lambda>p. r\<lparr>rq_decoded_path := p\<rparr>) (url_decode target)
         | Some pos \<Rightarrow>
             rbind (url_decode (take pos target)) (\<lambda>p.
               rmap (\<lambda>q. r\<lparr>rq_decoded_path := p, rq_query_params := q\<rparr>)
                 (qp_decode (drop (pos + 1) target))))"

definition request_path :: "('f, 'j) request \<Rightarrow> string" where
  "request_path r = (if rq_decoded_path r = [] then rq_target r else rq_decoded_path r)"

text \<open>The parser of an address (\<open>net::ip::make\_address\<close>) is a parameter.\<close>

definition get_client_ip ::
  "'f fields_api \<Rightarrow> (string \<Rightarrow> string option) \<Rightarrow> ('f, 'j) request \<Rightarrow> string" where
  "get_client_ip A make_address r =
     (case fa_find A (rq_fields r) F_x_forwarded_for of
        None \<Rightarrow> rq_remote_address r
      | Some v \<Rightarrow>
          (case split v '','' of
             [] \<Rightarrow> rq_remote_address r
           | t # _ \<Rightarrow>
               (case make_address t of
                  None \<Rightarrow> rq_remote_address r
                | Some a \<Rightarrow> a)))"

definition request_path_param :: "('f, 'j) request \<Rightarrow> string \<Rightarrow> string result" where
  "request_path_param r key =
     (case rq_path_params r key of None \<Rightarrow> Inl Out_Of_Range | Some v \<Rightarrow> Inr v)"

definition add_path_param :: "string \<Rightarrow> string \<Rightarrow> ('f, 'j) request \<Rightarrow> ('f, 'j) request" where
  "add_path_param key val r = r\<lparr>rq_path_params := (rq_path_params r)(key \<mapsto> val)\<rparr>"

definition set_path_param :: "(string \<rightharpoonup> string) \<Rightarrow> ('f, 'j) request \<Rightarrow> ('f, 'j) request" where
  "set_path_param params r = r\<lparr>rq_path_params := params\<rparr>"

section \<open>Responses\<close>

text \<open>
  A stream handler, as its successive calls see it: it is given the buffer, and throws, or leaves
  another content in it and tells whether it has more and whether it set an error.
\<close>

type_synonym stream_handler = "nat \<Rightarrow> string \<Rightarrow> (string \<times> bool \<times> bool) result"

record ('f, 'j) response =
  rs_status :: nat
  rs_version :: nat
  rs_fields :: 'f
  rs_body :: "'j any_value"
  rs_stream_handler :: "stream_handler option"

text \<open>What a response takes from its surroundings.\<close>

record server_env =
  env_version_string :: string
  env_gmt_date :: string
  env_reason :: "nat \<Rightarrow> string"
  env_boundary :: string

section \<open>Properties\<close>

text \<open>
  C10. A target made of an encoded path and the encoded text of query entries is taken apart again
  without a fault, but with a plus sign for every space of the path and of the entries, and with a
  value that has no key as a key without a value. So the path comes back exactly when it has no space,
  and the entries exactly when none has a space or a value without a key.
\<close>

theorem request_target_roundtrip:
  assumes "p \<noteq> []"
  shows "\<exists>r. request_new remote m (url_encode p @ ''?'' @ qp_encoded xs) ver f body = Inr r \<and>
           request_path r = plus_for_space p \<and> rq_query_params r = map arrived xs \<and>
           (request_path r = p \<longleftrightarrow> CHR '' '' \<notin> set p) \<and>
           (rq_query_params r = xs \<longleftrightarrow>
              (\<forall>(k, v)\<in>set xs. CHR '' '' \<notin> set k \<and> CHR '' '' \<notin> set v \<and> (k = [] \<longrightarrow> v = [])))"
proof -
  have "find_sub ''?'' (url_encode p @ ''?'' @ qp_encoded xs) = Some (length (url_encode p))"
    using find_sub_char_append [OF url_encode_clean(3) [of p], of "qp_encoded xs"] by simp
  moreover have "url_decode (url_encode p) = Inr (plus_for_space p)"
    by (simp add: url_decode_text decode_url_encode)
  ultimately show ?thesis using assms
    by (simp add: request_new_def request_path_def qp_decode_arrived plus_for_space_id map_arrived_id
        arrived_id case_prod_beta)
qed

theorem request_target_roundtrip_witness:
  "\<exists>r. request_new ''::1'' V_get (url_encode ''/a b'' @ ''?'' @ qp_encoded [(''k'', ''1&2''), ([], ''v'')]) 11 () V_Empty =
       Inr r \<and> request_path r = ''/a+b'' \<and> rq_query_params r = [(''k'', ''1&2''), (''v'', [])]"
  using request_target_roundtrip [of "''/a b''" "''::1''" V_get "[(''k'', ''1&2''), ([], ''v'')]" 11 "()" V_Empty]
  by (auto simp: arrived_def)

text \<open>
  A request whose path, the part of the target before the query, ends in a percent sign that
  follows no other makes the constructor read beyond the end of the string, whatever the query.
\<close>

theorem request_percent_end_faults:
  assumes "CHR ''?'' \<notin> set p" and "CHR ''%'' \<notin> set p" and "q = [] \<or> hd q = CHR ''?''"
  shows "request_new remote m (p @ ''%'' @ q) ver f body = Inl Out_Of_Bounds"
proof (cases q)
  case Nil
  with assms(1) decode_text_percent_end [OF assms(2)] show ?thesis
    by (simp add: request_new_def url_decode_text find_sub_char)
next
  case (Cons c cs)
  then have "p @ ''%'' @ q = (p @ ''%'') @ CHR ''?'' # cs" using assms(3) by simp
  moreover have "find_sub ''?'' ((p @ ''%'') @ CHR ''?'' # cs) = Some (length (p @ ''%''))"
    using assms(1) by (intro find_sub_char_append) simp
  ultimately show ?thesis using decode_text_percent_end [OF assms(2)]
    by (simp add: request_new_def url_decode_text)
qed

theorem request_percent_end_faults_witness:
  "request_new ''::1'' V_get (''/a'' @ ''%'' @ ''?x=1'') 11 () V_Empty = Inl Out_Of_Bounds"
  by (rule request_percent_end_faults) simp_all

end
