(* ===== verification/Html_Listing.thy ===== *)
theory Html_Listing
  imports Prelude
begin

text \<open>
  \<open>lib/html/html.cpp\<close>: the HTTP date, the listing of a directory as HTML and as JSON, and the
  few operations on \<open>std::filesystem::path\<close> the server makes, on POSIX paths as strings. The
  file system and the C library's calendar are the parameter \<open>fs\_api\<close>.
\<close>

section \<open>Paths\<close>

definition path_join :: "string \<Rightarrow> string \<Rightarrow> string" where
  "path_join base rel =
     (if starts_with ''/'' rel then rel
      else if base = [] \<or> last base = CHR ''/'' then base @ rel
      else base @ ''/'' @ rel)"

definition has_filename :: "string \<Rightarrow> bool" where
  "has_filename p \<longleftrightarrow> p \<noteq> [] \<and> last p \<noteq> CHR ''/''"

definition path_filename :: "string \<Rightarrow> string" where
  "path_filename p = rev (takeWhile (\<lambda>c. c \<noteq> CHR ''/'') (rev p))"

definition path_extension :: "string \<Rightarrow> string" where
  "path_extension p =
     (let f = path_filename p; stem = rev (drop 1 (dropWhile (\<lambda>c. c \<noteq> CHR ''.'') (rev f)))
      in if f = ''..'' \<or> CHR ''.'' \<notin> set f \<or> stem = [] then [] else drop (length stem) f)"

section \<open>The file system\<close>

record tm =
  tm_wday :: nat
  tm_mday :: nat
  tm_mon :: nat
  tm_year :: nat
  tm_hour :: nat
  tm_min :: nat
  tm_sec :: nat

text \<open>
  \<open>tm\_year\<close> is the year itself, \<open>fsys\_size\_text\<close> the printing of a float by
  \<open>add\_suffix\<close>. \<open>fsys\_write\_time\<close> is the time of the last write on the clock of the system: what
  \<open>detail::cast\<close> makes of the time on the clock of the files with one reading of each clock. The
  distance of the two readings, which differs from call to call, is part of the parameter.
\<close>

record fs_api =
  fsys_exists :: "string \<Rightarrow> bool"
  fsys_is_regular :: "string \<Rightarrow> bool"
  fsys_is_dir :: "string \<Rightarrow> bool"
  fsys_file_size :: "string \<Rightarrow> nat option"
  fsys_write_time :: "string \<Rightarrow> int option"
  fsys_read :: "string \<Rightarrow> string option"
  fsys_list :: "string \<Rightarrow> string list option"
  fsys_local_time :: "int \<Rightarrow> string"
  fsys_size_text :: "nat \<Rightarrow> string"
  fsys_gmtime :: "int \<Rightarrow> tm"

section \<open>Dates\<close>

definition WEEKDAY :: "string list" where
  "WEEKDAY = [''Sun'', ''Mon'', ''Tue'', ''Wed'', ''Thu'', ''Fri'', ''Sat'']"

definition MONTH :: "string list" where
  "MONTH = [''Jan'', ''Feb'', ''Mar'', ''Apr'', ''May'', ''Jun'', ''Jul'', ''Aug'', ''Sep'', ''Oct'',
            ''Nov'', ''Dec'']"

definition zero_padded :: "nat \<Rightarrow> nat \<Rightarrow> string" where
  "zero_padded w n = replicate (w - length (dec_nat n)) (CHR ''0'') @ dec_nat n"

definition format_http_gmt_date :: "fs_api \<Rightarrow> int \<Rightarrow> string" where
  "format_http_gmt_date FS time =
     (let t = fsys_gmtime FS time
      in WEEKDAY ! tm_wday t @ '', '' @ zero_padded 2 (tm_mday t) @ '' '' @ MONTH ! tm_mon t @ '' '' @
         zero_padded 4 (tm_year t) @ '' '' @ zero_padded 2 (tm_hour t) @ '':'' @
         zero_padded 2 (tm_min t) @ '':'' @ zero_padded 2 (tm_sec t) @ '' GMT'')"

text \<open>The cached date of \<open>lib/server/response.cpp\<close>: the state is the last time and its text.\<close>

definition get_current_gmt_date :: "fs_api \<Rightarrow> int \<Rightarrow> int \<times> string \<Rightarrow> (int \<times> string) \<times> string" where
  "get_current_gmt_date FS now st =
     (let st' = (if fst st \<noteq> now then (now, format_http_gmt_date FS now) else st) in (st', snd st'))"

section \<open>Boundaries\<close>

text \<open>The clock in milliseconds and a random number of six digits are arguments.\<close>

definition generate_boundary :: "nat \<Rightarrow> nat \<Rightarrow> string" where
  "generate_boundary millis random = ''----------------'' @ dec_nat millis @ dec_nat random"

section \<open>Listing a directory as HTML\<close>

definition file_last_wirte_time :: "fs_api \<Rightarrow> string \<Rightarrow> string" where
  "file_last_wirte_time FS file =
     (case fsys_write_time FS file of None \<Rightarrow> [] | Some t \<Rightarrow> fsys_local_time FS t)"

definition format_body :: "string \<Rightarrow> string \<Rightarrow> string \<Rightarrow> string \<Rightarrow> string \<Rightarrow> string" where
  "format_body href shown space time_text sz =
     ''<a href='' @ [dquote] @ href @ [dquote] @ ''>'' @ shown @ ''</a>'' @ space @ '' '' @ time_text @
     ''       '' @ sz @ crlf"

text \<open>\<open>50 - size\<close> is cut at zero, as the subtraction on \<open>nat\<close> is.\<close>

definition format_line :: "string \<Rightarrow> string \<Rightarrow> string \<Rightarrow> string" where
  "format_line rpath time_text sz =
     (let space = replicate (50 - length rpath) (CHR '' '');
          show_path = (if 50 < length rpath then take 47 rpath @ ''..&gt;'' else rpath)
      in format_body rpath show_path space time_text sz)"

definition format_path_list :: "fs_api \<Rightarrow> string \<Rightarrow> string list" where
  "format_path_list FS path =
     (let names = (case fsys_list FS path of None \<Rightarrow> [] | Some ns \<Rightarrow> ns);
          is_dir = (\<lambda>n. fsys_is_dir FS (path_join path n));
          time_of = (\<lambda>n. file_last_wirte_time FS (path_join path n));
          size_of = (\<lambda>n. case fsys_file_size FS (path_join path n) of None \<Rightarrow> 0 | Some k \<Rightarrow> k);
          path_list = map (\<lambda>n. format_line (n @ ''/'') (time_of n) ''-'') (filter is_dir names);
          file_list = map (\<lambda>n. format_line n (time_of n) (fsys_size_text FS (size_of n)))
            (filter (\<lambda>n. \<not> is_dir n) names)
      in path_list @ file_list)"

text \<open>
  \<open>format\_path\_list\<close> always leaves its error code cleared, so the early return of the caller
  is never taken.
\<close>

definition format_dir_to_html :: "fs_api \<Rightarrow> string \<Rightarrow> string \<Rightarrow> string" where
  "format_dir_to_html FS target path =
     ''<html><head><meta charset='' @ [dquote] @ ''UTF-8'' @ [dquote] @ ''><title>Index of '' @ target @
     ''</title></head><body bgcolor='' @ [dquote] @ ''white'' @ [dquote] @ ''><h1>Index of '' @ target @
     ''</h1><hr><pre>'' @
     format_body ''../'' ''../'' [] [] [] @ concat (format_path_list FS path) @
     ''</pre><hr></body></html>''"

section \<open>Listing a directory as JSON\<close>

record json_entry =
  je_last_write_time :: int
  je_is_dir :: bool
  je_filename :: string
  je_filesize :: nat

text \<open>In the clock of the system, see \<open>fs\_api\<close>.\<close>

definition file_last_write_time :: "fs_api \<Rightarrow> string \<Rightarrow> int option" where
  "file_last_write_time FS path = fsys_write_time FS path"

text \<open>
  The loop with its error code: every call overwrites it, and the last call of a round is
  \<open>fs::file\_size\<close>, which returns the largest value when it fails.
\<close>

fun dir_json_loop :: "fs_api \<Rightarrow> string \<Rightarrow> bool \<Rightarrow> string list \<Rightarrow> json_entry list \<times> bool" where
  "dir_json_loop FS path ec [] = ([], ec)"
| "dir_json_loop FS path ec (n # ns) =
     (let entry_path = path_join path n;
          obj = \<lparr>je_last_write_time =
                   (case file_last_write_time FS path of None \<Rightarrow> 0 | Some t \<Rightarrow> t),
                 je_is_dir = fsys_is_dir FS entry_path, je_filename = n,
                 je_filesize = (case fsys_file_size FS entry_path of None \<Rightarrow> 2 ^ 64 - 1 | Some k \<Rightarrow> k)\<rparr>;
          (rest, ec') = dir_json_loop FS path (fsys_file_size FS entry_path = None) ns
      in (obj # rest, ec'))"

definition format_dir_to_json :: "fs_api \<Rightarrow> string \<Rightarrow> json_entry list \<times> bool" where
  "format_dir_to_json FS path =
     (case fsys_list FS path of
        None \<Rightarrow> ([], True)
      | Some ns \<Rightarrow> dir_json_loop FS path False ns)"

lemma dir_json_loop_snd:
  "snd (dir_json_loop FS path ec ns) =
     (if ns = [] then ec else fsys_file_size FS (path_join path (last ns)) = None)"
  by (induction ns arbitrary: ec) (simp_all add: Let_def case_prod_beta)

lemma dir_json_loop_fst:
  "map je_filename (fst (dir_json_loop FS path ec ns)) = ns \<and>
   (\<forall>e\<in>set (fst (dir_json_loop FS path ec ns)). je_last_write_time e =
      (case file_last_write_time FS path of None \<Rightarrow> 0 | Some t \<Rightarrow> t))"
  by (induction ns arbitrary: ec) (simp_all add: Let_def case_prod_beta)

section \<open>Properties\<close>

text \<open>
  The JSON listing names every entry of the directory once and in order, but gives all of them
  the write time of the directory itself; and its error code is that of the size of the last entry
  alone, so a directory whose last entry has no size, as a subdirectory has none, is reported as
  failed however well all others were read.
\<close>

theorem format_dir_to_json_result:
  assumes "fsys_list FS path = Some ns" and "ns \<noteq> []"
  shows "map je_filename (fst (format_dir_to_json FS path)) = ns \<and>
         (\<forall>t. fsys_write_time FS path = Some t \<longrightarrow>
            (\<forall>e\<in>set (fst (format_dir_to_json FS path)). je_last_write_time e = t)) \<and>
         (snd (format_dir_to_json FS path) \<longleftrightarrow>
            fsys_file_size FS (path_join path (last ns)) = None)"
  using assms dir_json_loop_fst [of FS path False ns] dir_json_loop_snd [of FS path False ns]
  by (simp add: format_dir_to_json_def file_last_write_time_def)

definition example_fs :: fs_api where
  "example_fs =
     \<lparr>fsys_exists = (\<lambda>p. p \<in> {''/srv/a.txt'', ''/srv/sub'', ''/srv/'', ''/srv''}),
      fsys_is_regular = (\<lambda>p. p = ''/srv/a.txt''),
      fsys_is_dir = (\<lambda>p. p \<in> {''/srv'', ''/srv/'', ''/srv/sub''}),
      fsys_file_size = (\<lambda>p. if p = ''/srv/a.txt'' then Some 5 else None),
      fsys_write_time = (\<lambda>p. Some (if p = ''/srv/a.txt'' then 86400 else 0)),
      fsys_read = (\<lambda>p. if p = ''/srv/a.txt'' then Some ''hello'' else None),
      fsys_list = (\<lambda>p. if p \<in> {''/srv'', ''/srv/''} then Some [''a.txt'', ''sub''] else None),
      fsys_local_time = (\<lambda>t. ''01-01-1970 00:00''),
      fsys_size_text = dec_nat,
      fsys_gmtime = (\<lambda>t. \<lparr>tm_wday = 4, tm_mday = 1, tm_mon = 0, tm_year = 1970,
        tm_hour = 0, tm_min = 0, tm_sec = 0\<rparr>)\<rparr>"

theorem format_dir_to_json_result_witness:
  "map je_filename (fst (format_dir_to_json example_fs ''/srv'')) = [''a.txt'', ''sub''] \<and>
   list_all (\<lambda>e. je_last_write_time e = 0) (fst (format_dir_to_json example_fs ''/srv'')) \<and>
   snd (format_dir_to_json example_fs ''/srv'')"
proof -
  note r = format_dir_to_json_result [of example_fs "''/srv''" "[''a.txt'', ''sub'']"]
  have "fsys_list example_fs ''/srv'' = Some [''a.txt'', ''sub'']"
    "fsys_write_time example_fs ''/srv'' = Some 0"
    "fsys_file_size example_fs (path_join ''/srv'' ''sub'') = None"
    by (simp_all add: example_fs_def path_join_def)
  with r show ?thesis by (simp add: list_all_iff)
qed

end
