(* ===== verification/Http_Date.thy ===== *)
theory Http_Date
  imports Html_Listing
begin

text \<open>
  The dates of \<open>lib/html/html.cpp\<close> with the calendar of the C library: \<open>gmtime\<close>,
  \<open>localtime\<close> and \<open>mktime\<close> over the Gregorian calendar, in a time zone whose standard
  offset has changed at some times and which has daylight saving at some times, and \<open>std::get\_time\<close> on the format the code gives it.
  With them the date a response carries is read back as the time it was made from.
\<close>

section \<open>The calendar\<close>

definition leap_year :: "int \<Rightarrow> bool" where
  "leap_year y \<longleftrightarrow> y mod 4 = 0 \<and> (y mod 100 \<noteq> 0 \<or> y mod 400 = 0)"

definition month_lengths :: "int \<Rightarrow> int list" where
  "month_lengths y = [31, if leap_year y then 29 else 28, 31, 30, 31, 30, 31, 31, 30, 31, 30, 31]"

definition year_length :: "int \<Rightarrow> int" where
  "year_length y = (if leap_year y then 366 else 365)"

text \<open>The days from the epoch to the first day of a year, as POSIX gives them.\<close>

definition days_before_year :: "int \<Rightarrow> int" where
  "days_before_year y =
     (y - 1970) * 365 + (y - 1969) div 4 - (y - 1901) div 100 + (y - 1601) div 400"

function year_of_day :: "int \<Rightarrow> int \<Rightarrow> int \<times> int" where
  "year_of_day y d =
     (if d < year_length y then (y, d) else year_of_day (y + 1) (d - year_length y))"
  by auto
termination by (relation "measure (\<lambda>(y, d). nat d)") (auto simp: year_length_def split: if_splits)

declare year_of_day.simps [simp del]

fun month_of_day :: "int list \<Rightarrow> int \<Rightarrow> nat \<times> int" where
  "month_of_day (l # ls) d =
     (if d < l then (0, d) else case month_of_day ls (d - l) of (m, r) \<Rightarrow> (Suc m, r))"
| "month_of_day [] d = (0, d)"

text \<open>The calendar repeats itself after 400 years, which have 146097 days.\<close>

definition civil_of_day :: "int \<Rightarrow> int \<times> nat \<times> int" where
  "civil_of_day days =
     (let (y, d) = year_of_day 1970 (days mod 146097); (m, r) = month_of_day (month_lengths y) d
      in (y + 400 * (days div 146097), m, r + 1))"

definition gmtime :: "int \<Rightarrow> tm" where
  "gmtime t =
     (let days = t div 86400; s = t mod 86400; (y, m, d) = civil_of_day days
      in \<lparr>tm_wday = nat ((days + 4) mod 7), tm_mday = nat d, tm_mon = m, tm_year = nat y,
          tm_hour = nat (s div 3600), tm_min = nat (s mod 3600 div 60), tm_sec = nat (s mod 60)\<rparr>)"

definition timegm :: "tm \<Rightarrow> int" where
  "timegm x =
     (days_before_year (int (tm_year x)) + sum_list (take (tm_mon x) (month_lengths (int (tm_year x)))) +
        int (tm_mday x) - 1) * 86400 +
     int (tm_hour x) * 3600 + int (tm_min x) * 60 + int (tm_sec x)"

text \<open>The times from the year 0 to the end of the year 9999.\<close>

definition in_calendar :: "int \<Rightarrow> bool" where
  "in_calendar t \<longleftrightarrow> - 62167219200 \<le> t \<and> t < 253402300800"

section \<open>Local time\<close>

text \<open>
  A zone is the standard offset it began with, the times at which another was introduced, the latest
  first, and when it has daylight saving.
\<close>

record time_zone =
  tz_first :: int
  tz_changes :: "(int \<times> int) list"
  tz_saving :: int
  tz_daylight :: "int \<Rightarrow> bool"

definition std_offset :: "time_zone \<Rightarrow> int \<Rightarrow> int" where
  "std_offset Z t =
     (case find (\<lambda>(since, off). since \<le> t) (tz_changes Z) of None \<Rightarrow> tz_first Z | Some (_, off) \<Rightarrow> off)"

definition zone_offsets :: "time_zone \<Rightarrow> int list" where
  "zone_offsets Z = map snd (tz_changes Z) @ [tz_first Z]"

definition local_seconds :: "time_zone \<Rightarrow> int \<Rightarrow> int" where
  "local_seconds Z t = t + std_offset Z t + (if tz_daylight Z t then tz_saving Z else 0)"

text \<open>A local time comes with the flag \<open>tm\_isdst\<close>.\<close>

definition localtime :: "time_zone \<Rightarrow> int \<Rightarrow> tm \<times> bool" where
  "localtime Z t = (gmtime (local_seconds Z t), tz_daylight Z t)"

text \<open>
  \<open>mktime\<close> takes the standard offset that is in force at the time it gives. A local time that no
  offset gives is taken with the first; of one that two give, the later offset is taken.
\<close>

definition mktime :: "time_zone \<Rightarrow> tm \<times> bool \<Rightarrow> int" where
  "mktime Z x =
     (let s = timegm (fst x) - (if snd x then tz_saving Z else 0)
      in case find (\<lambda>off. std_offset Z (s - off) = off) (zone_offsets Z) of
           None \<Rightarrow> s - tz_first Z
         | Some off \<Rightarrow> s - off)"

text \<open>The offset is computed once, when it is first asked for; both times are run through \<open>mktime\<close>.\<close>

definition get_gmt_timezone_offset :: "time_zone \<Rightarrow> int \<Rightarrow> int" where
  "get_gmt_timezone_offset Z now = mktime Z (localtime Z now) - mktime Z (gmtime now, False)"

section \<open>Reading a date\<close>

definition read_name :: "string list \<Rightarrow> string \<Rightarrow> (nat \<times> string) option" where
  "read_name names s =
     map_option (\<lambda>(i, n). (i, drop (length n) s))
       (find (\<lambda>(i, n). starts_with (map to_lower n) (map to_lower s)) (zip [0..<length names] names))"

definition read_num :: "nat \<Rightarrow> nat \<Rightarrow> nat \<Rightarrow> string \<Rightarrow> (nat \<times> string) option" where
  "read_num w lo hi s =
     (let ds = takeWhile isdigit (take w s); v = nat (digits_val ds)
      in if ds = [] \<or> v < lo \<or> hi < v then None else Some (v, drop (length ds) s))"

text \<open>White space in the format takes any white space, another character itself.\<close>

fun read_text :: "string \<Rightarrow> string \<Rightarrow> string option" where
  "read_text [] s = Some s"
| "read_text (c # cs) s =
     (if isspace c then read_text cs (dropWhile isspace s)
      else case s of [] \<Rightarrow> None | d # ds \<Rightarrow> if to_lower c = to_lower d then read_text cs ds else None)"

definition LONG_WEEKDAY :: "string list" where
  "LONG_WEEKDAY = [''Sunday'', ''Monday'', ''Tuesday'', ''Wednesday'', ''Thursday'', ''Friday'', ''Saturday'']"

definition LONG_MONTH :: "string list" where
  "LONG_MONTH = [''January'', ''February'', ''March'', ''April'', ''May'', ''June'', ''July'', ''August'',
     ''September'', ''October'', ''November'', ''December'']"

text \<open>\<open>std::get\_time\<close> with the format \<open>%a, %d %b %Y %H:%M:%S GMT\<close>; the long names are tried first.\<close>

definition get_time :: "string \<Rightarrow> tm option" where
  "get_time s =
     Option.bind (read_name (LONG_WEEKDAY @ WEEKDAY) s) (\<lambda>(wd, s).
     Option.bind (read_text '', '' s) (\<lambda>s.
     Option.bind (read_num 2 1 31 s) (\<lambda>(d, s).
     Option.bind (read_text '' '' s) (\<lambda>s.
     Option.bind (read_name (LONG_MONTH @ MONTH) s) (\<lambda>(mo, s).
     Option.bind (read_text '' '' s) (\<lambda>s.
     Option.bind (read_num 4 0 9999 s) (\<lambda>(y, s).
     Option.bind (read_text '' '' s) (\<lambda>s.
     Option.bind (read_num 2 0 23 s) (\<lambda>(h, s).
     Option.bind (read_text '':'' s) (\<lambda>s.
     Option.bind (read_num 2 0 59 s) (\<lambda>(mi, s).
     Option.bind (read_text '':'' s) (\<lambda>s.
     Option.bind (read_num 2 0 60 s) (\<lambda>(se, s).
     map_option (\<lambda>_.
       \<lparr>tm_wday = wd mod 7, tm_mday = d, tm_mon = mo mod 12, tm_year = y, tm_hour = h, tm_min = mi,
        tm_sec = se\<rparr>) (read_text '' GMT'' s))))))))))))))"

definition parse_http_gmt_date :: "time_zone \<Rightarrow> int \<Rightarrow> string \<Rightarrow> int option" where
  "parse_http_gmt_date Z first_use http_date =
     map_option (\<lambda>x. mktime Z (x, False) + get_gmt_timezone_offset Z first_use) (get_time http_date)"

section \<open>The calendar is consistent\<close>

lemma div_next:
  assumes "0 < (k :: int)"
  shows "(y + 1) div k = y div k + (if (y + 1) mod k = 0 then 1 else 0)"
proof -
  let ?q = "(y + 1) div k" and ?r = "(y + 1) mod k"
  have split: "y + 1 = k * ?q + ?r" "0 \<le> ?r" "?r < k" using assms by simp_all
  show ?thesis
  proof (cases "?r = 0")
    case True
    then have "y = k * (?q - 1) + (k - 1)" using split(1) by (simp add: algebra_simps)
    then have "y div k = ?q - 1" using assms by (intro int_div_pos_eq [of _ _ _ "k - 1"]) auto
    with True show ?thesis by simp
  next
    case False
    then have "y = k * ?q + (?r - 1)" "0 \<le> ?r - 1" "?r - 1 < k" using split by linarith+
    then have "y div k = ?q" by (rule int_div_pos_eq)
    with False show ?thesis by simp
  qed
qed

lemma div_shift: "0 < k \<Longrightarrow> (y + k * c) div k = y div k + (c :: int)"
  by simp

lemma days_next_year: "days_before_year (y + 1) = days_before_year y + year_length y"
proof -
  have m: "(y - 1968) mod 4 = y mod 4" "(y - 1900) mod 100 = y mod 100" "(y - 1600) mod 400 = y mod 400"
    by (simp_all add: mod_eq_dvd_iff)
  have p: "y - 1969 + 1 = y - 1968" "y - 1901 + 1 = y - 1900" "y - 1601 + 1 = y - 1600" by simp_all
  note d = div_next [of 4 "y - 1969", unfolded p m, OF zero_less_numeral]
    div_next [of 100 "y - 1901", unfolded p m, OF zero_less_numeral]
    div_next [of 400 "y - 1601", unfolded p m, OF zero_less_numeral]
  have "y + 1 - 1970 = y - 1970 + 1" "y + 1 - 1969 = y - 1968" "y + 1 - 1901 = y - 1900" "y + 1 - 1601 = y - 1600"
    by simp_all
  then have next_year: "days_before_year (y + 1) = days_before_year y + 365 + (if y mod 4 = 0 then 1 else 0) -
      (if y mod 100 = 0 then 1 else 0) + (if y mod 400 = 0 then 1 else 0)"
    unfolding days_before_year_def by (simp only: d) (simp add: algebra_simps)
  have "y mod 400 = 0 \<Longrightarrow> y mod 100 = 0" "y mod 100 = 0 \<Longrightarrow> y mod 4 = 0"
    using dvd_trans [of 100 400 y] dvd_trans [of 4 100 y] by (simp_all add: mod_eq_0_iff_dvd)
  then consider "y mod 4 \<noteq> 0" "y mod 100 \<noteq> 0" "y mod 400 \<noteq> 0" | "y mod 4 = 0" "y mod 100 \<noteq> 0" "y mod 400 \<noteq> 0"
    | "y mod 4 = 0" "y mod 100 = 0" "y mod 400 \<noteq> 0" | "y mod 4 = 0" "y mod 100 = 0" "y mod 400 = 0"
    by metis
  then show ?thesis unfolding next_year year_length_def leap_year_def by cases simp_all
qed

lemma days_cycle: "days_before_year (y + 400 * k) = days_before_year y + 146097 * k"
proof -
  have "(y + 400 * k - 1969) div 4 = (y - 1969) div 4 + 100 * k"
    "(y + 400 * k - 1901) div 100 = (y - 1901) div 100 + 4 * k"
    "(y + 400 * k - 1601) div 400 = (y - 1601) div 400 + k"
    using div_shift [of 4 "y - 1969" "100 * k"] div_shift [of 100 "y - 1901" "4 * k"]
      div_shift [of 400 "y - 1601" k]
    by (simp_all only: algebra_simps)
  then show ?thesis by (simp add: days_before_year_def algebra_simps)
qed

lemma leap_cycle: "leap_year (y + 400 * k) = leap_year y"
proof -
  have "(y + 400 * k) mod 4 = y mod 4" "(y + 400 * k) mod 100 = y mod 100" "(y + 400 * k) mod 400 = y mod 400"
    by (simp_all add: mod_eq_dvd_iff dvd_mult2)
  then show ?thesis by (simp add: leap_year_def)
qed

lemma year_of_day_correct:
  "year_of_day y d = (y', d') \<Longrightarrow> 0 \<le> d \<Longrightarrow>
   y \<le> y' \<and> 0 \<le> d' \<and> d' < year_length y' \<and> days_before_year y + d = days_before_year y' + d'"
proof (induction y d rule: year_of_day.induct)
  case (1 y d)
  then show ?case
    by (cases "d < year_length y") (auto simp: year_of_day.simps [of y d] days_next_year)
qed

lemma month_of_day_correct:
  "month_of_day ls d = (m, r) \<Longrightarrow> 0 \<le> d \<Longrightarrow> d < sum_list ls \<Longrightarrow>
   m < length ls \<and> 0 \<le> r \<and> r < ls ! m \<and> d = sum_list (take m ls) + r"
proof (induction ls arbitrary: d m)
  case (Cons l ls)
  show ?case
  proof (cases "d < l")
    case False
    then obtain m' where "month_of_day ls (d - l) = (m', r)" "m = Suc m'"
      using Cons.prems(1) by (auto split: prod.splits)
    with Cons.IH [of "d - l" m'] Cons.prems(2,3) False show ?thesis by simp
  qed (use Cons.prems in auto)
qed simp

lemma month_lengths_sum: "sum_list (month_lengths y) = year_length y"
  by (simp add: month_lengths_def year_length_def)

lemma civil_of_day_correct:
  assumes "civil_of_day days = (y, m, d)"
  shows "m < 12 \<and> 1 \<le> d \<and> d \<le> 31 \<and>
    days = days_before_year y + sum_list (take m (month_lengths y)) + d - 1 \<and>
    days_before_year y \<le> days \<and> days < days_before_year (y + 1)"
proof -
  let ?rest = "days mod 146097" and ?k = "days div 146097"
  obtain y0 d0 where y0: "year_of_day 1970 ?rest = (y0, d0)" by (cases "year_of_day 1970 ?rest")
  obtain r where m: "month_of_day (month_lengths y0) d0 = (m, r)" "y = y0 + 400 * ?k" "d = r + 1"
    using assms by (auto simp: civil_of_day_def y0 split: prod.splits)
  have Y: "0 \<le> d0" "d0 < year_length y0" "?rest = days_before_year y0 + d0"
    using year_of_day_correct [OF y0] by (simp_all add: days_before_year_def)
  have M: "m < length (month_lengths y0)" "0 \<le> r" "r < month_lengths y0 ! m"
      "d0 = sum_list (take m (month_lengths y0)) + r"
    using month_of_day_correct [OF m(1)] Y by (simp_all add: month_lengths_sum)
  have len: "month_lengths y = month_lengths y0" "year_length y = year_length y0"
    by (simp_all add: m(2) month_lengths_def year_length_def leap_cycle)
  have days: "days = days_before_year y + d0"
    using Y(3) days_cycle [of y0 ?k] mult_div_mod_eq [of 146097 days] unfolding m(2) by linarith
  have "x \<le> 31" if "x \<in> set (month_lengths y0)" for x using that by (auto simp: month_lengths_def)
  then have "r < 31" using M(1,3) nth_mem by (metis dual_order.strict_trans1)
  then show ?thesis using M days Y len m(3) by (simp add: days_next_year month_lengths_def)
qed

lemma days_mono: "y \<le> y' \<Longrightarrow> days_before_year y \<le> days_before_year y'"
proof (induction y' rule: int_ge_induct)
  case (step y')
  then show ?case by (simp add: days_next_year year_length_def)
qed simp

lemma civil_year_between:
  assumes "civil_of_day days = (y, m, d)" and "days_before_year a \<le> days" and "days < days_before_year b"
  shows "a \<le> y \<and> y < b"
  using civil_of_day_correct [OF assms(1)] assms(2,3) days_mono [of b y] days_mono [of "y + 1" a]
  by linarith

section \<open>The calendar is read back\<close>

lemma dvd_triv: "(60 :: int) dvd 3600"
  by simp

lemma timegm_gmtime:
  assumes "in_calendar t"
  shows "timegm (gmtime t) = t" and "tm_year (gmtime t) \<le> 9999" and "tm_wday (gmtime t) < 7"
    and "tm_mon (gmtime t) < 12" and "1 \<le> tm_mday (gmtime t)" and "tm_mday (gmtime t) \<le> 31"
    and "tm_hour (gmtime t) \<le> 23" and "tm_min (gmtime t) \<le> 59" and "tm_sec (gmtime t) \<le> 59"
proof -
  let ?days = "t div 86400" and ?s = "t mod 86400"
  obtain y m d where c: "civil_of_day ?days = (y, m, d)" by (cases "civil_of_day ?days")
  have g: "gmtime t = \<lparr>tm_wday = nat ((?days + 4) mod 7), tm_mday = nat d, tm_mon = m, tm_year = nat y,
      tm_hour = nat (?s div 3600), tm_min = nat (?s mod 3600 div 60), tm_sec = nat (?s mod 60)\<rparr>"
    by (simp add: gmtime_def c Let_def)
  have days: "days_before_year 0 \<le> ?days" "?days < days_before_year 10000"
    using assms [unfolded in_calendar_def] by (simp_all add: days_before_year_def) linarith+
  note y = civil_year_between [OF c this]
  note C = civil_of_day_correct [OF c]
  have s: "0 \<le> ?s" "?s < 86400" by simp_all
  have hms: "?s div 3600 * 3600 + ?s mod 3600 = ?s" "?s mod 3600 div 60 * 60 + ?s mod 60 = ?s mod 3600"
    using div_mult_mod_eq [of ?s 3600] div_mult_mod_eq [of "?s mod 3600" 60]
    by (simp_all only: mod_mod_cancel [of 60 3600 ?s, OF dvd_triv])
  have r: "0 \<le> ?s mod 3600" "?s mod 3600 < 3600" "0 \<le> ?s mod 60" "?s mod 60 < 60" by simp_all
  have b: "0 \<le> ?s div 3600" "?s div 3600 \<le> 23" "0 \<le> ?s mod 3600 div 60" "?s mod 3600 div 60 \<le> 59"
    using hms r s by linarith+
  show "tm_hour (gmtime t) \<le> 23" "tm_min (gmtime t) \<le> 59" using b by (simp_all add: g nat_le_iff)
  have "timegm (gmtime t) = ?days * 86400 + (?s div 3600 * 3600 + ?s mod 3600 div 60 * 60 + ?s mod 60)"
    using C y unfolding g timegm_def tm.simps nat_0_le [OF b(1)] nat_0_le [OF b(3)] nat_0_le [OF r(3)] by simp
  also have "\<dots> = ?days * 86400 + ?s" using hms by linarith
  finally show "timegm (gmtime t) = t" by simp
  show "tm_year (gmtime t) \<le> 9999" "tm_mon (gmtime t) < 12" "1 \<le> tm_mday (gmtime t)"
    "tm_mday (gmtime t) \<le> 31"
    using C y by (simp_all add: g nat_le_iff le_nat_iff)
  show "tm_wday (gmtime t) < 7" "tm_sec (gmtime t) \<le> 59" by (simp_all add: g nat_le_iff nat_less_iff)
qed

text \<open>The standard offset has been the same for two days and stays so for two more.\<close>

definition settled :: "time_zone \<Rightarrow> int \<Rightarrow> int \<Rightarrow> bool" where
  "settled Z t off \<longleftrightarrow> (\<forall>u. \<bar>u - t\<bar> \<le> 172800 \<longrightarrow> std_offset Z u = off)"

definition zone_ok :: "time_zone \<Rightarrow> bool" where
  "zone_ok Z \<longleftrightarrow> (\<forall>off\<in>set (zone_offsets Z). \<bar>off\<bar> \<le> 86400)"

lemma std_offset_in: "std_offset Z t \<in> set (zone_offsets Z)"
proof (cases "find (\<lambda>(since, off). since \<le> t) (tz_changes Z)")
  case (Some x)
  then have "x \<in> set (tz_changes Z)" by (metis find_Some_iff nth_mem)
  then have "snd x \<in> snd ` set (tz_changes Z)" by (rule imageI)
  with Some show ?thesis by (cases x) (simp add: std_offset_def zone_offsets_def)
qed (simp add: std_offset_def zone_offsets_def)

lemma mktime_settled:
  assumes "zone_ok Z" and "settled Z t off" and "\<bar>timegm tm - (if dst then tz_saving Z else 0) - t\<bar> \<le> 86400"
  shows "mktime Z (tm, dst) = timegm tm - (if dst then tz_saving Z else 0) - off"
proof -
  define s where "s = timegm tm - (if dst then tz_saving Z else 0)"
  have at: "std_offset Z (s - o1) = off" if "o1 \<in> set (zone_offsets Z)" for o1
  proof -
    have "\<bar>o1\<bar> \<le> 86400" using assms(1) that by (simp add: zone_ok_def)
    then have "\<bar>s - o1 - t\<bar> \<le> 172800" using assms(3) by (simp add: s_def)
    then show ?thesis using assms(2) by (simp add: settled_def)
  qed
  have mem: "off \<in> set (zone_offsets Z)"
    using std_offset_in [of Z t] assms(2) by (simp add: settled_def)
  then have "find (\<lambda>o1. std_offset Z (s - o1) = o1) (zone_offsets Z) \<noteq> None"
    using at [OF mem] by (auto simp: find_None_iff)
  then obtain o1 where o1: "find (\<lambda>o1. std_offset Z (s - o1) = o1) (zone_offsets Z) = Some o1" by blast
  then have "o1 \<in> set (zone_offsets Z)" "std_offset Z (s - o1) = o1" by (auto simp: find_Some_iff)
  then have "o1 = off" using at by simp
  with o1 show ?thesis by (simp add: mktime_def Let_def s_def)
qed

section \<open>The text is read back\<close>

lemma length_dec_nat: "n < 10 ^ w \<Longrightarrow> 0 < w \<Longrightarrow> length (dec_nat n) \<le> w"
proof (induction w arbitrary: n)
  case (Suc w)
  then show ?case
  proof (cases "n < 10")
    case False
    then have "0 < w" "n div 10 < 10 ^ w" using Suc.prems by (auto intro!: gr0I)
    with Suc.IH [of "n div 10"] False show ?thesis by (simp add: dec_nat.simps [of n])
  qed (simp add: dec_nat.simps [of n])
qed simp

lemma zero_padded_digits: "\<forall>c\<in>set (zero_padded w n). isdigit c"
  using dec_nat_digits by (auto simp: zero_padded_def isdigit_def)

lemma digits_val_zeros: "digits_val (replicate k (CHR ''0'') @ ds) = digits_val ds"
  by (induction k) (simp_all add: digits_val_def digit_val_def)

lemma read_num_padded:
  assumes "lo \<le> n" and "n \<le> hi" and "n < 10 ^ w" and "0 < w"
  shows "read_num w lo hi (zero_padded w n @ s) = Some (n, s)"
proof -
  have len: "length (zero_padded w n) = w"
    using length_dec_nat [OF assms(3,4)] by (simp add: zero_padded_def)
  have "takeWhile isdigit (take w (zero_padded w n @ s)) = zero_padded w n"
    using zero_padded_digits [of w n] len by (simp add: takeWhile_eq_all_conv)
  moreover have "digits_val (zero_padded w n) = int n"
    by (simp add: zero_padded_def digits_val_zeros digits_val_dec_nat)
  moreover have "zero_padded w n \<noteq> []" by (simp add: zero_padded_def)
  ultimately show ?thesis
    using len assms(1,2) by (simp only: read_num_def Let_def) simp
qed

lemma read_space: "s \<noteq> [] \<Longrightarrow> \<not> isspace (hd s) \<Longrightarrow> read_text '' '' (CHR '' '' # s) = Some s"
  using dropWhile_id [of s isspace] by (simp add: isspace_def)

lemma zero_padded_hd: "zero_padded w n @ s \<noteq> [] \<and> \<not> isspace (hd (zero_padded w n @ s))"
proof -
  have "zero_padded w n \<noteq> []" by (simp add: zero_padded_def)
  moreover from this have "isdigit (hd (zero_padded w n))" using zero_padded_digits by (meson hd_in_set)
  ultimately show ?thesis using not_isspace_digit by simp
qed

lemma read_weekday:
  assumes "i < 7"
  shows "\<exists>j. read_name (LONG_WEEKDAY @ WEEKDAY) (WEEKDAY ! i @ CHR '','' # s) = Some (j, CHR '','' # s) \<and> j mod 7 = i"
proof -
  from assms consider "i = 0" | "i = 1" | "i = 2" | "i = 3" | "i = 4" | "i = 5" | "i = 6" by linarith
  then show ?thesis
    by cases (simp_all add: read_name_def LONG_WEEKDAY_def WEEKDAY_def to_lower_def upt_rec)
qed

lemma read_month:
  assumes "i < 12"
  shows "\<exists>j. read_name (LONG_MONTH @ MONTH) (MONTH ! i @ CHR '' '' # s) = Some (j, CHR '' '' # s) \<and> j mod 12 = i"
proof -
  have "i = 0 \<or> i = 1 \<or> i = 2 \<or> i = 3 \<or> i = 4 \<or> i = 5 \<or> i = 6 \<or> i = 7 \<or> i = 8 \<or> i = 9 \<or>
      i = 10 \<or> i = 11" using assms by presburger
  then consider "i = 0" | "i = 1" | "i = 2" | "i = 3" | "i = 4" | "i = 5" | "i = 6" | "i = 7"
    | "i = 8" | "i = 9" | "i = 10" | "i = 11" by metis
  then show ?thesis
    by cases (simp_all add: read_name_def LONG_MONTH_def MONTH_def to_lower_def upt_rec)
qed

lemma get_time_text:
  assumes "wd < 7" and "1 \<le> d" and "d \<le> 31" and "mo < 12" and "y \<le> 9999" and "h \<le> 23"
    and "mi \<le> 59" and "se \<le> 59"
  shows "get_time (WEEKDAY ! wd @ '', '' @ zero_padded 2 d @ '' '' @ MONTH ! mo @ '' '' @ zero_padded 4 y @
      '' '' @ zero_padded 2 h @ '':'' @ zero_padded 2 mi @ '':'' @ zero_padded 2 se @ '' GMT'') =
    Some \<lparr>tm_wday = wd, tm_mday = d, tm_mon = mo, tm_year = y, tm_hour = h, tm_min = mi, tm_sec = se\<rparr>"
proof -
  note space = read_space [OF zero_padded_hd [THEN conjunct1] zero_padded_hd [THEN conjunct2]]
  have comma: "read_text '', '' (CHR '','' # CHR '' '' # zero_padded w n @ s) = Some (zero_padded w n @ s)" for w n s
    using space [of w n s] by (simp add: isspace_def)
  have colon: "read_text '':'' (CHR '':'' # s) = Some s" for s by (simp add: isspace_def)
  have "MONTH ! mo \<noteq> [] \<and> \<not> isspace (hd (MONTH ! mo))"
  proof -
    have "list_all (\<lambda>m. m \<noteq> [] \<and> \<not> isspace (hd m)) MONTH" by code_simp
    moreover have "MONTH ! mo \<in> set MONTH" using assms(4) by (intro nth_mem) (simp add: MONTH_def)
    ultimately show ?thesis by (simp add: list_all_iff)
  qed
  then have month: "read_text '' '' (CHR '' '' # MONTH ! mo @ s) = Some (MONTH ! mo @ s)" for s
    by (intro read_space) simp_all
  have gmt: "read_text '' GMT'' '' GMT'' = Some []" by code_simp
  obtain wd' where wd': "read_name (LONG_WEEKDAY @ WEEKDAY) (WEEKDAY ! wd @ CHR '','' # CHR '' '' # zero_padded 2 d @
      CHR '' '' # MONTH ! mo @ CHR '' '' # zero_padded 4 y @
      CHR '' '' # zero_padded 2 h @ CHR '':'' # zero_padded 2 mi @ CHR '':'' # zero_padded 2 se @ '' GMT'') =
      Some (wd', CHR '','' # CHR '' '' # zero_padded 2 d @
      CHR '' '' # MONTH ! mo @ CHR '' '' # zero_padded 4 y @
      CHR '' '' # zero_padded 2 h @ CHR '':'' # zero_padded 2 mi @ CHR '':'' # zero_padded 2 se @ '' GMT'')"
      "wd' mod 7 = wd" using read_weekday [OF assms(1)] by blast
  obtain mo' where mo': "read_name (LONG_MONTH @ MONTH) (MONTH ! mo @ CHR '' '' # zero_padded 4 y @
      CHR '' '' # zero_padded 2 h @ CHR '':'' # zero_padded 2 mi @ CHR '':'' # zero_padded 2 se @ '' GMT'') =
      Some (mo', CHR '' '' # zero_padded 4 y @
      CHR '' '' # zero_padded 2 h @ CHR '':'' # zero_padded 2 mi @ CHR '':'' # zero_padded 2 se @ '' GMT'')"
      "mo' mod 12 = mo" using read_month [OF assms(4)] by blast
  note num = read_num_padded [of 1 d 31 2] read_num_padded [of 0 y 9999 4] read_num_padded [of 0 h 23 2]
    read_num_padded [of 0 mi 59 2] read_num_padded [of 0 se 60 2]
  show ?thesis
    unfolding get_time_def using assms
    by (simp add: wd' mo' comma colon month space gmt num del: read_text.simps One_nat_def)
qed

section \<open>Properties\<close>

text \<open>
  C34. A date the server writes is read back as the time it was made from, to the second, from the first
  year of the calendar to the end of the year 9999, when the standard offset of the zone at the date
  is the one that was in force when the offset was first asked for, whether or not it was then
  daylight saving; otherwise it is wrong by the difference of the two. This is for dates, and for first
  uses, that are not within two days of a change of the standard offset.
\<close>

theorem http_date_roundtrip:
  assumes "in_calendar t" and "fsys_gmtime FS = gmtime"
    and "in_calendar first_use" and "in_calendar (local_seconds Z first_use)"
    and "zone_ok Z" and "settled Z t off" and "settled Z first_use off'"
  shows "parse_http_gmt_date Z first_use (format_http_gmt_date FS t) = Some (t + (off' - off))"
proof -
  have "get_time (format_http_gmt_date FS t) = Some (gmtime t)"
    unfolding format_http_gmt_date_def Let_def assms(2)
    using timegm_gmtime(2-9) [OF assms(1)] by (subst get_time_text) simp_all
  moreover have "mktime Z (gmtime t, False) = t - off"
    using mktime_settled [OF assms(5,6), of "gmtime t" False] timegm_gmtime(1) [OF assms(1)] by simp
  moreover have "mktime Z (gmtime first_use, False) = first_use - off'"
    using mktime_settled [OF assms(5,7), of "gmtime first_use" False] timegm_gmtime(1) [OF assms(3)] by simp
  moreover have "mktime Z (localtime Z first_use) = first_use"
  proof -
    have off: "std_offset Z first_use = off'" "\<bar>off'\<bar> \<le> 86400"
      using assms(5,7) std_offset_in [of Z first_use] by (auto simp: settled_def zone_ok_def)
    then show ?thesis
      unfolding localtime_def
      by (subst mktime_settled [OF assms(5,7)])
        (simp_all add: timegm_gmtime(1) [OF assms(4)], simp_all add: local_seconds_def)
  qed
  ultimately show ?thesis by (simp add: parse_http_gmt_date_def get_gmt_timezone_offset_def)
qed

text \<open>A zone that went one hour back, as that of Moscow did in October 2014.\<close>

definition example_zone :: time_zone where
  "example_zone =
     \<lparr>tz_first = 14400, tz_changes = [(1414274400, 10800)], tz_saving = 3600, tz_daylight = (\<lambda>t. False)\<rparr>"

theorem http_date_roundtrip_witness:
  "parse_http_gmt_date example_zone 1700000000
     (format_http_gmt_date (example_fs\<lparr>fsys_gmtime := gmtime\<rparr>) 1600000000) = Some 1600000000 \<and>
   parse_http_gmt_date example_zone 1700000000
     (format_http_gmt_date (example_fs\<lparr>fsys_gmtime := gmtime\<rparr>) 1350000000) = Some (1350000000 - 3600)"
proof -
  let ?FS = "example_fs\<lparr>fsys_gmtime := gmtime\<rparr>"
  have off: "settled example_zone t off" if "off = (if t < 1400000000 then 14400 else 10800)"
    "t < 1400000000 \<or> 1500000000 < t" for t off
    using that by (auto simp: settled_def std_offset_def example_zone_def)
  have zone: "zone_ok example_zone" by (simp add: zone_ok_def zone_offsets_def example_zone_def)
  have now: "in_calendar 1700000000" "in_calendar (local_seconds example_zone 1700000000)"
    by (simp_all add: in_calendar_def local_seconds_def std_offset_def example_zone_def)
  have read: "parse_http_gmt_date example_zone 1700000000 (format_http_gmt_date ?FS t) = Some (t + (10800 - off))"
    if "in_calendar t" "settled example_zone t off" for t off
    using that by (intro http_date_roundtrip [OF _ _ now zone]) (simp_all add: off)
  show ?thesis
    using read [of 1600000000 10800] read [of 1350000000 14400] by (simp add: off in_calendar_def)
qed

section \<open>The date of a response\<close>

text \<open>
  \<open>get\_current\_gmt\_date\<close> over the times at which a thread has made responses: it starts
  with the time 0 and no text, and keeps the last second it was asked in with its text.
\<close>

definition date_cache_after :: "fs_api \<Rightarrow> int list \<Rightarrow> int \<times> string" where
  "date_cache_after FS seen = foldl (\<lambda>c now. fst (get_current_gmt_date FS now c)) (0, []) seen"

lemma date_cache_history:
  "snd (date_cache_after FS seen) = format_http_gmt_date FS (fst (date_cache_after FS seen)) \<or>
   date_cache_after FS seen = (0, [])"
  by (induction seen rule: rev_induct)
    (auto simp: date_cache_after_def get_current_gmt_date_def Let_def)

text \<open>
  Whatever the times of the responses before, the date is that of now, except in the second of the
  epoch, for which a thread that has made no date yet gives an empty one.
\<close>

lemma current_gmt_date:
  assumes "now \<noteq> 0"
  shows "snd (get_current_gmt_date FS now (date_cache_after FS seen)) = format_http_gmt_date FS now"
  using date_cache_history [of FS seen] assms by (auto simp: get_current_gmt_date_def Let_def)

lemma current_gmt_date_epoch: "snd (get_current_gmt_date FS 0 (date_cache_after FS [])) = []"
  by (simp add: date_cache_after_def get_current_gmt_date_def)

end
