(* ===== verification/Size_Text.thy ===== *)
theory Size_Text
  imports Http_Date
begin

text \<open>
  The size and the time of a file as the HTML listing shows them (\<open>to\_string\<close>,
  \<open>add\_suffix\<close> and the format of the local time in \<open>lib/html/html.cpp\<close>). A size is
  converted to a \<open>float\<close> once, which rounds it to 24 binary digits; the divisions by 1024 after
  that are exact, so that a value is an integer over a power of 1024; \<open>snprintf\<close> rounds it to three
  decimals. Both roundings go to the nearest, and to the even one of two.
\<close>

section \<open>The size\<close>

definition round_div :: "nat \<Rightarrow> nat \<Rightarrow> nat" where
  "round_div m d =
     (let q = m div d; r = m mod d
      in if 2 * r < d then q else if d < 2 * r then Suc q else if even q then q else Suc q)"

fun float_exponent :: "nat \<Rightarrow> nat" where
  "float_exponent n = (if n < 16777216 then 0 else Suc (float_exponent (n div 2)))"

declare float_exponent.simps [simp del]

definition to_float :: "nat \<Rightarrow> nat" where
  "to_float n = 2 ^ float_exponent n * round_div n (2 ^ float_exponent n)"

text \<open>\<open>to\_string(v, 4)\<close> for the value \<open>m / d\<close>; what it prints is never shorter than the width.\<close>

definition float_to_string :: "nat \<Rightarrow> nat \<Rightarrow> string" where
  "float_to_string m d =
     (let q = round_div (1000 * m) d in dec_nat (q div 1000) @ ''.'' @ zero_padded 3 (q mod 1000))"

fun suffix_loop :: "nat \<Rightarrow> nat \<Rightarrow> string list \<Rightarrow> string" where
  "suffix_loop m d [] = float_to_string m d @ ''PB''"
| "suffix_loop m d (p # ps) =
     (if m < 1024 * (1024 * d) then float_to_string m (1024 * d) @ p else suffix_loop m (1024 * d) ps)"

definition add_suffix :: "nat \<Rightarrow> string" where
  "add_suffix n = suffix_loop (to_float n) 1 [''kB'', ''MB'', ''GB'', ''TB'']"

section \<open>The time\<close>

definition local_time_text :: "time_zone \<Rightarrow> int \<Rightarrow> string" where
  "local_time_text Z t =
     (let x = fst (localtime Z t)
      in zero_padded 2 (tm_mon x + 1) @ ''-'' @ zero_padded 2 (tm_mday x) @ ''-'' @ dec_nat (tm_year x) @
         '' '' @ zero_padded 2 (tm_hour x) @ '':'' @ zero_padded 2 (tm_min x))"

text \<open>A file system together with the calendar and the printing of the host.\<close>

definition host_fs :: "time_zone \<Rightarrow> fs_api \<Rightarrow> fs_api" where
  "host_fs Z FS =
     FS\<lparr>fsys_gmtime := gmtime, fsys_local_time := local_time_text Z, fsys_size_text := add_suffix\<rparr>"

section \<open>Lemmas\<close>

lemma round_div_near:
  assumes "0 < d"
  shows "2 * \<bar>int d * int (round_div m d) - int m\<bar> \<le> int d"
proof -
  have m: "int m = int d * int (m div d) + int (m mod d)" by (metis mult_div_mod_eq of_nat_add of_nat_mult)
  have r: "m mod d < d" using assms by simp
  have up: "int d * int (Suc (m div d)) - int m = int d - int (m mod d)"
    using m by (simp add: algebra_simps)
  have down: "int d * int (m div d) - int m = - int (m mod d)" using m by simp
  consider "round_div m d = Suc (m div d)" "d \<le> 2 * (m mod d)" | "round_div m d = m div d" "2 * (m mod d) \<le> d"
    by (cases "2 * (m mod d) < d"; cases "d < 2 * (m mod d)"; cases "even (m div d)")
      (simp_all add: round_div_def Let_def)
  then show ?thesis
  proof cases
    case 1
    then show ?thesis unfolding 1(1) up using r by simp
  next
    case 2
    then show ?thesis unfolding 2(1) down by simp
  qed
qed

lemma float_exponent_bound: "n < 16777216 \<or> 8388608 * 2 ^ float_exponent n \<le> n"
proof (induction n rule: float_exponent.induct)
  case (1 n)
  show ?case
  proof (cases "n < 16777216")
    case False
    with 1 have "n div 2 < 16777216 \<or> 8388608 * 2 ^ float_exponent (n div 2) \<le> n div 2" by blast
    moreover have "float_exponent (n div 2) = 0" if "n div 2 < 16777216"
      using that by (simp add: float_exponent.simps)
    ultimately have "8388608 * 2 ^ float_exponent (n div 2) \<le> n div 2" using False by auto
    with False show ?thesis by (simp add: float_exponent.simps [of n])
  qed simp
qed

text \<open>The relative error of the conversion is at most one in \<open>2 ^ 24\<close>.\<close>

lemma to_float_near: "16777216 * \<bar>int (to_float n) - int n\<bar> \<le> int n"
proof (cases "n < 16777216")
  case True
  then show ?thesis by (simp add: to_float_def float_exponent.simps round_div_def)
next
  case False
  let ?d = "2 ^ float_exponent n :: nat"
  have "2 * \<bar>int ?d * int (round_div n ?d) - int n\<bar> \<le> int ?d" by (rule round_div_near) simp
  then have "2 * \<bar>int (to_float n) - int n\<bar> \<le> int ?d" by (simp add: to_float_def)
  moreover have "8388608 * int ?d \<le> int n"
    using float_exponent_bound [of n] False by (metis of_nat_le_iff of_nat_mult of_nat_numeral)
  ultimately show ?thesis by linarith
qed

lemma float_to_string_near:
  assumes "0 < d" and "16777216 * \<bar>int m - int n\<bar> \<le> int n"
  shows "\<exists>q. float_to_string m d = dec_nat (q div 1000) @ ''.'' @ zero_padded 3 (q mod 1000) \<and>
    16777216 * \<bar>int q * int d - 1000 * int n\<bar> \<le> 8388608 * int d + 1000 * int n"
proof (intro exI conjI)
  let ?q = "round_div (1000 * m) d"
  show "float_to_string m d = dec_nat (?q div 1000) @ ''.'' @ zero_padded 3 (?q mod 1000)"
    by (simp add: float_to_string_def Let_def)
  define x where "x = int d * int ?q"
  have "2 * \<bar>x - 1000 * int m\<bar> \<le> int d" using round_div_near [OF assms(1), of "1000 * m"] by (simp add: x_def)
  moreover have "\<bar>x - 1000 * int n\<bar> \<le> \<bar>x - 1000 * int m\<bar> + 1000 * \<bar>int m - int n\<bar>"
  proof -
    have "x - 1000 * int n = (x - 1000 * int m) + 1000 * (int m - int n)" by simp
    also have "\<bar>\<dots>\<bar> \<le> \<bar>x - 1000 * int m\<bar> + \<bar>1000 * (int m - int n)\<bar>" by (rule abs_triangle_ineq)
    finally show ?thesis by (simp only: abs_mult abs_numeral)
  qed
  moreover have "16777216 * u \<le> 8388608 * int d + 1000 * int n"
    if "2 * v \<le> int d" "u \<le> v + 1000 * w" "16777216 * w \<le> int n" for u v w :: int
    using that by linarith
  ultimately have "16777216 * \<bar>x - 1000 * int n\<bar> \<le> 8388608 * int d + 1000 * int n"
    using assms(2) by blast
  then show "16777216 * \<bar>int ?q * int d - 1000 * int n\<bar> \<le> 8388608 * int d + 1000 * int n"
    by (simp add: x_def mult.commute)
qed

lemma add_suffix_unit:
  assumes "to_float n < 1024 ^ 5"
  obtains k u where "(k, u) \<in> {(1, ''kB''), (2, ''MB''), (3, ''GB''), (4 :: nat, ''TB'')}"
    "add_suffix n = float_to_string (to_float n) (1024 ^ k) @ u"
proof -
  consider "to_float n < 1048576" | "1048576 \<le> to_float n" "to_float n < 1073741824"
    | "1073741824 \<le> to_float n" "to_float n < 1099511627776" | "1099511627776 \<le> to_float n" by linarith
  then show thesis
  proof cases
    case 1
    then show ?thesis by (intro that [of 1 "''kB''"]) (simp_all add: add_suffix_def)
  next
    case 2
    then show ?thesis by (intro that [of 2 "''MB''"]) (simp_all add: add_suffix_def)
  next
    case 3
    then show ?thesis by (intro that [of 3 "''GB''"]) (simp_all add: add_suffix_def)
  next
    case 4
    then show ?thesis using assms by (intro that [of 4 "''TB''"]) (simp_all add: add_suffix_def)
  qed
qed

section \<open>Properties\<close>

text \<open>
  The size that is shown: below \<open>2 ^ 50\<close> bytes it is a number of one of the units, with three
  decimals, that differs from the size by half of the last decimal at most and by the error of the
  conversion to a float, one part in \<open>2 ^ 24\<close>.
\<close>

theorem size_text_near:
  assumes "to_float n < 1024 ^ 5"
  shows "\<exists>k u q. (k, u) \<in> {(1, ''kB''), (2, ''MB''), (3, ''GB''), (4 :: nat, ''TB'')} \<and>
    add_suffix n = dec_nat (q div 1000) @ ''.'' @ zero_padded 3 (q mod 1000) @ u \<and>
    16777216 * \<bar>int q * 1024 ^ k - 1000 * int n\<bar> \<le> 8388608 * 1024 ^ k + 1000 * int n"
proof -
  obtain k u where k: "(k, u) \<in> {(1, ''kB''), (2, ''MB''), (3, ''GB''), (4 :: nat, ''TB'')}"
    "add_suffix n = float_to_string (to_float n) (1024 ^ k) @ u"
    by (rule add_suffix_unit [OF assms])
  obtain q where "float_to_string (to_float n) (1024 ^ k) = dec_nat (q div 1000) @ ''.'' @ zero_padded 3 (q mod 1000)"
    "16777216 * \<bar>int q * int (1024 ^ k) - 1000 * int n\<bar> \<le> 8388608 * int (1024 ^ k) + 1000 * int n"
    using float_to_string_near [OF _ to_float_near, of "1024 ^ k" n] by auto
  with k show ?thesis by (intro exI [of _ k] exI [of _ u] exI [of _ q]) simp
qed

text \<open>
  From \<open>2 ^ 50\<close> bytes on the number of terabytes is shown with the unit of petabytes: the value is
  not divided a fifth time.
\<close>

theorem petabytes_not_divided:
  assumes "1024 ^ 5 \<le> to_float n"
  shows "add_suffix n = float_to_string (to_float n) (1024 ^ 4) @ ''PB''"
  using assms by (simp add: add_suffix_def)

end
