(* ===== verification/Response.thy ===== *)
theory Response
  imports Http_Message Html_Listing Mime_Types
begin

text \<open>
  \<open>server::response\<close> (\<open>lib/server/response.cpp\<close>): the constructor and the operations
  that give a response its content. What they take from elsewhere (header container, reason phrases,
  file system) comes in as \<open>fields\_api\<close>, \<open>server\_env\<close> and \<open>fs\_api\<close>. An
  operation that may throw or fault returns a result.
\<close>

section \<open>The operations\<close>

definition response_new ::
  "'f fields_api \<Rightarrow> server_env \<Rightarrow> nat \<Rightarrow> bool \<Rightarrow> ('f, 'j) response" where
  "response_new A E ver keep_alive =
     \<lparr>rs_status = 404, rs_version = ver,
      rs_fields = fa_set_keep_alive A ver keep_alive
        (fa_set A F_date (env_gmt_date E)
          (fa_set A F_server (env_version_string E) (fa_empty A))),
      rs_body = V_Empty, rs_stream_handler = None\<rparr>"

definition set_field ::
  "'f fields_api \<Rightarrow> field \<Rightarrow> string \<Rightarrow> ('f, 'j) response \<Rightarrow> ('f, 'j) response" where
  "set_field A n v rs = rs\<lparr>rs_fields := fa_set A n v (rs_fields rs)\<rparr>"

definition set_content_length ::
  "'f fields_api \<Rightarrow> nat \<Rightarrow> ('f, 'j) response \<Rightarrow> ('f, 'j) response" where
  "set_content_length A n rs = rs\<lparr>rs_fields := fa_set_content_length A n (rs_fields rs)\<rparr>"

definition set_keep_alive ::
  "'f fields_api \<Rightarrow> bool \<Rightarrow> ('f, 'j) response \<Rightarrow> ('f, 'j) response" where
  "set_keep_alive A b rs = rs\<lparr>rs_fields := fa_set_keep_alive A (rs_version rs) b (rs_fields rs)\<rparr>"

definition reset_content :: "('f, 'j) response \<Rightarrow> ('f, 'j) response" where
  "reset_content rs = rs\<lparr>rs_stream_handler := None, rs_body := V_Empty\<rparr>"

definition set_empty_content ::
  "'f fields_api \<Rightarrow> nat \<Rightarrow> ('f, 'j) response \<Rightarrow> ('f, 'j) response" where
  "set_empty_content A status rs =
     set_content_length A 0 ((reset_content rs)\<lparr>rs_status := status, rs_body := V_Empty\<rparr>)"

definition set_string_content ::
  "'f fields_api \<Rightarrow> string \<Rightarrow> string \<Rightarrow> nat \<Rightarrow> ('f, 'j) response \<Rightarrow> ('f, 'j) response" where
  "set_string_content A data content_type status rs =
     (set_field A F_content_type content_type (set_content_length A (length data) (reset_content rs)))
       \<lparr>rs_status := status, rs_body := V_String data\<rparr>"

definition error_page :: "nat \<Rightarrow> string \<Rightarrow> string \<Rightarrow> string" where
  "error_page status reason server =
     (let title = dec_nat status @ '' '' @ reason
      in ''<html>'' @ [lf] @
         ''<head><title>'' @ title @ ''</title></head>'' @ [lf] @
         ''<body bgcolor='' @ [dquote] @ ''white'' @ [dquote] @ ''>'' @ [lf] @
         ''<center><h1>'' @ title @ ''</h1></center>'' @ [lf] @
         ''<hr><center>'' @ server @ ''</center>'' @ [lf] @
         ''</body>'' @ [lf] @
         ''</html>'')"

text \<open>\<open>at\<close> throws when a handler has removed the field.\<close>

definition set_error_content ::
  "'f fields_api \<Rightarrow> server_env \<Rightarrow> nat \<Rightarrow> ('f, 'j) response \<Rightarrow> ('f, 'j) response result" where
  "set_error_content A E status rs =
     (case fa_find A (rs_fields rs) F_server of
        None \<Rightarrow> Inl Out_Of_Range
      | Some server \<Rightarrow>
          Inr (set_string_content A (error_page status (env_reason E status) server)
            ''text/html; charset=utf-8'' status rs))"

definition set_json_content ::
  "'f fields_api \<Rightarrow> 'j \<Rightarrow> nat \<Rightarrow> ('f, 'j) response \<Rightarrow> ('f, 'j) response" where
  "set_json_content A data status rs =
     (set_field A F_cache_control ''no-store''
       (set_field A F_content_type ''application/json; charset=utf-8''
         ((reset_content rs)\<lparr>rs_status := status\<rparr>)))\<lparr>rs_body := V_Json data\<rparr>"

definition set_form_data_content ::
  "'f fields_api \<Rightarrow> server_env \<Rightarrow> form_field list \<Rightarrow> ('f, 'j) response \<Rightarrow> ('f, 'j) response" where
  "set_form_data_content A E data rs =
     (set_field A F_content_type (''multipart/form-data; boundary='' @ env_boundary E)
       ((reset_content rs)\<lparr>rs_status := 200\<rparr>))
       \<lparr>rs_body := V_Form \<lparr>fd_fields = data, fd_boundary = env_boundary E\<rparr>\<rparr>"

definition set_redirect ::
  "'f fields_api \<Rightarrow> string \<Rightarrow> nat \<Rightarrow> ('f, 'j) response \<Rightarrow> ('f, 'j) response" where
  "set_redirect A url status rs = set_empty_content A status (set_field A F_location url rs)"

definition set_stream_content ::
  "'f fields_api \<Rightarrow> stream_handler \<Rightarrow> string \<Rightarrow> nat \<Rightarrow> ('f, 'j) response \<Rightarrow> ('f, 'j) response" where
  "set_stream_content A handler content_type status rs =
     (set_field A F_content_type content_type
       ((reset_content rs)\<lparr>rs_stream_handler := Some handler\<rparr>))
       \<lparr>rs_status := status, rs_body := V_Empty\<rparr>"

section \<open>set\_file\_content\<close>

definition file_etag :: "nat \<Rightarrow> int \<Rightarrow> string" where
  "file_etag file_size write_time = ''W/'' @ dec_nat file_size @ ''-'' @ dec_int write_time"

definition content_range_text :: "byte_range \<Rightarrow> nat \<Rightarrow> string" where
  "content_range_text r file_size =
     ''bytes '' @ dec_int (fst r) @ ''-'' @ dec_int (snd r) @ ''/'' @ dec_nat file_size"

text \<open>The last part: status and fields by the number of ranges.\<close>

definition set_opened_file ::
  "'f fields_api \<Rightarrow> server_env \<Rightarrow> nat \<Rightarrow> file_value \<Rightarrow> ('f, 'j) response \<Rightarrow> ('f, 'j) response" where
  "set_opened_file A E file_size file rs =
     (case fv_ranges file of
        [] \<Rightarrow>
          set_content_length A file_size
            ((set_field A F_content_type (fv_content_type file)
               (set_field A F_accept_ranges ''bytes'' rs))\<lparr>rs_status := 200\<rparr>)
            \<lparr>rs_body := V_File file\<rparr>
      | [r] \<Rightarrow>
          set_content_length A (nat (to_unsigned 64 (snd r + 1 - fst r)))
            ((set_field A F_content_type (fv_content_type file)
               (set_field A F_content_range (content_range_text r file_size) rs))\<lparr>rs_status := 206\<rparr>)
            \<lparr>rs_body := V_File file\<rparr>
      | _ \<Rightarrow>
          ((set_field A F_content_type (''multipart/byteranges; boundary='' @ env_boundary E) rs)
            \<lparr>rs_status := 206\<rparr>)\<lparr>rs_body := V_File (file\<lparr>fv_boundary := env_boundary E\<rparr>)\<rparr>)"

definition set_file_content ::
  "'f fields_api \<Rightarrow> server_env \<Rightarrow> fs_api \<Rightarrow> string \<Rightarrow> 'f \<Rightarrow> ('f, 'j) response \<Rightarrow>
   ('f, 'j) response result" where
  "set_file_content A E FS path req_header rs0 =
     (let rs = reset_content rs0
      in case fsys_file_size FS path of
           None \<Rightarrow> Inr rs
         | Some file_size \<Rightarrow>
             (case file_last_write_time FS path of
                None \<Rightarrow> Inr rs
              | Some file_write_time \<Rightarrow>
                  rbind (ranges_parse (fa_get A req_header F_range) (int file_size)) (\<lambda>(ok, ranges).
                    if \<not> ok then
                      Inr (set_empty_content A 416
                        (set_field A F_content_range (''bytes */'' @ dec_nat file_size) rs))
                    else
                      let file_etag_str = file_etag file_size file_write_time;
                          file_gmt_date_str = format_http_gmt_date FS file_write_time
                      in if fa_get A req_header F_if_none_match = file_etag_str
                         then Inr (set_empty_content A 304 rs)
                         else if fa_get A req_header F_if_modified_since = file_gmt_date_str
                         then Inr (set_empty_content A 304 rs)
                         else
                           (case fsys_read FS path of
                              None \<Rightarrow> Inr rs
                            | Some data \<Rightarrow>
                                let file = (file_open data)
                                      \<lparr>fv_content_type := get_mime_type (path_extension path),
                                       fv_ranges := ranges\<rparr>
                                in Inr (set_opened_file A E file_size file
                                     (set_field A F_last_modified file_gmt_date_str
                                       (set_field A F_etag file_etag_str rs)))))))"

section \<open>Lemmas\<close>

lemmas response_ops =
  set_field_def set_content_length_def set_keep_alive_def reset_content_def set_empty_content_def
  set_string_content_def set_json_content_def set_form_data_content_def set_redirect_def
  set_stream_content_def

text \<open>The framing and content type of a response, in one place.\<close>

definition framed :: "'f fields_api \<Rightarrow> nat \<Rightarrow> ('f, 'j) response \<Rightarrow> bool" where
  "framed A n rs \<longleftrightarrow>
     fa_content_length A (rs_fields rs) = Some n \<and> \<not> fa_chunked A (rs_fields rs) \<and>
     rs_stream_handler rs = None"

text \<open>The file as the writer will see it.\<close>

lemma set_file_content_opened:
  assumes "fields_laws A" and "fsys_file_size FS path = Some (length data)"
    and "fsys_write_time FS path = Some t" and "fsys_read FS path = Some data"
    and "ranges_parse (fa_get A h F_range) (int (length data)) = Inr (True, rgs)"
    and "fa_get A h F_if_none_match \<noteq> file_etag (length data) t"
    and "fa_get A h F_if_modified_since \<noteq> format_http_gmt_date FS t"
  shows "set_file_content A E FS path h rs =
     Inr (set_opened_file A E (length data)
       ((file_open data)\<lparr>fv_content_type := get_mime_type (path_extension path), fv_ranges := rgs\<rparr>)
       (set_field A F_last_modified (format_http_gmt_date FS t)
         (set_field A F_etag (file_etag (length data) t) (reset_content rs))))"
  using assms by (simp add: set_file_content_def file_last_write_time_def Let_def)

text \<open>A boundary that is generated is one a form can be sent and read with.\<close>

lemma generate_boundary_ok: "boundary_ok (generate_boundary millis random)"
proof -
  let ?b = "generate_boundary millis random"
  have chars: "c = CHR ''-'' \<or> isdigit c" if "c \<in> set ?b" for c
    using that dec_nat_digits [of millis] dec_nat_digits [of random] by (auto simp: generate_boundary_def)
  then have "\<forall>c\<in>set ?b. \<not> isspace c" using not_isspace_digit by (fastforce simp: isspace_def [of "CHR ''-''"])
  then have "trim ?b = ?b" by (rule trim_id_no_space)
  moreover have "cr \<notin> set ?b" "CHR '';'' \<notin> set ?b" "CHR ''='' \<notin> set ?b"
    using chars [of cr] chars [of "CHR '';''"] chars [of "CHR ''=''"] by (auto simp: isdigit_def)
  ultimately show ?thesis by (simp add: boundary_ok_def generate_boundary_def)
qed

text \<open>From the file system to the bytes that are sent.\<close>

lemma file_content_sent:
  assumes "fields_laws A" and "fsys_file_size FS path = Some (length data)"
    and "fsys_write_time FS path = Some t" and "fsys_read FS path = Some data"
    and "ranges_parse (fa_get A h F_range) (int (length data)) = Inr (True, rgs)"
    and "fa_get A h F_if_none_match \<noteq> file_etag (length data) t"
    and "fa_get A h F_if_modified_since \<noteq> format_http_gmt_date FS t"
    and "int (length data) < 2 ^ 63"
    and "rgs = [] \<or> (\<exists>a b. rgs = [(int a, int b)] \<and> a \<le> b \<and> b < length data)"
    and "0 < B" and "length data < n"
  shows "\<exists>rs' file text. set_file_content A E FS path h rs = Inr rs' \<and>
           rs_status rs' = (if rgs = [] then 200 else 206) \<and> rs_body rs' = V_File file \<and>
           drain (file_writer_get B) n (file_writer_new junk file) = Some (text, None) \<and>
           framed A (length text) rs' \<and>
           text = (case rgs of [] \<Rightarrow> data
                   | (a, b) # _ \<Rightarrow> take (nat (b + 1 - a)) (drop (nat a) data)) \<and>
           file = (file_open data)\<lparr>fv_content_type := get_mime_type (path_extension path), fv_ranges := rgs\<rparr> \<and>
           fa_find A (rs_fields rs') F_content_type = Some (get_mime_type (path_extension path)) \<and>
           fa_find A (rs_fields rs') F_content_encoding = fa_find A (rs_fields rs) F_content_encoding"
proof -
  let ?file = "(file_open data)\<lparr>fv_content_type := get_mime_type (path_extension path), fv_ranges := rgs\<rparr>"
  let ?rs = "set_field A F_last_modified (format_http_gmt_date FS t)
      (set_field A F_etag (file_etag (length data) t) (reset_content rs))"
  let ?text = "case rgs of [] \<Rightarrow> data | (a, b) # _ \<Rightarrow> take (nat (b + 1 - a)) (drop (nat a) data)"
  have set: "set_file_content A E FS path h rs = Inr (set_opened_file A E (length data) ?file ?rs)"
    by (rule set_file_content_opened [OF assms(1-7)])
  have "?file = ((file_open data)\<lparr>fv_ranges := rgs\<rparr>)\<lparr>fv_content_type := get_mime_type (path_extension path)\<rparr>"
    by simp
  have run: "drain (file_writer_get B) n (file_writer_new junk ?file) = Some (?text, None)"
    by (rule file_writer_text [OF assms(10,8,9,11)])
  note [simp] = fields_laws_simps [OF assms(1)]
  from assms(9) consider "rgs = []" | a b where "rgs = [(int a, int b)]" "a \<le> b" "b < length data"
    by blast
  then have "rs_body (set_opened_file A E (length data) ?file ?rs) = V_File ?file \<and>
      rs_status (set_opened_file A E (length data) ?file ?rs) = (if rgs = [] then 200 else 206) \<and>
      framed A (length ?text) (set_opened_file A E (length data) ?file ?rs) \<and>
      fa_find A (rs_fields (set_opened_file A E (length data) ?file ?rs)) F_content_type =
        Some (get_mime_type (path_extension path)) \<and>
      fa_find A (rs_fields (set_opened_file A E (length data) ?file ?rs)) F_content_encoding =
        fa_find A (rs_fields rs) F_content_encoding"
  proof cases
    case 1
    then show ?thesis by (simp add: set_opened_file_def response_ops framed_def)
  next
    case 2
    have "nat (to_unsigned 64 (int b + 1 - int a)) = Suc b - a"
      using 2 assms(8) to_unsigned_nat [of "Suc b - a"] by (simp add: of_nat_diff add.commute)
    moreover have "nat (int b + 1 - int a) = Suc b - a" by linarith
    ultimately show ?thesis using 2
      by (simp add: set_opened_file_def response_ops framed_def)
  qed
  with set run show ?thesis by blast
qed

definition example_env :: server_env where
  "example_env =
     \<lparr>env_version_string = ''Beast'', env_gmt_date = ''Thu, 01 Jan 1970 00:00:00 GMT'',
      env_reason = (\<lambda>n. ''Reason''), env_boundary = ''----------------1100000''\<rparr>"

section \<open>Properties\<close>

text \<open>
  C31. An error response is complete: its status is the one asked for, its page is framed by its exact
  length and never chunked, a stream handler set before is gone, the connection's persistence and
  every other field are as they were. It throws only when the Server field has been removed.
\<close>

theorem error_content_complete:
  assumes "fields_laws A"
  shows "(case set_error_content A E status rs of
            Inl e \<Rightarrow> e = Out_Of_Range \<and> fa_find A (rs_fields rs) F_server = None
          | Inr rs' \<Rightarrow>
              rs_status rs' = status \<and>
              (\<exists>page. rs_body rs' = V_String page \<and> framed A (length page) rs') \<and>
              fa_find A (rs_fields rs') F_content_type = Some ''text/html; charset=utf-8'' \<and>
              fa_keep_alive A (rs_version rs') (rs_fields rs') =
                fa_keep_alive A (rs_version rs) (rs_fields rs) \<and>
              (\<forall>n. n \<noteq> F_content_type \<longrightarrow> fa_find A (rs_fields rs') n = fa_find A (rs_fields rs) n))"
  using fields_laws_simps [OF assms]
  by (simp add: set_error_content_def response_ops framed_def split: option.splits)

theorem error_content_complete_witness:
  "(case set_error_content plain_api example_env 404
           (response_new plain_api example_env 11 True :: (plain_fields, string) response) of
      Inl e \<Rightarrow> e = Out_Of_Range \<and>
        fa_find plain_api (rs_fields (response_new plain_api example_env 11 True
          :: (plain_fields, string) response)) F_server = None
    | Inr rs' \<Rightarrow>
        rs_status rs' = 404 \<and>
        (\<exists>page. rs_body rs' = V_String page \<and> framed plain_api (length page) rs') \<and>
        fa_find plain_api (rs_fields rs') F_content_type = Some ''text/html; charset=utf-8'' \<and>
        fa_keep_alive plain_api (rs_version rs') (rs_fields rs') =
          fa_keep_alive plain_api (rs_version (response_new plain_api example_env 11 True
            :: (plain_fields, string) response)) (rs_fields (response_new plain_api example_env 11 True
            :: (plain_fields, string) response)) \<and>
        (\<forall>n. n \<noteq> F_content_type \<longrightarrow> fa_find plain_api (rs_fields rs') n =
           fa_find plain_api (rs_fields (response_new plain_api example_env 11 True
             :: (plain_fields, string) response)) n))"
  by (rule error_content_complete [OF plain_laws])

text \<open>
  A file served whole or by one range inside it: the status is 200 or 206, and the length that the
  response announces is the length of what the body's writer sends, which is the file or the bytes
  of the range, for every buffer size and whatever the writer's uninitialised member holds.
\<close>

theorem file_content_served:
  assumes "fields_laws A" and "fsys_file_size FS path = Some (length data)"
    and "fsys_write_time FS path = Some t" and "fsys_read FS path = Some data"
    and "ranges_parse (fa_get A h F_range) (int (length data)) = Inr (True, rgs)"
    and "fa_get A h F_if_none_match \<noteq> file_etag (length data) t"
    and "fa_get A h F_if_modified_since \<noteq> format_http_gmt_date FS t"
    and "int (length data) < 2 ^ 63"
    and "rgs = [] \<or> (\<exists>a b. rgs = [(int a, int b)] \<and> a \<le> b \<and> b < length data)"
    and "0 < B" and "length data < n"
  shows "\<exists>rs' file text. set_file_content A E FS path h rs = Inr rs' \<and>
           rs_status rs' = (if rgs = [] then 200 else 206) \<and> rs_body rs' = V_File file \<and>
           drain (file_writer_get B) n (file_writer_new junk file) = Some (text, None) \<and>
           framed A (length text) rs' \<and>
           text = (case rgs of [] \<Rightarrow> data
                   | (a, b) # _ \<Rightarrow> take (nat (b + 1 - a)) (drop (nat a) data))"
  using file_content_sent [OF assms, of E rs junk] by blast

definition example_header :: "string \<Rightarrow> plain_fields" where
  "example_header rg = fa_set plain_api F_range rg (fa_empty plain_api)"

lemma example_header_simps [simp]:
  "fa_get plain_api (example_header rg) F_range = rg"
  "fa_get plain_api (example_header rg) F_if_none_match = []"
  "fa_get plain_api (example_header rg) F_if_modified_since = []"
  by (simp_all add: example_header_def fa_get_def plain_api_def)

lemma example_fs_file:
  "fsys_file_size example_fs ''/srv/a.txt'' = Some (length ''hello'')"
  "fsys_write_time example_fs ''/srv/a.txt'' = Some 86400"
  "fsys_read example_fs ''/srv/a.txt'' = Some ''hello''"
  "[] \<noteq> file_etag (length ''hello'') 86400"
  "[] \<noteq> format_http_gmt_date example_fs 86400"
  by (simp_all add: example_fs_def file_etag_def format_http_gmt_date_def Let_def)

theorem file_content_served_witness:
  "\<exists>rs' file text. set_file_content plain_api example_env example_fs ''/srv/a.txt''
         (example_header ''bytes=1-3'') (response_new plain_api example_env 11 True
           :: (plain_fields, string) response) = Inr rs' \<and>
     rs_status rs' = 206 \<and> rs_body rs' = V_File file \<and>
     drain (file_writer_get 2) 6 (file_writer_new 0 file) = Some (text, None) \<and>
     framed plain_api (length text) rs' \<and> text = ''ell''"
proof -
  have r: "ranges_parse (fa_get plain_api (example_header ''bytes=1-3'') F_range) (int (length ''hello'')) =
      Inr (True, [(int 1, int 3)])"
    unfolding example_header_simps by code_simp
  have h: "fa_get plain_api (example_header ''bytes=1-3'') F_if_none_match \<noteq> file_etag (length ''hello'') 86400"
    "fa_get plain_api (example_header ''bytes=1-3'') F_if_modified_since \<noteq> format_http_gmt_date example_fs 86400"
    using example_fs_file(4,5) by simp_all
  from file_content_served [OF plain_laws example_fs_file(1-3) r h, of 2 6 example_env
      "response_new plain_api example_env 11 True :: (plain_fields, string) response" 0]
  show ?thesis by (simp add: eval_nat_numeral)
qed

text \<open>
  A range whose last position lies before its first by more than one is not refused: the response
  is 206 and announces a content length of almost \<open>2 ^ 64\<close>, because the difference of the
  positions is converted to an unsigned type.
\<close>

theorem inverted_range_content_length:
  assumes "fields_laws A" and "fsys_file_size FS path = Some (length data)"
    and "fsys_write_time FS path = Some t" and "fsys_read FS path = Some data"
    and "ranges_parse (fa_get A h F_range) (int (length data)) = Inr (True, [(int a, int b)])"
    and "fa_get A h F_if_none_match \<noteq> file_etag (length data) t"
    and "fa_get A h F_if_modified_since \<noteq> format_http_gmt_date FS t"
    and "b + 1 < a" and "int a < 2 ^ 31"
  shows "\<exists>rs'. set_file_content A E FS path h rs = Inr rs' \<and> rs_status rs' = 206 \<and>
           framed A (2 ^ 64 - (a - (b + 1))) rs'"
proof -
  have "to_unsigned 64 (int b + 1 - int a) = 2 ^ 64 - int (a - (b + 1))"
  proof -
    have "(int b + 1 - int a) mod 2 ^ 64 = (int b + 1 - int a + 2 ^ 64) mod 2 ^ 64"
      by (rule mod_add_self2 [symmetric])
    also have "\<dots> = int b + 1 - int a + 2 ^ 64"
      using assms(8,9) by (intro mod_pos_pos_trivial) simp_all
    finally show ?thesis using assms(8) by (simp add: to_unsigned_def of_nat_diff)
  qed
  then have "nat (to_unsigned 64 (int b + 1 - int a)) = 2 ^ 64 - (a - (b + 1))"
    using assms(8,9) by (simp add: nat_diff_distrib)
  with fields_laws_simps [OF assms(1)] show ?thesis
    unfolding set_file_content_opened [OF assms(1-7)]
    by (simp add: set_opened_file_def response_ops framed_def)
qed

theorem inverted_range_content_length_witness:
  "\<exists>rs'. set_file_content plain_api example_env example_fs ''/srv/a.txt''
         (example_header ''bytes=4-2'') (response_new plain_api example_env 11 True
           :: (plain_fields, string) response) = Inr rs' \<and>
     rs_status rs' = 206 \<and> framed plain_api (2 ^ 64 - (4 - (2 + 1))) rs'"
proof -
  have r: "ranges_parse (fa_get plain_api (example_header ''bytes=4-2'') F_range) (int (length ''hello'')) =
      Inr (True, [(int 4, int 2)])"
    unfolding example_header_simps by code_simp
  have h: "fa_get plain_api (example_header ''bytes=4-2'') F_if_none_match \<noteq> file_etag (length ''hello'') 86400"
    "fa_get plain_api (example_header ''bytes=4-2'') F_if_modified_since \<noteq> format_http_gmt_date example_fs 86400"
    using example_fs_file(4,5) by simp_all
  show ?thesis
    using inverted_range_content_length [OF plain_laws example_fs_file(1-3) r h] by simp
qed

end
