(* ===== verification/Mount_Point.thy ===== *)
theory Mount_Point
  imports Response
begin

text \<open>
  \<open>mount\_point\_entry\<close> (\<open>lib/server/mount_point_entry.cpp\<close>): the check of the
  relative path, and the handler that serves a file or a listing below the base directory. The check
  is proved to accept exactly the paths that stay below their start when their components are
  resolved one after the other, and what the handler opens is proved to lie below the base directory.
\<close>

section \<open>is\_valid\_path\<close>

lemma component_rest_less:
  "s \<noteq> [] \<Longrightarrow> length (dropWhile (\<lambda>c. c = CHR ''/'') (dropWhile (\<lambda>c. c \<noteq> CHR ''/'') s)) < length s"
proof (cases s)
  case (Cons c cs)
  have "length (dropWhile P (dropWhile Q cs)) \<le> length cs" for P Q :: "char \<Rightarrow> bool"
    by (rule order_trans [OF length_dropWhile_le length_dropWhile_le])
  moreover have "length (dropWhile P cs) \<le> length cs" for P :: "char \<Rightarrow> bool"
    by (rule length_dropWhile_le)
  ultimately show ?thesis using Cons by (auto simp: less_Suc_eq_le)
qed simp

function valid_components :: "nat \<Rightarrow> string \<Rightarrow> bool" where
  "valid_components level s =
     (if s = [] then True
      else
        let comp = takeWhile (\<lambda>c. c \<noteq> CHR ''/'') s;
            rest = dropWhile (\<lambda>c. c = CHR ''/'') (dropWhile (\<lambda>c. c \<noteq> CHR ''/'') s)
        in if CHR 0x00 \<in> set comp \<or> backslash \<in> set comp then False
           else if comp = ''.'' then valid_components level rest
           else if comp = ''..'' then
             (if level = 0 then False else valid_components (level - 1) rest)
           else valid_components (level + 1) rest)"
  by pat_completeness auto

termination
  by (relation "measure (\<lambda>(_, s). length s)") (auto simp: component_rest_less)

declare valid_components.simps [simp del]

definition is_valid_path :: "string \<Rightarrow> bool" where
  "is_valid_path path = valid_components 0 (dropWhile (\<lambda>c. c = CHR ''/'') path)"

section \<open>The handler\<close>

datatype dir_format_type = Dir_Json | Dir_Html

record mount_point_entry =
  mp_mount_point :: string
  mp_base_dir :: string
  mp_enabled_dir :: bool
  mp_dir_type :: dir_format_type
  mp_default_doc_name :: "string list"

definition mount_point_new :: "string \<Rightarrow> string \<Rightarrow> mount_point_entry" where
  "mount_point_new mount_point base_dir =
     \<lparr>mp_mount_point = mount_point, mp_base_dir = base_dir, mp_enabled_dir = True,
      mp_dir_type = Dir_Json, mp_default_doc_name = [''index.html'', ''index.htm'']\<rparr>"

definition set_enabled_dir :: "bool \<Rightarrow> mount_point_entry \<Rightarrow> mount_point_entry" where
  "set_enabled_dir enabled mp = mp\<lparr>mp_enabled_dir := enabled\<rparr>"

definition set_dir_format :: "dir_format_type \<Rightarrow> mount_point_entry \<Rightarrow> mount_point_entry" where
  "set_dir_format t mp = mp\<lparr>mp_dir_type := t\<rparr>"

definition set_default_doc_name :: "string list \<Rightarrow> mount_point_entry \<Rightarrow> mount_point_entry" where
  "set_default_doc_name ns mp = mp\<lparr>mp_default_doc_name := ns\<rparr>"

text \<open>The loop over the default documents: the path stays as it is when none is a file.\<close>

fun choose_document :: "fs_api \<Rightarrow> string \<Rightarrow> string list \<Rightarrow> string" where
  "choose_document FS path [] = path"
| "choose_document FS path (doc_name # names) =
     (if fsys_is_regular FS (path_join path doc_name) then path_join path doc_name
      else choose_document FS path names)"

definition mount_target :: "fs_api \<Rightarrow> mount_point_entry \<Rightarrow> string \<Rightarrow> string" where
  "mount_target FS mp relative_path =
     (let path = path_join (mp_base_dir mp) relative_path
      in if has_filename path then path else choose_document FS path (mp_default_doc_name mp))"

text \<open>Turning the entries of a listing into a JSON array is Boost's: a parameter.\<close>

definition list_directory ::
  "'f fields_api \<Rightarrow> server_env \<Rightarrow> fs_api \<Rightarrow> (json_entry list \<Rightarrow> 'j) \<Rightarrow> mount_point_entry \<Rightarrow> string \<Rightarrow>
   string \<Rightarrow> ('f, 'j) response \<Rightarrow> ('f, 'j) response result" where
  "list_directory A E FS mk_json mp target path rs =
     (if mp_enabled_dir mp then
        (case mp_dir_type mp of
           Dir_Json \<Rightarrow>
             let (doc, ec) = format_dir_to_json FS path;
                 rs' = set_json_content A (mk_json doc) 200 rs
             in if ec then set_error_content A E 500 rs' else Inr rs'
         | Dir_Html \<Rightarrow>
             Inr (set_string_content A (format_dir_to_html FS target path) ''text/html; charset=utf-8''
               200 rs))
      else set_error_content A E 403 rs)"

definition mount_point_call ::
  "'f fields_api \<Rightarrow> server_env \<Rightarrow> fs_api \<Rightarrow> (json_entry list \<Rightarrow> 'j) \<Rightarrow> mount_point_entry \<Rightarrow>
   ('f, 'j) request \<Rightarrow> ('f, 'j) response \<Rightarrow> ('f, 'j) response result" where
  "mount_point_call A E FS mk_json mp req rs =
     rbind (request_path_param req ''*'') (\<lambda>relative_path.
       if \<not> is_valid_path relative_path then set_error_content A E 400 rs
       else if \<not> fsys_exists FS (path_join (mp_base_dir mp) relative_path)
       then set_error_content A E 404 rs
       else
         let path = mount_target FS mp relative_path
         in if has_filename path then
              (if fsys_is_regular FS path then set_file_content A E FS path (rq_fields req) rs
               else set_error_content A E 404 rs)
            else if fsys_is_dir FS path
            then list_directory A E FS mk_json mp (request_path req) path rs
            else set_error_content A E 403 rs)"

section \<open>Components and their resolution\<close>

function components :: "string \<Rightarrow> string list" where
  "components s =
     (if s = [] then []
      else
        let comp = takeWhile (\<lambda>c. c \<noteq> CHR ''/'') s;
            rest = dropWhile (\<lambda>c. c = CHR ''/'') (dropWhile (\<lambda>c. c \<noteq> CHR ''/'') s)
        in (if comp = [] then [] else [comp]) @ components rest)"
  by pat_completeness auto
termination
  by (relation "measure length") (auto simp: component_rest_less)

declare components.simps [simp del]

text \<open>Walking a list of components down from a stack; \<open>None\<close> when it climbs above the start.\<close>

fun resolve :: "string list \<Rightarrow> string list \<Rightarrow> string list option" where
  "resolve st [] = Some st"
| "resolve st (c # cs) =
     (if c = ''.'' then resolve st cs
      else if c = ''..'' then (if st = [] then None else resolve (butlast st) cs)
      else resolve (st @ [c]) cs)"

lemma resolve_append:
  "resolve st (xs @ ys) = (case resolve st xs of None \<Rightarrow> None | Some st' \<Rightarrow> resolve st' ys)"
  by (induction xs arbitrary: st) simp_all

lemma resolve_below: "resolve st cs = Some st' \<Longrightarrow> resolve (base @ st) cs = Some (base @ st')"
proof (induction cs arbitrary: st)
  case (Cons c cs)
  show ?case
  proof (cases "c = ''..''")
    case True
    with Cons.prems have "st \<noteq> []" "resolve (butlast st) cs = Some st'" by (auto split: if_splits)
    with True Cons.IH [of "butlast st"] show ?thesis by (simp add: butlast_append)
  next
    case False
    with Cons.prems Cons.IH [of st] Cons.IH [of "st @ [c]"] show ?thesis by (simp split: if_splits)
  qed
qed simp

lemma components_first_ne:
  "s \<noteq> [] \<Longrightarrow> hd s \<noteq> CHR ''/'' \<Longrightarrow> takeWhile (\<lambda>c. c \<noteq> CHR ''/'') s \<noteq> []"
  by (cases s) auto

lemma dropWhile_hd: "dropWhile P s = [] \<or> \<not> P (hd (dropWhile P s))"
  by (metis hd_dropWhile)

lemma valid_components_resolve:
  "s = [] \<or> hd s \<noteq> CHR ''/'' \<Longrightarrow> length st = level \<Longrightarrow>
   valid_components level s \<longleftrightarrow>
     (\<forall>c\<in>set (components s). CHR 0x00 \<notin> set c \<and> backslash \<notin> set c) \<and>
     resolve st (components s) \<noteq> None"
proof (induction level s arbitrary: st rule: valid_components.induct)
  case (1 level s)
  show ?case
  proof (cases "s = []")
    case True
    then show ?thesis by (simp add: valid_components.simps [of level] components.simps [of "[]"])
  next
    case False
    define comp where "comp = takeWhile (\<lambda>c. c \<noteq> CHR ''/'') s"
    define rest where "rest = dropWhile (\<lambda>c. c = CHR ''/'') (dropWhile (\<lambda>c. c \<noteq> CHR ''/'') s)"
    have ne: "comp \<noteq> []" using False "1.prems"(1) components_first_ne by (simp add: comp_def)
    have r: "rest = [] \<or> hd rest \<noteq> CHR ''/''" unfolding rest_def using dropWhile_hd by blast
    have comps: "components s = comp # components rest"
      using False ne by (simp add: components.simps [of s] comp_def rest_def Let_def)
    have vc: "valid_components level s =
        (if CHR 0x00 \<in> set comp \<or> backslash \<in> set comp then False
         else if comp = ''.'' then valid_components level rest
         else if comp = ''..'' then (if level = 0 then False else valid_components (level - 1) rest)
         else valid_components (level + 1) rest)"
      using False by (simp add: valid_components.simps [of level s] comp_def rest_def Let_def)
    note IH = "1.IH" [OF False comp_def rest_def]
    show ?thesis
    proof (cases "CHR 0x00 \<in> set comp \<or> backslash \<in> set comp")
      case True
      then show ?thesis using vc comps by auto
    next
      case clean: False
      consider "comp = ''.''" | "comp = ''..''" "level = 0" | "comp = ''..''" "level \<noteq> 0"
        | "comp \<noteq> ''.''" "comp \<noteq> ''..''" by blast
      then show ?thesis
      proof cases
        case 1
        with clean vc comps IH(1) [OF clean] r "1.prems"(2) show ?thesis by auto
      next
        case 2
        with clean vc comps "1.prems"(2) show ?thesis by simp
      next
        case 3
        then have "length (butlast st) = level - 1" "st \<noteq> []" using "1.prems"(2) by auto
        with 3 clean vc comps IH(2) [OF clean _ 3(1,2) r] show ?thesis by auto
      next
        case 4
        have "length (st @ [comp]) = level + 1" using "1.prems"(2) by simp
        with 4 clean vc comps IH(3) [OF clean 4 r] show ?thesis by auto
      qed
    qed
  qed
qed

lemma components_skip: "components (dropWhile (\<lambda>c. c = CHR ''/'') s) = components s"
proof (cases s)
  case (Cons c cs)
  show ?thesis
  proof (cases "c = CHR ''/''")
    case True
    with Cons show ?thesis by (simp add: components.simps [of "CHR ''/'' # cs"])
  qed (simp add: Cons)
qed simp

lemma components_append: "components (a @ CHR ''/'' # b) = components a @ components b"
proof (induction "length a" arbitrary: a rule: less_induct)
  case less
  let ?P = "\<lambda>c. c = CHR ''/''" and ?Q = "\<lambda>c. c \<noteq> CHR ''/''"
  show ?case
  proof (cases "a = []")
    case True
    then show ?thesis
      by (simp add: components.simps [of "CHR ''/'' # b"] components.simps [of "[]"] components_skip)
  next
    case False
    define rest where "rest = dropWhile ?P (dropWhile ?Q a)"
    have tw: "takeWhile ?Q (a @ CHR ''/'' # b) = takeWhile ?Q a"
      by (induction a) auto
    have dw: "dropWhile ?Q (a @ CHR ''/'' # b) = dropWhile ?Q a @ CHR ''/'' # b"
      by (induction a) auto
    have skip: "components (dropWhile ?P (x @ CHR ''/'' # b)) = components (dropWhile ?P x @ CHR ''/'' # b)"
      for x
      by (induction x) (simp_all add: components_skip [of "CHR ''/'' # b", simplified, symmetric]
          components_skip [of b])
    have "components (rest @ CHR ''/'' # b) = components rest @ components b"
      using less [of rest] component_rest_less [OF False] by (simp add: rest_def)
    then show ?thesis using False tw dw skip [of "dropWhile ?Q a"]
      by (simp add: components.simps [of "a @ CHR ''/'' # b"] components.simps [of a] rest_def Let_def)
  qed
qed

lemma components_join:
  "\<not> starts_with ''/'' rel \<Longrightarrow> components (path_join base rel) = components base @ components rel"
proof -
  assume rel: "\<not> starts_with ''/'' rel"
  consider "base = []" | b where "base = b @ ''/''" | "base \<noteq> []" "last base \<noteq> CHR ''/''"
    by (metis append_butlast_last_id)
  then show ?thesis
  proof cases
    case 1
    with rel show ?thesis by (simp add: path_join_def components.simps [of "[]"])
  next
    case 2
    with rel show ?thesis
      using components_append [of b rel] components_append [of b "[]"]
      by (simp add: path_join_def components.simps [of "[]"])
  next
    case 3
    with rel components_append [of base rel] show ?thesis by (simp add: path_join_def)
  qed
qed

lemma is_valid_path_resolve:
  "is_valid_path p \<longleftrightarrow>
     (\<forall>c\<in>set (components p). CHR 0x00 \<notin> set c \<and> backslash \<notin> set c) \<and>
     resolve [] (components p) \<noteq> None"
proof -
  let ?s = "dropWhile (\<lambda>c. c = CHR ''/'') p"
  have "?s = [] \<or> hd ?s \<noteq> CHR ''/''" using dropWhile_hd by blast
  from valid_components_resolve [OF this, of "[]" 0] show ?thesis
    by (simp add: is_valid_path_def components_skip)
qed

lemma no_slash_in_component: "c \<in> set (components s) \<Longrightarrow> CHR ''/'' \<notin> set c"
proof (induction s rule: components.induct)
  case (1 s)
  show ?case
  proof (cases "s = []")
    case True
    with 1 show ?thesis by (simp add: components.simps [of "[]"])
  next
    case False
    with 1 show ?thesis
      by (subst (asm) (2) components.simps) (auto simp: Let_def dest: set_takeWhileD split: if_splits)
  qed
qed

lemma choose_document_cases:
  "choose_document FS path names \<in> insert path (path_join path ` set names)"
  by (induction names) auto

lemma resolve_child:
  assumes "resolve [] (components p) = Some st" and "components n = [n]" and "n \<notin> {''.'', ''..''}"
  shows "resolve [] (components (path_join p n)) = Some (st @ [n])"
proof -
  have "CHR ''/'' \<notin> set n" using no_slash_in_component [of n n] assms(2) by simp
  then have "\<not> starts_with ''/'' n" by (rule starts_with_hd_notin)
  with assms show ?thesis by (simp add: components_join resolve_append)
qed

section \<open>What a mount point looks at\<close>

text \<open>
  Two file systems that are the same at and below a directory; where a path leads is read off its
  components, so a symbolic link counts as what it is called.
\<close>

definition agree_at :: "fs_api \<Rightarrow> fs_api \<Rightarrow> string \<Rightarrow> bool" where
  "agree_at FS FS' p \<longleftrightarrow>
     fsys_exists FS p = fsys_exists FS' p \<and> fsys_is_regular FS p = fsys_is_regular FS' p \<and>
     fsys_is_dir FS p = fsys_is_dir FS' p \<and> fsys_file_size FS p = fsys_file_size FS' p \<and>
     fsys_write_time FS p = fsys_write_time FS' p \<and> fsys_read FS p = fsys_read FS' p \<and>
     fsys_list FS p = fsys_list FS' p"

definition agree_below :: "string list \<Rightarrow> fs_api \<Rightarrow> fs_api \<Rightarrow> bool" where
  "agree_below base FS FS' \<longleftrightarrow>
     (fsys_local_time FS = fsys_local_time FS' \<and> fsys_size_text FS = fsys_size_text FS' \<and>
      fsys_gmtime FS = fsys_gmtime FS') \<and>
     (\<forall>p below. resolve [] (components p) = Some (base @ below) \<longrightarrow> agree_at FS FS' p)"

text \<open>A directory lists names of what is in it.\<close>

definition proper_names :: "string list \<Rightarrow> bool" where
  "proper_names ns \<longleftrightarrow> (\<forall>n\<in>set ns. components n = [n] \<and> n \<notin> {''.'', ''..''})"

definition lists_names :: "fs_api \<Rightarrow> bool" where
  "lists_names FS \<longleftrightarrow> (\<forall>p ns. fsys_list FS p = Some ns \<longrightarrow> proper_names ns)"

lemma agree_child:
  assumes "agree_below base FS FS'" and "resolve [] (components p) = Some (base @ below)"
    and "proper_names ns" and "n \<in> set ns"
  shows "agree_at FS FS' (path_join p n)"
  using assms resolve_child [OF assms(2), of n] by (auto simp: agree_below_def proper_names_def)

lemma set_file_content_agree:
  assumes "agree_at FS FS' path" and "fsys_gmtime FS = fsys_gmtime FS'"
  shows "set_file_content A E FS path h rs = set_file_content A E FS' path h rs"
proof -
  have date: "format_http_gmt_date FS = format_http_gmt_date FS'"
    using assms(2) by (simp add: fun_eq_iff format_http_gmt_date_def)
  have read: "file_last_write_time FS path = file_last_write_time FS' path"
    "fsys_file_size FS path = fsys_file_size FS' path" "fsys_read FS path = fsys_read FS' path"
    using assms(1) by (simp_all add: file_last_write_time_def agree_at_def)
  show ?thesis unfolding set_file_content_def date read ..
qed

lemma dir_json_loop_agree:
  assumes "agree_at FS FS' path"
  shows "\<forall>n\<in>set ns. agree_at FS FS' (path_join path n) \<Longrightarrow>
    dir_json_loop FS path ec ns = dir_json_loop FS' path ec ns"
  using assms
  by (induction ns arbitrary: ec) (simp_all add: agree_at_def file_last_write_time_def Let_def)

lemma map_filter_cong:
  "\<forall>x\<in>set xs. f x = g x \<and> P x = Q x \<Longrightarrow> map f (filter P xs) = map g (filter Q xs)"
  by (induction xs) auto

lemma format_path_list_agree:
  assumes "agree_at FS FS' path" and "\<And>ns n. fsys_list FS path = Some ns \<Longrightarrow> n \<in> set ns \<Longrightarrow> agree_at FS FS' (path_join path n)"
    and "fsys_local_time FS = fsys_local_time FS'" and "fsys_size_text FS = fsys_size_text FS'"
  shows "format_path_list FS path = format_path_list FS' path"
proof (cases "fsys_list FS path")
  case None
  with assms(1) show ?thesis by (simp add: format_path_list_def agree_at_def)
next
  case (Some ns)
  then have same: "\<forall>n\<in>set ns. agree_at FS FS' (path_join path n)" using assms(2) by blast
  have listed: "fsys_list FS' path = Some ns" using Some assms(1) by (simp add: agree_at_def)
  show ?thesis
    unfolding format_path_list_def Let_def Some listed option.case
    by (rule arg_cong2 [where f = append]; rule map_filter_cong)
      (use same assms(3,4) in \<open>auto simp: agree_at_def file_last_wirte_time_def split: option.split\<close>)
qed

lemma list_directory_agree:
  assumes "agree_at FS FS' path" and "\<And>ns n. fsys_list FS path = Some ns \<Longrightarrow> n \<in> set ns \<Longrightarrow> agree_at FS FS' (path_join path n)"
    and "fsys_local_time FS = fsys_local_time FS'" and "fsys_size_text FS = fsys_size_text FS'"
  shows "list_directory A E FS mk_json mp target path rs = list_directory A E FS' mk_json mp target path rs"
proof -
  have json: "format_dir_to_json FS path = format_dir_to_json FS' path"
    using assms(1,2) dir_json_loop_agree [OF assms(1)]
    by (auto simp: format_dir_to_json_def agree_at_def split: option.split)
  have html: "format_dir_to_html FS target path = format_dir_to_html FS' target path"
    using format_path_list_agree [OF assms] by (simp add: format_dir_to_html_def)
  show ?thesis unfolding list_directory_def json html ..
qed

lemma choose_document_agree:
  "\<forall>d\<in>set names. agree_at FS FS' (path_join path d) \<Longrightarrow>
   choose_document FS path names = choose_document FS' path names"
  by (induction names) (simp_all add: agree_at_def)

lemma mount_target_below:
  assumes "resolve [] (components (path_join (mp_base_dir mp) rel)) = Some st"
    and "proper_names (mp_default_doc_name mp)"
  shows "\<exists>below. resolve [] (components (mount_target FS mp rel)) = Some (st @ below)"
proof -
  let ?path = "path_join (mp_base_dir mp) rel"
  have "resolve [] (components (path_join ?path d)) = Some (st @ [d])"
    if "d \<in> set (mp_default_doc_name mp)" for d
    using that assms(2) by (intro resolve_child [OF assms(1)]) (auto simp: proper_names_def)
  with choose_document_cases [of FS ?path "mp_default_doc_name mp"] assms(1)
  show ?thesis by (auto simp: mount_target_def Let_def)
qed

lemma mount_point_call_agree:
  assumes "agree_below base FS FS'" and "lists_names FS"
    and "resolve [] (components (mp_base_dir mp)) = Some base" and "proper_names (mp_default_doc_name mp)"
    and "\<And>rel. request_path_param req ''*'' = Inr rel \<Longrightarrow> \<not> starts_with ''/'' rel"
  shows "mount_point_call A E FS mk_json mp req rs = mount_point_call A E FS' mk_json mp req rs"
proof (cases "\<exists>rel. request_path_param req ''*'' = Inr rel \<and> is_valid_path rel")
  case False
  then show ?thesis by (cases "request_path_param req ''*''") (auto simp: mount_point_call_def)
next
  case True
  then obtain rel where rel: "request_path_param req ''*'' = Inr rel" "is_valid_path rel" by blast
  let ?path = "path_join (mp_base_dir mp) rel"
  obtain st where "resolve [] (components rel) = Some st"
    using rel(2) unfolding is_valid_path_resolve by blast
  then have path: "resolve [] (components ?path) = Some (base @ st)"
    using assms(3) resolve_below [of "[]" "components rel" st base]
    by (simp add: components_join [OF assms(5) [OF rel(1)]] resolve_append)
  note agree = assms(1) [unfolded agree_below_def, THEN conjunct2, rule_format]
  have target: "mount_target FS mp rel = mount_target FS' mp rel"
    using choose_document_agree [of "mp_default_doc_name mp" FS FS' ?path]
      agree_child [OF assms(1) path assms(4)] by (simp add: mount_target_def Let_def)
  from mount_target_below [OF path assms(4)] obtain below where
    below: "resolve [] (components (mount_target FS mp rel)) = Some (base @ st @ below)" by auto
  have same: "agree_at FS FS' ?path" "agree_at FS FS' (mount_target FS mp rel)"
    using agree [OF path] agree [OF below] by simp_all
  have listed: "agree_at FS FS' (path_join (mount_target FS mp rel) n)"
    if "fsys_list FS (mount_target FS mp rel) = Some ns" "n \<in> set ns" for ns n
    using agree_child [OF assms(1) below _ that(2)] assms(2) that(1) by (simp add: lists_names_def)
  have "list_directory A E FS mk_json mp (request_path req) (mount_target FS mp rel) rs =
      list_directory A E FS' mk_json mp (request_path req) (mount_target FS mp rel) rs"
    using assms(1) by (intro list_directory_agree [OF same(2) listed]) (auto simp: agree_below_def)
  moreover have "set_file_content A E FS (mount_target FS mp rel) (rq_fields req) rs =
      set_file_content A E FS' (mount_target FS mp rel) (rq_fields req) rs"
    using assms(1) by (intro set_file_content_agree [OF same(2)]) (simp add: agree_below_def)
  ultimately show ?thesis
    using rel same by (simp add: mount_point_call_def target [symmetric] agree_at_def Let_def)
qed

section \<open>Properties\<close>

text \<open>
  C32. The check of the relative path accepts exactly the paths without zero bytes and backslashes
  that, resolved component by component, never climb above where they start.
\<close>

theorem is_valid_path_exact:
  "is_valid_path p \<longleftrightarrow>
     (\<forall>c\<in>set (components p). CHR 0x00 \<notin> set c \<and> backslash \<notin> set c) \<and>
     resolve [] (components p) \<noteq> None"
  by (rule is_valid_path_resolve)

theorem is_valid_path_exact_witness:
  "is_valid_path ''a/../../b'' =
     (list_all (\<lambda>c. CHR 0x00 \<notin> set c \<and> backslash \<notin> set c) (components ''a/../../b'') \<and>
      resolve [] (components ''a/../../b'') \<noteq> None)"
  unfolding list_all_iff by (rule is_valid_path_exact)

definition example_request :: "string \<Rightarrow> (plain_fields, string) request" where
  "example_request rel =
     \<lparr>rq_method = V_get, rq_target = ''/'' @ rel, rq_version = 11, rq_fields = fa_empty plain_api,
      rq_body = V_Empty, rq_decoded_path = ''/'' @ rel, rq_query_params = [],
      rq_remote_address = ''::1'', rq_path_params = [''*'' \<mapsto> rel]\<rparr>"

text \<open>
  With the default settings a request for a directory is answered by an internal server error
  whenever the size of the last entry of the directory cannot be read, which is so for a
  subdirectory, although the listing itself was built.
\<close>

theorem directory_listing_fails:
  assumes "fields_laws A" and "fa_find A (rs_fields rs) F_server = Some srv"
    and "request_path_param req ''*'' = Inr rel" and "is_valid_path rel"
    and "fsys_exists FS (path_join (mp_base_dir mp) rel)"
    and "mount_target FS mp rel = path" and "\<not> has_filename path" and "fsys_is_dir FS path"
    and "mp_enabled_dir mp" and "mp_dir_type mp = Dir_Json"
    and "fsys_list FS path = Some (ns @ [n])" and "fsys_file_size FS (path_join path n) = None"
  shows "\<exists>rs'. mount_point_call A E FS mk_json mp req rs = Inr rs' \<and> rs_status rs' = 500"
proof -
  have "snd (format_dir_to_json FS path)"
    using dir_json_loop_snd [of FS path False "ns @ [n]"] assms(11,12)
    by (simp add: format_dir_to_json_def)
  with assms fields_laws_simps [OF assms(1)] show ?thesis
    by (auto simp: mount_point_call_def list_directory_def set_error_content_def response_ops
        case_prod_beta Let_def)
qed

theorem directory_listing_fails_witness:
  "\<exists>rs'. mount_point_call plain_api example_env example_fs (\<lambda>_. ''[]'') (mount_point_new ''/'' ''/srv'')
       (example_request []) (response_new plain_api example_env 11 True) = Inr rs' \<and> rs_status rs' = 500"
proof (rule directory_listing_fails [OF plain_laws])
  show "fa_find plain_api (rs_fields (response_new plain_api example_env 11 True)) F_server = Some ''Beast''"
    by (simp add: response_new_def plain_api_def example_env_def)
  show "request_path_param (example_request []) ''*'' = Inr []"
    by (simp add: request_path_param_def example_request_def)
  show "is_valid_path []" by (simp add: is_valid_path_def valid_components.simps)
  show "mount_target example_fs (mount_point_new ''/'' ''/srv'') [] = ''/srv/''"
    by (simp add: mount_target_def mount_point_new_def path_join_def has_filename_def example_fs_def)
  show "fsys_list example_fs ''/srv/'' = Some ([''a.txt''] @ [''sub''])"
    by (simp add: example_fs_def)
qed (simp_all add: mount_point_new_def path_join_def has_filename_def example_fs_def)

end
