(* ===== verification/Route_Tree.thy ===== *)
theory Route_Tree
  imports Util_Misc
begin

text \<open>
  The route tree of \<open>lib/server/router_impl.cpp\<close>: its nodes, \<open>split\_segments\<close>,
  \<open>insert\<close> and \<open>match\_nodes\<close>. The tree is polymorphic in what a node holds for a method
  (\<open>'h\<close>) and for WebSocket requests (\<open>'w\<close>). \<open>std::regex\<close> is a parameter: which
  patterns its constructor accepts, and what \<open>regex\_match\<close> says of a pattern and a text.
\<close>

section \<open>Nodes\<close>

datatype node_type = Static_Node | Param_Node | Regex_Node | Wildcard_Node

datatype ('m, 'h, 'w) node =
  Node (node_key: string) (node_param: string) (node_regex: string) (node_kind: node_type)
    (node_handlers: "('m \<times> 'h) list") (node_ws: "'w option")
    (node_static: "(string \<times> ('m, 'h, 'w) node) list")
    (node_params: "('m, 'h, 'w) node list")
    (node_regexes: "('m, 'h, 'w) node list")
    (node_wild: "('m, 'h, 'w) node option")

definition new_node :: "string \<Rightarrow> string \<Rightarrow> string \<Rightarrow> node_type \<Rightarrow> ('m, 'h, 'w) node" where
  "new_node key param regex kind = Node key param regex kind [] None [] [] [] None"

fun with_handlers :: "('m \<times> 'h) list \<Rightarrow> ('m, 'h, 'w) node \<Rightarrow> ('m, 'h, 'w) node" where
  "with_handlers hs (Node k p r t _ w ss ps rs c) = Node k p r t hs w ss ps rs c"

fun with_ws :: "'w \<Rightarrow> ('m, 'h, 'w) node \<Rightarrow> ('m, 'h, 'w) node" where
  "with_ws w (Node k p r t hs _ ss ps rs c) = Node k p r t hs (Some w) ss ps rs c"

fun with_static :: "(string \<times> ('m, 'h, 'w) node) list \<Rightarrow> ('m, 'h, 'w) node \<Rightarrow> ('m, 'h, 'w) node" where
  "with_static ss (Node k p r t hs w _ ps rs c) = Node k p r t hs w ss ps rs c"

fun with_params :: "('m, 'h, 'w) node list \<Rightarrow> ('m, 'h, 'w) node \<Rightarrow> ('m, 'h, 'w) node" where
  "with_params ps (Node k p r t hs w ss _ rs c) = Node k p r t hs w ss ps rs c"

fun with_regexes :: "('m, 'h, 'w) node list \<Rightarrow> ('m, 'h, 'w) node \<Rightarrow> ('m, 'h, 'w) node" where
  "with_regexes rs (Node k p r t hs w ss ps _ c) = Node k p r t hs w ss ps rs c"

fun with_wild :: "('m, 'h, 'w) node \<Rightarrow> ('m, 'h, 'w) node \<Rightarrow> ('m, 'h, 'w) node" where
  "with_wild c (Node k p r t hs w ss ps rs _) = Node k p r t hs w ss ps rs (Some c)"

section \<open>Segments\<close>

definition split_segments :: "string \<Rightarrow> string list" where
  "split_segments path = split path ''/'' @ (if ends_with ''/'' path then [[]] else [])"

text \<open>How \<open>insert\<close> classifies a segment that is not the final wildcard.\<close>

definition is_param :: "string \<Rightarrow> bool" where
  "is_param seg \<longleftrightarrow> seg \<noteq> [] \<and> starts_with '':'' seg"

definition is_regex :: "string \<Rightarrow> bool" where
  "is_regex seg \<longleftrightarrow> seg \<noteq> [] \<and> hd seg = CHR ''{'' \<and> last seg = CHR ''}''"

text \<open>The name and the pattern of a segment in braces; without a colon both are all of it.\<close>

definition regex_inside :: "string \<Rightarrow> string" where
  "regex_inside seg = substr seg 1 (length seg - 2)"

definition regex_name :: "string \<Rightarrow> string" where
  "regex_name seg =
     (case find_sub '':'' (regex_inside seg) of
        None \<Rightarrow> regex_inside seg
      | Some pos \<Rightarrow> take pos (regex_inside seg))"

definition regex_pattern :: "string \<Rightarrow> string" where
  "regex_pattern seg =
     (case find_sub '':'' (regex_inside seg) of
        None \<Rightarrow> regex_inside seg
      | Some pos \<Rightarrow> drop (pos + 1) (regex_inside seg))"

section \<open>insert\<close>

definition find_key :: "string \<Rightarrow> ('m, 'h, 'w) node list \<Rightarrow> ('m, 'h, 'w) node option" where
  "find_key seg cs = List.find (\<lambda>c. node_key c = seg) cs"

fun replace_key ::
  "string \<Rightarrow> ('m, 'h, 'w) node \<Rightarrow> ('m, 'h, 'w) node list \<Rightarrow> ('m, 'h, 'w) node list" where
  "replace_key seg c' [] = []"
| "replace_key seg c' (c # cs) = (if node_key c = seg then c' # cs else c # replace_key seg c' cs)"

fun replace_static :: "string \<Rightarrow> 'n \<Rightarrow> (string \<times> 'n) list \<Rightarrow> (string \<times> 'n) list" where
  "replace_static seg c' [] = []"
| "replace_static seg c' ((k, c) # cs) =
     (if k = seg then (k, c') # cs else (k, c) # replace_static seg c' cs)"

text \<open>
  \<open>insert\<close> returns a pointer to the node of the path, through which the caller changes it;
  here the change \<open>f\<close> is an argument. An ill-formed pattern throws from the constructor of the
  regex: the nodes made above it stay in the tree, the node itself is not added.
\<close>

fun insert_at ::
  "(string \<Rightarrow> bool) \<Rightarrow> (('m, 'h, 'w) node \<Rightarrow> ('m, 'h, 'w) node) \<Rightarrow> string list \<Rightarrow> ('m, 'h, 'w) node \<Rightarrow>
   ('m, 'h, 'w) node \<times> fault option" where
  "insert_at ok f [] parent = (f parent, None)"
| "insert_at ok f (seg # segs) parent =
     (if segs = [] \<and> seg = ''*'' then
        let c = (case node_wild parent of Some c \<Rightarrow> c | None \<Rightarrow> new_node seg [] [] Wildcard_Node);
            (c', e) = insert_at ok f segs c
        in (with_wild c' parent, e)
      else if is_param seg then
        (case find_key seg (node_params parent) of
           Some c \<Rightarrow>
             let (c', e) = insert_at ok f segs c
             in (with_params (replace_key seg c' (node_params parent)) parent, e)
         | None \<Rightarrow>
             let (c', e) = insert_at ok f segs (new_node seg (drop 1 seg) [] Param_Node)
             in (with_params (node_params parent @ [c']) parent, e))
      else if is_regex seg then
        (case find_key seg (node_regexes parent) of
           Some c \<Rightarrow>
             let (c', e) = insert_at ok f segs c
             in (with_regexes (replace_key seg c' (node_regexes parent)) parent, e)
         | None \<Rightarrow>
             if \<not> ok (regex_pattern seg) then (parent, Some Regex_Error)
             else
               let (c', e) =
                     insert_at ok f segs (new_node seg (regex_name seg) (regex_pattern seg) Regex_Node)
               in (with_regexes (node_regexes parent @ [c']) parent, e))
      else
        (case map_of (node_static parent) seg of
           Some c \<Rightarrow>
             let (c', e) = insert_at ok f segs c
             in (with_static (replace_static seg c' (node_static parent)) parent, e)
         | None \<Rightarrow>
             let (c', e) = insert_at ok f segs (new_node seg [] [] Static_Node)
             in (with_static (node_static parent @ [(seg, c')]) parent, e)))"

section \<open>match\_nodes\<close>

text \<open>
  The path parameters and whatever the caller's handler keeps are threaded through the search, which
  tries one alternative after the other until one returns a node.
\<close>

type_synonym path_params = "string \<rightharpoonup> string"

definition orelse :: "'r option \<times> 's \<Rightarrow> ('s \<Rightarrow> 'r option \<times> 's) \<Rightarrow> 'r option \<times> 's" where
  "orelse r k = (case r of (Some x, st) \<Rightarrow> (Some x, st) | (None, st) \<Rightarrow> k st)"

lemma orelse_cong [fundef_cong]:
  "r = r' \<Longrightarrow> (\<And>st. k st = k' st) \<Longrightarrow> orelse r k = orelse r' k'"
  by (auto simp: orelse_def split: prod.splits option.splits)

fun first_match :: "('c \<Rightarrow> 's \<Rightarrow> 'r option \<times> 's) \<Rightarrow> 'c list \<Rightarrow> 's \<Rightarrow> 'r option \<times> 's" where
  "first_match f [] st = (None, st)"
| "first_match f (c # cs) st = orelse (f c st) (first_match f cs)"

lemma first_match_cong [fundef_cong]:
  "xs = ys \<Longrightarrow> (\<And>c st. c \<in> set ys \<Longrightarrow> f c st = g c st) \<Longrightarrow> st = st' \<Longrightarrow>
   first_match f xs st = first_match g ys st'"
  by (induction ys arbitrary: xs st st') (auto intro!: orelse_cong)

text \<open>A binding that is undone, by erasing the name, when the search below it fails.\<close>

definition bind_param ::
  "string \<Rightarrow> string \<Rightarrow> (path_params \<times> 's \<Rightarrow> 'r option \<times> path_params \<times> 's) \<Rightarrow> path_params \<times> 's \<Rightarrow>
   'r option \<times> path_params \<times> 's" where
  "bind_param name v k st =
     (case k ((fst st)(name \<mapsto> v), snd st) of
        (Some m, st') \<Rightarrow> (Some m, st')
      | (None, (p, s)) \<Rightarrow> (None, (p(name := None), s)))"

lemma bind_param_cong [fundef_cong]:
  "n = n' \<Longrightarrow> v = v' \<Longrightarrow> st = st' \<Longrightarrow> (\<And>x. k x = k' x) \<Longrightarrow>
   bind_param n v k st = bind_param n' v' k' st'"
  by (simp add: bind_param_def)

definition rest_path :: "string list \<Rightarrow> string" where
  "rest_path segs = foldl (\<lambda>r seg. (if r = [] then [] else r @ ''/'') @ seg) [] segs"

subsection \<open>Children are smaller\<close>

lemma size_list_pair: "(k, c) \<in> set xs \<Longrightarrow> size c \<le> size_list (size_prod f size) xs"
  by (induction xs) auto

lemma size_list_elem: "c \<in> set xs \<Longrightarrow> size c \<le> size_list size xs"
  by (induction xs) auto

lemma size_child:
  "(seg, c) \<in> set (node_static n) \<Longrightarrow> size c < size n"
  "c \<in> set (node_regexes n) \<Longrightarrow> size c < size n"
  "c \<in> set (node_params n) \<Longrightarrow> size c < size n"
  "node_wild n = Some c \<Longrightarrow> size c < size n"
proof (cases n, goal_cases)
  case (1 k p r t hs w ss ps rs wc)
  then show ?case using size_list_pair [of seg c ss "\<lambda>_. 0"] by simp
qed (cases n; auto dest: size_list_elem)+

fun match_nodes ::
  "(string \<Rightarrow> string \<Rightarrow> bool) \<Rightarrow> (('m, 'h, 'w) node \<Rightarrow> 's \<Rightarrow> bool \<times> 's) \<Rightarrow> ('m, 'h, 'w) node \<Rightarrow>
   string list \<Rightarrow> path_params \<times> 's \<Rightarrow> ('m, 'h, 'w) node option \<times> path_params \<times> 's" where
  "match_nodes rx handler parent [] st =
     (case handler parent (snd st) of (b, s) \<Rightarrow> (if b then Some parent else None, fst st, s))"
| "match_nodes rx handler parent (seg # segs) st =
     orelse
       (case map_of (node_static parent) seg of
          None \<Rightarrow> (None, st)
        | Some c \<Rightarrow> match_nodes rx handler c segs st) (\<lambda>st.
     orelse
       (first_match (\<lambda>c st.
          if rx (node_regex c) seg
          then bind_param (node_param c) seg (match_nodes rx handler c segs) st
          else (None, st)) (node_regexes parent) st) (\<lambda>st.
     orelse
       (first_match (\<lambda>c.
          bind_param (node_param c) seg (match_nodes rx handler c segs)) (node_params parent) st) (\<lambda>st.
       case node_wild parent of
         None \<Rightarrow> (None, st)
       | Some c \<Rightarrow> bind_param ''*'' (rest_path (seg # segs)) (match_nodes rx handler c []) st)))"

section \<open>The search as a scan of the candidates\<close>

text \<open>
  The nodes a path leads to, in the order the search visits them, with the parameters on the way.
\<close>

fun candidates ::
  "(string \<Rightarrow> string \<Rightarrow> bool) \<Rightarrow> ('m, 'h, 'w) node \<Rightarrow> string list \<Rightarrow>
   (('m, 'h, 'w) node \<times> (string \<times> string) list) list" where
  "candidates rx parent [] = [(parent, [])]"
| "candidates rx parent (seg # segs) =
     (case map_of (node_static parent) seg of None \<Rightarrow> [] | Some c \<Rightarrow> candidates rx c segs) @
     concat (map (\<lambda>c. if rx (node_regex c) seg
         then map (\<lambda>(m, b). (m, (node_param c, seg) # b)) (candidates rx c segs) else [])
       (node_regexes parent)) @
     concat (map (\<lambda>c. map (\<lambda>(m, b). (m, (node_param c, seg) # b)) (candidates rx c segs))
       (node_params parent)) @
     (case node_wild parent of
        None \<Rightarrow> []
      | Some c \<Rightarrow> [(c, [(''*'', rest_path (seg # segs))])])"

fun scan :: "('n \<Rightarrow> 's \<Rightarrow> bool \<times> 's) \<Rightarrow> ('n \<times> 'b) list \<Rightarrow> 's \<Rightarrow> ('n \<times> 'b) option \<times> 's" where
  "scan handler [] s = (None, s)"
| "scan handler (c # cs) s =
     (case handler (fst c) s of (b, s') \<Rightarrow> if b then (Some c, s') else scan handler cs s')"

lemma scan_append:
  "scan handler (xs @ ys) s =
     (case scan handler xs s of (Some c, s') \<Rightarrow> (Some c, s') | (None, s') \<Rightarrow> scan handler ys s')"
  by (induction xs arbitrary: s) (auto split: prod.splits option.splits)

lemma scan_map_snd:
  "scan handler (map (\<lambda>(m, b). (m, g b)) xs) s =
     (case scan handler xs s of (r, s') \<Rightarrow> (map_option (\<lambda>(m, b). (m, g b)) r, s'))"
  by (induction xs arbitrary: s) (auto split: prod.splits)

text \<open>A result of the search that agrees with a scan in the node found and the handler's state.\<close>

definition follows ::
  "'n option \<times> path_params \<times> 's \<Rightarrow> ('n \<times> 'b) option \<times> 's \<Rightarrow> bool" where
  "follows r sc \<longleftrightarrow> fst r = map_option fst (fst sc) \<and> snd (snd r) = snd sc"

lemma follows_orelse:
  assumes "follows r (scan handler xs s)" and "\<And>st. follows (k st) (scan handler ys (snd st))"
  shows "follows (orelse r k) (scan handler (xs @ ys) s)"
  using assms by (auto simp: follows_def orelse_def scan_append split: prod.splits option.splits)

lemma follows_bind:
  assumes "\<And>st. follows (k st) (scan handler xs (snd st))"
  shows "follows (bind_param name v k st) (scan handler (map (\<lambda>(m, b). (m, g b)) xs) (snd st))"
  using assms [of "((fst st)(name \<mapsto> v), snd st)"]
  by (auto simp: follows_def bind_param_def scan_map_snd option.map_comp comp_def case_prod_beta
      split: prod.splits option.splits)

lemma follows_first:
  assumes "\<And>c st. c \<in> set cs \<Longrightarrow> follows (f c st) (scan handler (g c) (snd st))"
  shows "follows (first_match f cs st) (scan handler (concat (map g cs)) (snd st))"
  using assms
proof (induction cs arbitrary: st)
  case Nil
  then show ?case by (simp add: follows_def)
next
  case (Cons c cs)
  then show ?case by (simp add: follows_orelse)
qed

lemma match_nodes_follows:
  "follows (match_nodes rx handler n segs st) (scan handler (candidates rx n segs) (snd st))"
proof (induction segs arbitrary: n st)
  case Nil
  then show ?case by (auto simp: follows_def split: prod.splits)
next
  case (Cons seg segs parent st)
  have st: "follows (case map_of (node_static parent) seg of None \<Rightarrow> (None, st)
        | Some c \<Rightarrow> match_nodes rx handler c segs st)
      (scan handler (case map_of (node_static parent) seg of None \<Rightarrow> []
        | Some c \<Rightarrow> candidates rx c segs) (snd st))"
    using Cons.IH by (auto simp: follows_def split: option.split)
  have re: "follows (first_match (\<lambda>c st. if rx (node_regex c) seg
        then bind_param (node_param c) seg (match_nodes rx handler c segs) st else (None, st))
        (node_regexes parent) st')
      (scan handler (concat (map (\<lambda>c. if rx (node_regex c) seg
         then map (\<lambda>(m, b). (m, (node_param c, seg) # b)) (candidates rx c segs) else [])
       (node_regexes parent))) (snd st'))" for st'
    using Cons.IH by (intro follows_first) (auto intro!: follows_bind simp: follows_def [of "(None, _)"])
  have pa: "follows (first_match (\<lambda>c. bind_param (node_param c) seg (match_nodes rx handler c segs))
        (node_params parent) st')
      (scan handler (concat (map (\<lambda>c. map (\<lambda>(m, b). (m, (node_param c, seg) # b)) (candidates rx c segs))
       (node_params parent))) (snd st'))" for st'
    using Cons.IH by (intro follows_first follows_bind)
  have wi: "follows (case node_wild parent of None \<Rightarrow> (None, st')
       | Some c \<Rightarrow> bind_param ''*'' (rest_path (seg # segs)) (match_nodes rx handler c []) st')
      (scan handler (case node_wild parent of None \<Rightarrow> []
        | Some c \<Rightarrow> [(c, [(''*'', rest_path (seg # segs))])]) (snd st'))" for st'
    by (auto simp: follows_def bind_param_def split: option.splits prod.splits)
  show ?case
    unfolding match_nodes.simps(2) candidates.simps(2)
    by (intro follows_orelse st re pa wi)
qed

section \<open>The parameters of a match\<close>

text \<open>No name is bound twice on a way down the tree, nor one of \<open>D\<close>.\<close>

function names_fresh :: "string set \<Rightarrow> ('m, 'h, 'w) node \<Rightarrow> bool" where
  "names_fresh D n \<longleftrightarrow>
     (\<forall>e\<in>set (node_static n). names_fresh D (snd e)) \<and>
     (\<forall>c\<in>set (node_regexes n). node_param c \<notin> D \<and> names_fresh (insert (node_param c) D) c) \<and>
     (\<forall>c\<in>set (node_params n). node_param c \<notin> D \<and> names_fresh (insert (node_param c) D) c) \<and>
     (node_wild n \<noteq> None \<longrightarrow> ''*'' \<notin> D)"
  by pat_completeness auto
termination
  by (relation "measure (\<lambda>(_, n). size n)") (auto dest: size_child)

declare names_fresh.simps [simp del]

text \<open>
  A result that agrees with a scan in everything: on failure the parameters are as before, on success
  they are extended by those of the candidate.
\<close>

definition exactly ::
  "'n option \<times> path_params \<times> 's \<Rightarrow> path_params \<Rightarrow> ('n \<times> (string \<times> string) list) option \<times> 's \<Rightarrow> bool"
where
  "exactly r p sc \<longleftrightarrow>
     (case fst sc of
        None \<Rightarrow> r = (None, p, snd sc)
      | Some (m, b) \<Rightarrow> r = (Some m, p ++ map_of b, snd sc) \<and> dom p \<inter> fst ` set b = {})"

lemma exactly_orelse:
  assumes "exactly r p (scan handler xs s)" and "\<And>s. exactly (k (p, s)) p (scan handler ys s)"
  shows "exactly (orelse r k) p (scan handler (xs @ ys) s)"
proof (cases "scan handler xs s")
  case (Pair c s')
  show ?thesis
  proof (cases c)
    case None
    with assms(1) assms(2) [of s'] Pair show ?thesis by (simp add: exactly_def orelse_def scan_append)
  next
    case (Some mb)
    with assms(1) Pair show ?thesis
      by (cases mb) (simp add: exactly_def orelse_def scan_append)
  qed
qed

lemma exactly_bind:
  assumes "name \<notin> dom p" and "exactly (k (p(name \<mapsto> v), s)) (p(name \<mapsto> v)) (scan handler xs s)"
  shows "exactly (bind_param name v k (p, s)) p
           (scan handler (map (\<lambda>(m, b). (m, (name, v) # b)) xs) s)"
proof (cases "scan handler xs s")
  case (Pair c s')
  show ?thesis
  proof (cases c)
    case None
    then show ?thesis using assms Pair
      by (auto simp: exactly_def bind_param_def scan_map_snd fun_upd_idem)
  next
    case (Some mb)
    obtain m b where mb: "mb = (m, b)" by (cases mb)
    have "name \<notin> fst ` set b" and dj: "dom p \<inter> fst ` set b = {}"
      using assms(2) Pair Some mb by (auto simp: exactly_def)
    then have "p(name \<mapsto> v) ++ map_of b = p ++ map_of ((name, v) # b)"
      by (auto simp: map_add_def fun_eq_iff dom_map_of_conv_image_fst split: option.split
          dest!: map_of_SomeD intro: rev_image_eqI)
    with assms Pair Some mb dj show ?thesis
      by (auto simp: exactly_def bind_param_def scan_map_snd)
  qed
qed

lemma exactly_first:
  assumes "\<And>c s. c \<in> set cs \<Longrightarrow> exactly (f c (p, s)) p (scan handler (g c) s)"
  shows "exactly (first_match f cs (p, s)) p (scan handler (concat (map g cs)) s)"
  using assms
proof (induction cs arbitrary: s)
  case Nil
  then show ?case by (simp add: exactly_def)
next
  case (Cons c cs)
  then show ?case by (simp add: exactly_orelse)
qed

lemma match_nodes_exactly:
  "names_fresh (dom p) n \<Longrightarrow>
   exactly (match_nodes rx handler n segs (p, s)) p (scan handler (candidates rx n segs) s)"
proof (induction segs arbitrary: n p s)
  case Nil
  then show ?case by (auto simp: exactly_def split: prod.splits)
next
  case (Cons seg segs parent p s)
  note fresh = Cons.prems [unfolded names_fresh.simps [of "dom p" parent]]
  have child: "exactly (bind_param (node_param c) seg (match_nodes rx handler c segs) (p, s')) p
      (scan handler (map (\<lambda>(m, b). (m, (node_param c, seg) # b)) (candidates rx c segs)) s')"
    if "c \<in> set (node_regexes parent) \<union> set (node_params parent)" for c s'
  proof (rule exactly_bind)
    show "node_param c \<notin> dom p" using that fresh by blast
    have "names_fresh (dom (p(node_param c \<mapsto> seg))) c" using that fresh by auto
    then show "exactly (match_nodes rx handler c segs (p(node_param c \<mapsto> seg), s'))
        (p(node_param c \<mapsto> seg)) (scan handler (candidates rx c segs) s')"
      by (rule Cons.IH)
  qed
  have st: "exactly (case map_of (node_static parent) seg of None \<Rightarrow> (None, p, s)
        | Some c \<Rightarrow> match_nodes rx handler c segs (p, s)) p
      (scan handler (case map_of (node_static parent) seg of None \<Rightarrow> []
        | Some c \<Rightarrow> candidates rx c segs) s)"
  proof (cases "map_of (node_static parent) seg")
    case (Some c)
    then have "(seg, c) \<in> set (node_static parent)" by (rule map_of_SomeD)
    then have "names_fresh (dom p) c" using fresh by force
    from Cons.IH [OF this] Some show ?thesis by simp
  qed (simp add: exactly_def)
  have re: "exactly (first_match (\<lambda>c st. if rx (node_regex c) seg
        then bind_param (node_param c) seg (match_nodes rx handler c segs) st else (None, st))
        (node_regexes parent) (p, s')) p
      (scan handler (concat (map (\<lambda>c. if rx (node_regex c) seg
         then map (\<lambda>(m, b). (m, (node_param c, seg) # b)) (candidates rx c segs) else [])
       (node_regexes parent))) s')" for s'
    using child by (intro exactly_first) (auto simp: exactly_def [of "(None, _)"])
  have pa: "exactly (first_match (\<lambda>c. bind_param (node_param c) seg (match_nodes rx handler c segs))
        (node_params parent) (p, s')) p
      (scan handler (concat (map (\<lambda>c. map (\<lambda>(m, b). (m, (node_param c, seg) # b)) (candidates rx c segs))
       (node_params parent))) s')" for s'
    using child by (intro exactly_first) auto
  have wi: "exactly (case node_wild parent of None \<Rightarrow> (None, p, s')
       | Some c \<Rightarrow> bind_param ''*'' (rest_path (seg # segs)) (match_nodes rx handler c []) (p, s')) p
      (scan handler (case node_wild parent of None \<Rightarrow> []
        | Some c \<Rightarrow> [(c, [(''*'', rest_path (seg # segs))])]) s')" for s'
    using fresh
    by (auto simp: exactly_def bind_param_def fun_upd_idem map_add_def fun_eq_iff
        split: option.splits prod.splits)
  show ?case
    unfolding match_nodes.simps(2) candidates.simps(2)
    by (intro exactly_orelse st re pa wi)
qed

end
