(* ===== verification/Route_Table.thy ===== *)
theory Route_Table
  imports Route_Tree
begin

text \<open>
  Registering handlers (\<open>set\_http\_handler\_impl\<close>, \<open>set\_ws\_handler\_impl\<close> of
  \<open>lib/server/router_impl.cpp\<close>) and what the tree then holds: the tree implements a table from
  patterns to handlers, and the nodes a path leads to are those of the patterns it matches.
\<close>

section \<open>Registration\<close>

definition set_handler :: "'m \<Rightarrow> 'h \<Rightarrow> ('m \<times> 'h) list \<Rightarrow> ('m \<times> 'h) list" where
  "set_handler m h hs = (m, h) # filter (\<lambda>e. fst e \<noteq> m) hs"

definition set_http_handler ::
  "(string \<Rightarrow> bool) \<Rightarrow> 'm \<Rightarrow> string \<Rightarrow> 'h \<Rightarrow> ('m, 'h, 'w) node \<Rightarrow> ('m, 'h, 'w) node \<times> fault option" where
  "set_http_handler ok m path h root =
     insert_at ok (\<lambda>n. with_handlers (set_handler m h (node_handlers n)) n) (split_segments path) root"

definition set_ws_handler ::
  "(string \<Rightarrow> bool) \<Rightarrow> string \<Rightarrow> 'w \<Rightarrow> ('m, 'h, 'w) node \<Rightarrow> ('m, 'h, 'w) node \<times> fault option" where
  "set_ws_handler ok path entry root = insert_at ok (with_ws entry) (split_segments path) root"

section \<open>Patterns\<close>

text \<open>The node of a pattern, found the way \<open>insert\<close> finds it.\<close>

definition child :: "('m, 'h, 'w) node \<Rightarrow> bool \<Rightarrow> string \<Rightarrow> ('m, 'h, 'w) node option" where
  "child n is_last seg =
     (if is_last \<and> seg = ''*'' then node_wild n
      else if is_param seg then find_key seg (node_params n)
      else if is_regex seg then find_key seg (node_regexes n)
      else map_of (node_static n) seg)"

fun route_at :: "('m, 'h, 'w) node \<Rightarrow> string list \<Rightarrow> ('m, 'h, 'w) node option" where
  "route_at n [] = Some n"
| "route_at n (seg # segs) =
     (case child n (segs = []) seg of None \<Rightarrow> None | Some c \<Rightarrow> route_at c segs)"

text \<open>What a pattern says of a path, and the parameters it binds.\<close>

definition seg_match :: "(string \<Rightarrow> string \<Rightarrow> bool) \<Rightarrow> string \<Rightarrow> string \<Rightarrow> bool" where
  "seg_match rx p s \<longleftrightarrow>
     (if is_param p then True else if is_regex p then rx (regex_pattern p) s else p = s)"

fun pat_match :: "(string \<Rightarrow> string \<Rightarrow> bool) \<Rightarrow> string list \<Rightarrow> string list \<Rightarrow> bool" where
  "pat_match rx [] segs \<longleftrightarrow> segs = []"
| "pat_match rx (p # ps) segs \<longleftrightarrow>
     (if ps = [] \<and> p = ''*'' then segs \<noteq> []
      else (case segs of [] \<Rightarrow> False | s # ss \<Rightarrow> seg_match rx p s \<and> pat_match rx ps ss))"

definition seg_bind :: "string \<Rightarrow> string \<Rightarrow> (string \<times> string) list" where
  "seg_bind p s =
     (if is_param p then [(drop 1 p, s)] else if is_regex p then [(regex_name p, s)] else [])"

fun pat_binds :: "string list \<Rightarrow> string list \<Rightarrow> (string \<times> string) list" where
  "pat_binds [] segs = []"
| "pat_binds (p # ps) segs =
     (if ps = [] \<and> p = ''*'' then [(''*'', rest_path segs)]
      else (case segs of [] \<Rightarrow> [] | s # ss \<Rightarrow> seg_bind p s @ pat_binds ps ss))"

text \<open>A pattern that registers without an exception.\<close>

fun pat_ok :: "(string \<Rightarrow> bool) \<Rightarrow> string list \<Rightarrow> bool" where
  "pat_ok ok [] \<longleftrightarrow> True"
| "pat_ok ok (p # ps) \<longleftrightarrow> (is_regex p \<longrightarrow> ok (regex_pattern p)) \<and> pat_ok ok ps"

section \<open>What insertion changes\<close>

lemma with_sel [simp]:
  "node_key (with_handlers hs n) = node_key n" "node_key (with_ws w n) = node_key n"
  "node_key (with_static ss n) = node_key n" "node_key (with_params ps n) = node_key n"
  "node_key (with_regexes rs n) = node_key n" "node_key (with_wild c n) = node_key n"
  "node_param (with_handlers hs n) = node_param n" "node_param (with_ws w n) = node_param n"
  "node_param (with_static ss n) = node_param n" "node_param (with_params ps n) = node_param n"
  "node_param (with_regexes rs n) = node_param n" "node_param (with_wild c n) = node_param n"
  "node_regex (with_handlers hs n) = node_regex n" "node_regex (with_ws w n) = node_regex n"
  "node_regex (with_static ss n) = node_regex n" "node_regex (with_params ps n) = node_regex n"
  "node_regex (with_regexes rs n) = node_regex n" "node_regex (with_wild c n) = node_regex n"
  "node_handlers (with_handlers hs n) = hs" "node_handlers (with_ws w n) = node_handlers n"
  "node_handlers (with_static ss n) = node_handlers n" "node_handlers (with_params ps n) = node_handlers n"
  "node_handlers (with_regexes rs n) = node_handlers n" "node_handlers (with_wild c n) = node_handlers n"
  "node_ws (with_handlers hs n) = node_ws n" "node_ws (with_ws w n) = Some w"
  "node_ws (with_static ss n) = node_ws n" "node_ws (with_params ps n) = node_ws n"
  "node_ws (with_regexes rs n) = node_ws n" "node_ws (with_wild c n) = node_ws n"
  "node_static (with_handlers hs n) = node_static n" "node_static (with_ws w n) = node_static n"
  "node_static (with_static ss n) = ss" "node_static (with_params ps n) = node_static n"
  "node_static (with_regexes rs n) = node_static n" "node_static (with_wild c n) = node_static n"
  "node_params (with_handlers hs n) = node_params n" "node_params (with_ws w n) = node_params n"
  "node_params (with_static ss n) = node_params n" "node_params (with_params ps n) = ps"
  "node_params (with_regexes rs n) = node_params n" "node_params (with_wild c n) = node_params n"
  "node_regexes (with_handlers hs n) = node_regexes n" "node_regexes (with_ws w n) = node_regexes n"
  "node_regexes (with_static ss n) = node_regexes n" "node_regexes (with_params ps n) = node_regexes n"
  "node_regexes (with_regexes rs n) = rs" "node_regexes (with_wild c n) = node_regexes n"
  "node_wild (with_handlers hs n) = node_wild n" "node_wild (with_ws w n) = node_wild n"
  "node_wild (with_static ss n) = node_wild n" "node_wild (with_params ps n) = node_wild n"
  "node_wild (with_regexes rs n) = node_wild n" "node_wild (with_wild c n) = Some c"
  by (cases n; simp)+

lemma new_node_sel [simp]:
  "node_key (new_node k p r t) = k" "node_param (new_node k p r t) = p"
  "node_regex (new_node k p r t) = r" "node_handlers (new_node k p r t) = []"
  "node_ws (new_node k p r t) = None" "node_static (new_node k p r t) = []"
  "node_params (new_node k p r t) = []" "node_regexes (new_node k p r t) = []"
  "node_wild (new_node k p r t) = None"
  by (simp_all add: new_node_def)

type_synonym ('m, 'h, 'w) payload = "('m \<times> 'h) list \<times> 'w option"

definition payload :: "('m, 'h, 'w) node \<Rightarrow> ('m, 'h, 'w) payload" where
  "payload n = (node_handlers n, node_ws n)"

definition payload_at :: "('m, 'h, 'w) node \<Rightarrow> string list \<Rightarrow> ('m, 'h, 'w) payload" where
  "payload_at n pat = (case route_at n pat of None \<Rightarrow> ([], None) | Some m \<Rightarrow> payload m)"

text \<open>A change of what a node holds that leaves its place in the tree alone.\<close>

definition payload_change ::
  "(('m, 'h, 'w) node \<Rightarrow> ('m, 'h, 'w) node) \<Rightarrow> (('m, 'h, 'w) payload \<Rightarrow> ('m, 'h, 'w) payload) \<Rightarrow> bool" where
  "payload_change f g \<longleftrightarrow>
     (\<forall>n. payload (f n) = g (payload n) \<and> node_key (f n) = node_key n \<and>
          node_param (f n) = node_param n \<and> node_regex (f n) = node_regex n \<and>
          node_static (f n) = node_static n \<and> node_params (f n) = node_params n \<and>
          node_regexes (f n) = node_regexes n \<and> node_wild (f n) = node_wild n)"

lemma find_key_key: "find_key k cs = Some c \<Longrightarrow> node_key c = k \<and> c \<in> set cs"
  by (auto simp: find_key_def find_Some_iff)

lemma find_key_replace:
  "find_key k cs = Some c \<Longrightarrow> node_key c' = k \<Longrightarrow>
   find_key j (replace_key k c' cs) = (if j = k then Some c' else find_key j cs)"
  by (induction cs) (auto simp: find_key_def)

lemma find_key_append:
  "find_key j (cs @ [c]) =
     (case find_key j cs of Some d \<Rightarrow> Some d | None \<Rightarrow> if node_key c = j then Some c else None)"
  by (induction cs) (auto simp: find_key_def)

lemma map_of_replace_static:
  "map_of cs k = Some c \<Longrightarrow> map_of (replace_static k c' cs) j = (if j = k then Some c' else map_of cs j)"
  by (induction k c' cs rule: replace_static.induct) auto

text \<open>\<open>insert\<close> by the kind of the segment.\<close>

definition is_final_wild :: "string \<Rightarrow> string list \<Rightarrow> bool" where
  "is_final_wild seg segs \<longleftrightarrow> segs = [] \<and> seg = ''*''"

lemma insert_at_kind:
  "is_final_wild seg segs \<Longrightarrow> insert_at ok f (seg # segs) n =
     (let r = insert_at ok f segs (case node_wild n of Some c \<Rightarrow> c | None \<Rightarrow> new_node seg [] [] Wildcard_Node)
      in (with_wild (fst r) n, snd r))"
  "\<not> is_final_wild seg segs \<Longrightarrow> is_param seg \<Longrightarrow> insert_at ok f (seg # segs) n =
     (case find_key seg (node_params n) of
        Some c \<Rightarrow> let r = insert_at ok f segs c
          in (with_params (replace_key seg (fst r) (node_params n)) n, snd r)
      | None \<Rightarrow> let r = insert_at ok f segs (new_node seg (drop 1 seg) [] Param_Node)
          in (with_params (node_params n @ [fst r]) n, snd r))"
  "\<not> is_final_wild seg segs \<Longrightarrow> \<not> is_param seg \<Longrightarrow> is_regex seg \<Longrightarrow> insert_at ok f (seg # segs) n =
     (case find_key seg (node_regexes n) of
        Some c \<Rightarrow> let r = insert_at ok f segs c
          in (with_regexes (replace_key seg (fst r) (node_regexes n)) n, snd r)
      | None \<Rightarrow>
          if \<not> ok (regex_pattern seg) then (n, Some Regex_Error)
          else let r = insert_at ok f segs (new_node seg (regex_name seg) (regex_pattern seg) Regex_Node)
            in (with_regexes (node_regexes n @ [fst r]) n, snd r))"
  "\<not> is_final_wild seg segs \<Longrightarrow> \<not> is_param seg \<Longrightarrow> \<not> is_regex seg \<Longrightarrow> insert_at ok f (seg # segs) n =
     (case map_of (node_static n) seg of
        Some c \<Rightarrow> let r = insert_at ok f segs c
          in (with_static (replace_static seg (fst r) (node_static n)) n, snd r)
      | None \<Rightarrow> let r = insert_at ok f segs (new_node seg [] [] Static_Node)
          in (with_static (node_static n @ [(seg, fst r)]) n, snd r))"
  by (auto simp: is_final_wild_def Let_def case_prod_beta split: option.split)

lemma segment_kinds:
  obtains (wild) "is_final_wild seg segs"
    | (param) "\<not> is_final_wild seg segs" "is_param seg"
    | (regex) "\<not> is_final_wild seg segs" "\<not> is_param seg" "is_regex seg"
    | (static) "\<not> is_final_wild seg segs" "\<not> is_param seg" "\<not> is_regex seg"
  by blast

declare insert_at.simps(2) [simp del]

text \<open>An insertion below the root changes neither what the root holds nor its key.\<close>

lemma insert_at_root:
  assumes "payload_change f g"
  shows "node_key (fst (insert_at ok f segs n)) = node_key n"
    "node_param (fst (insert_at ok f segs n)) = node_param n"
    "node_regex (fst (insert_at ok f segs n)) = node_regex n"
    "segs \<noteq> [] \<Longrightarrow> payload (fst (insert_at ok f segs n)) = payload n"
proof -
  have below: "node_key (fst (insert_at ok f (seg # ss) n)) = node_key n \<and>
      node_param (fst (insert_at ok f (seg # ss) n)) = node_param n \<and>
      node_regex (fst (insert_at ok f (seg # ss) n)) = node_regex n \<and>
      payload (fst (insert_at ok f (seg # ss) n)) = payload n" for seg ss
    by (cases rule: segment_kinds [of seg ss])
       (simp_all add: insert_at_kind payload_def Let_def split: option.split)
  then show "node_key (fst (insert_at ok f segs n)) = node_key n"
    "node_param (fst (insert_at ok f segs n)) = node_param n"
    "node_regex (fst (insert_at ok f segs n)) = node_regex n"
    "segs \<noteq> [] \<Longrightarrow> payload (fst (insert_at ok f segs n)) = payload n"
    using assms by (cases segs; simp add: payload_change_def)+
qed

lemma payload_at_step:
  "payload_at n (seg # segs) =
     (case child n (segs = []) seg of None \<Rightarrow> ([], None) | Some c \<Rightarrow> payload_at c segs)"
  by (simp add: payload_at_def split: option.split)

lemma child_new [simp]: "child (new_node k p r t) l q = None"
  by (simp add: child_def find_key_def)

lemma payload_at_new [simp]: "payload_at (new_node k p r t) pat = ([], None)"
  by (cases pat) (simp_all add: payload_at_step, simp add: payload_at_def payload_def)

lemma payload_at_root: "payload_at n [] = payload n"
  by (simp add: payload_at_def)

text \<open>The child a segment leads to: the wildcard of a node, or the one with the segment's key.\<close>

definition slot :: "bool \<Rightarrow> string \<Rightarrow> string option" where
  "slot is_last seg = (if is_last \<and> seg = ''*'' then None else Some seg)"

lemma star_static [simp]: "\<not> is_param ''*''" "\<not> is_regex ''*''"
  by (simp_all add: is_param_def is_regex_def)

lemma param_not_regex: "is_param seg \<Longrightarrow> \<not> is_regex seg"
  by (cases seg) (auto simp: is_param_def is_regex_def)

lemma insert_at_child:
  fixes n :: "('m, 'h, 'w) node"
  assumes f: "payload_change f g" and ok: "pat_ok ok (seg # segs)"
  defines "n' \<equiv> fst (insert_at ok f (seg # segs) n)"
  obtains c where "child n (segs = []) seg = Some c \<or>
      child n (segs = []) seg = None \<and> (\<exists>k p r t. c = new_node k p r t)"
    "snd (insert_at ok f (seg # segs) n) = snd (insert_at ok f segs c)"
    "\<And>l q. child n' l q =
       (if slot l q = slot (segs = []) seg then Some (fst (insert_at ok f segs c)) else child n l q)"
proof -
  note key = insert_at_root(1) [OF f, of ok segs]
  show thesis
  proof (cases rule: segment_kinds [of seg segs])
    case wild
    then show thesis
      by (intro that [of "case node_wild n of Some c \<Rightarrow> c | None \<Rightarrow> new_node seg [] [] Wildcard_Node"])
         (auto simp: n'_def child_def slot_def insert_at_kind Let_def is_final_wild_def split: option.split)
  next
    case param
    let ?c = "case find_key seg (node_params n) of Some c \<Rightarrow> c | None \<Rightarrow> new_node seg (drop 1 seg) [] Param_Node"
    have k: "node_key (fst (insert_at ok f segs ?c)) = seg"
      using key find_key_key [of seg "node_params n"] by (auto split: option.split)
    have "find_key q (node_params n') =
        (if q = seg then Some (fst (insert_at ok f segs ?c)) else find_key q (node_params n))" for q
      using param k
      by (auto simp: n'_def insert_at_kind Let_def find_key_replace find_key_append split: option.splits)
    moreover have "node_static n' = node_static n" "node_regexes n' = node_regexes n" "node_wild n' = node_wild n"
      "snd (insert_at ok f (seg # segs) n) = snd (insert_at ok f segs ?c)"
      using param by (simp_all add: n'_def insert_at_kind Let_def split: option.split)
    ultimately show thesis using param
      by (intro that [of ?c])
         (auto simp: child_def slot_def is_final_wild_def split: option.split)
  next
    case regex
    let ?c = "case find_key seg (node_regexes n) of Some c \<Rightarrow> c
      | None \<Rightarrow> new_node seg (regex_name seg) (regex_pattern seg) Regex_Node"
    have k: "node_key (fst (insert_at ok f segs ?c)) = seg"
      using key find_key_key [of seg "node_regexes n"] by (auto split: option.split)
    have "find_key q (node_regexes n') =
        (if q = seg then Some (fst (insert_at ok f segs ?c)) else find_key q (node_regexes n))" for q
      using regex ok k
      by (auto simp: n'_def insert_at_kind Let_def find_key_replace find_key_append split: option.splits)
    moreover have "node_static n' = node_static n" "node_params n' = node_params n" "node_wild n' = node_wild n"
      "snd (insert_at ok f (seg # segs) n) = snd (insert_at ok f segs ?c)"
      using regex ok by (simp_all add: n'_def insert_at_kind Let_def split: option.split)
    ultimately show thesis using regex
      by (intro that [of ?c])
         (auto simp: child_def slot_def is_final_wild_def split: option.split)
  next
    case static
    let ?c = "case map_of (node_static n) seg of Some c \<Rightarrow> c | None \<Rightarrow> new_node seg [] [] Static_Node"
    have "map_of (node_static n') q =
        (if q = seg then Some (fst (insert_at ok f segs ?c)) else map_of (node_static n) q)" for q
      using static
      by (auto simp: n'_def insert_at_kind Let_def map_of_replace_static map_add_def split: option.splits)
    moreover have "node_regexes n' = node_regexes n" "node_params n' = node_params n" "node_wild n' = node_wild n"
      "snd (insert_at ok f (seg # segs) n) = snd (insert_at ok f segs ?c)"
      using static by (simp_all add: n'_def insert_at_kind Let_def split: option.split)
    ultimately show thesis using static
      by (intro that [of ?c])
         (auto simp: child_def slot_def is_final_wild_def split: option.split)
  qed
qed

lemma slot_eq:
  "slot (qs = []) q = slot (segs = []) seg \<Longrightarrow>
   q = seg \<and> child n (qs = []) q = child n (segs = []) seg \<and>
   (segs = [] \<and> seg = ''*'' \<longrightarrow> qs = [])"
  by (auto simp: slot_def child_def split: if_splits)

lemma insert_at_payload:
  assumes f: "payload_change f g"
  shows "pat_ok ok segs \<Longrightarrow>
    snd (insert_at ok f segs n) = None \<and>
    payload_at (fst (insert_at ok f segs n)) pat =
      (if pat = segs then g (payload_at n segs) else payload_at n pat)"
proof (induction segs arbitrary: n pat)
  case Nil
  have "child (f n) l q = child n l q" for l q
    using f by (simp add: payload_change_def child_def)
  with f show ?case
    by (cases pat) (simp_all add: payload_at_step payload_at_root payload_change_def)
next
  case (Cons seg segs)
  from insert_at_child [OF f Cons.prems, of n]
  obtain c where c: "child n (segs = []) seg = Some c \<or>
      child n (segs = []) seg = None \<and> (\<exists>k p r t. c = new_node k p r t)"
    and e: "snd (insert_at ok f (seg # segs) n) = snd (insert_at ok f segs c)"
    and ch: "\<And>l q. child (fst (insert_at ok f (seg # segs) n)) l q =
       (if slot l q = slot (segs = []) seg then Some (fst (insert_at ok f segs c)) else child n l q)"
    by blast
  have ok: "pat_ok ok segs" using Cons.prems by simp
  have at_c: "payload_at n (q # qs) = payload_at c qs"
    if "slot (qs = []) q = slot (segs = []) seg" for q qs
    using slot_eq [OF that, of n] c by (auto simp: payload_at_step)
  show ?case
  proof (cases pat)
    case Nil
    with e Cons.IH [OF ok, of c "[]"] insert_at_root(4) [OF f, of "seg # segs" ok n] show ?thesis
      by (simp add: payload_at_root)
  next
    case (Cons q qs)
    show ?thesis
    proof (cases "slot (qs = []) q = slot (segs = []) seg")
      case True
      with Cons ch e Cons.IH [OF ok, of c qs] at_c [OF True] at_c [OF refl] slot_eq [OF True, of n]
      show ?thesis by (simp add: payload_at_step)
    next
      case False
      then have "(pat = seg # segs) = False" using Cons by auto
      with False Cons ch e Cons.IH [OF ok, of c] show ?thesis
        by (simp only: payload_at_step if_False)
    qed
  qed
qed

section \<open>Well-formed trees\<close>

text \<open>
  What insertion keeps of the tree: children have distinct keys of their kind, the name and pattern
  of a child are those of its key, a wildcard node has no children, and a static child with the key
  of a wildcard, which stands above others, holds nothing itself.
\<close>

function tree_wf :: "('m, 'h, 'w) node \<Rightarrow> bool" where
  "tree_wf n \<longleftrightarrow>
     distinct (map fst (node_static n)) \<and>
     (\<forall>e\<in>set (node_static n). \<not> is_param (fst e) \<and> \<not> is_regex (fst e) \<and> tree_wf (snd e) \<and>
        (fst e = ''*'' \<longrightarrow> payload (snd e) = ([], None))) \<and>
     distinct (map node_key (node_regexes n)) \<and>
     (\<forall>c\<in>set (node_regexes n). is_regex (node_key c) \<and> node_param c = regex_name (node_key c) \<and>
        node_regex c = regex_pattern (node_key c) \<and> tree_wf c) \<and>
     distinct (map node_key (node_params n)) \<and>
     (\<forall>c\<in>set (node_params n). is_param (node_key c) \<and> node_param c = drop 1 (node_key c) \<and>
        tree_wf c)"
  by pat_completeness auto
termination
  by (relation "measure size") (auto dest: size_child)

declare tree_wf.simps [simp del]

lemma tree_wf_new: "tree_wf (new_node k p r t)"
  by (simp add: tree_wf.simps [of "new_node k p r t"])

lemma set_replace_key:
  "find_key k cs = Some c \<Longrightarrow> x \<in> set (replace_key k c' cs) \<Longrightarrow> x = c' \<or> x \<in> set cs"
  by (induction cs) (auto simp: find_key_def split: if_splits)

lemma keys_replace_key:
  "node_key c' = k \<Longrightarrow> map node_key (replace_key k c' cs) = map node_key cs"
  by (induction cs) auto

lemma set_replace_static:
  "e \<in> set (replace_static k c' cs) \<Longrightarrow> e = (k, c') \<or> e \<in> set cs"
  by (induction k c' cs rule: replace_static.induct) (auto split: if_splits)

lemma keys_replace_static: "map fst (replace_static k c' cs) = map fst cs"
  by (induction k c' cs rule: replace_static.induct) auto

lemma find_key_None: "find_key k cs = None \<Longrightarrow> k \<notin> node_key ` set cs"
  by (auto simp: find_key_def find_None_iff)

lemma insert_at_wf:
  assumes f: "payload_change f g"
  shows "tree_wf n \<Longrightarrow> tree_wf (fst (insert_at ok f segs n))"
proof (induction segs arbitrary: n)
  case Nil
  with f show ?case by (simp add: tree_wf.simps [of n] tree_wf.simps [of "f n"] payload_change_def)
next
  case (Cons seg segs)
  note wf = Cons.prems [unfolded tree_wf.simps [of n]]
  note root = insert_at_root [OF f, where ok = ok and segs = segs]
  show ?case
  proof (cases rule: segment_kinds [of seg segs])
    case wild
    then show ?thesis using wf
      by (subst tree_wf.simps) (simp add: insert_at_kind Let_def)
  next
    case param
    show ?thesis
    proof (cases "find_key seg (node_params n)")
      case None
      let ?c = "fst (insert_at ok f segs (new_node seg (drop 1 seg) [] Param_Node))"
      have "tree_wf ?c" by (rule Cons.IH [OF tree_wf_new])
      with None param wf root find_key_None [OF None] show ?thesis
        by (subst tree_wf.simps) (auto simp: insert_at_kind Let_def)
    next
      case (Some c)
      then have c: "c \<in> set (node_params n)" "node_key c = seg" using find_key_key by auto
      let ?c = "fst (insert_at ok f segs c)"
      have "tree_wf ?c" "node_param ?c = drop 1 seg" "node_key ?c = seg"
        using wf c Cons.IH [of c] root by auto
      moreover have "set (replace_key seg ?c (node_params n)) \<subseteq> insert ?c (set (node_params n))"
        using set_replace_key [OF Some] by blast
      ultimately have "\<forall>d\<in>set (replace_key seg ?c (node_params n)).
          is_param (node_key d) \<and> node_param d = drop 1 (node_key d) \<and> tree_wf d"
        "distinct (map node_key (replace_key seg ?c (node_params n)))"
        using wf param by (blast, simp add: keys_replace_key)
      with Some param wf show ?thesis
        by (subst tree_wf.simps) (simp add: insert_at_kind Let_def)
    qed
  next
    case regex
    show ?thesis
    proof (cases "find_key seg (node_regexes n)")
      case None
      let ?c = "fst (insert_at ok f segs (new_node seg (regex_name seg) (regex_pattern seg) Regex_Node))"
      have "tree_wf ?c" by (rule Cons.IH [OF tree_wf_new])
      show ?thesis
      proof (cases "ok (regex_pattern seg)")
        case True
        with \<open>tree_wf ?c\<close> None regex wf root find_key_None [OF None] show ?thesis
          by (subst tree_wf.simps) (auto simp: insert_at_kind Let_def)
      next
        case False
        with None regex Cons.prems show ?thesis by (simp add: insert_at_kind)
      qed
    next
      case (Some c)
      then have c: "c \<in> set (node_regexes n)" "node_key c = seg" using find_key_key by auto
      let ?c = "fst (insert_at ok f segs c)"
      have "tree_wf ?c" "node_param ?c = regex_name seg" "node_regex ?c = regex_pattern seg"
        "node_key ?c = seg"
        using wf c Cons.IH [of c] root by auto
      moreover have "set (replace_key seg ?c (node_regexes n)) \<subseteq> insert ?c (set (node_regexes n))"
        using set_replace_key [OF Some] by blast
      ultimately have "\<forall>d\<in>set (replace_key seg ?c (node_regexes n)). is_regex (node_key d) \<and>
          node_param d = regex_name (node_key d) \<and> node_regex d = regex_pattern (node_key d) \<and> tree_wf d"
        "distinct (map node_key (replace_key seg ?c (node_regexes n)))"
        using wf regex by (blast, simp add: keys_replace_key)
      with Some regex wf show ?thesis
        by (subst tree_wf.simps) (simp add: insert_at_kind Let_def)
    qed
  next
    case static
    show ?thesis
    proof (cases "map_of (node_static n) seg")
      case None
      let ?c = "fst (insert_at ok f segs (new_node seg [] [] Static_Node))"
      have "tree_wf ?c" by (rule Cons.IH [OF tree_wf_new])
      moreover have "seg = ''*'' \<Longrightarrow> payload ?c = ([], None)"
        using static(1) root(4) by (auto simp: payload_def is_final_wild_def)
      moreover have "seg \<notin> fst ` set (node_static n)" using None by (simp add: map_of_eq_None_iff)
      ultimately show ?thesis using None static wf
        by (subst tree_wf.simps) (auto simp: insert_at_kind Let_def)
    next
      case (Some c)
      then have c: "(seg, c) \<in> set (node_static n)" by (rule map_of_SomeD)
      let ?c = "fst (insert_at ok f segs c)"
      have "tree_wf ?c" "seg = ''*'' \<Longrightarrow> payload ?c = ([], None)"
        using wf c Cons.IH [of c] root(4) static(1) by (fastforce simp: is_final_wild_def)+
      then have "\<forall>e\<in>set (replace_static seg ?c (node_static n)). \<not> is_param (fst e) \<and>
          \<not> is_regex (fst e) \<and> tree_wf (snd e) \<and> (fst e = ''*'' \<longrightarrow> payload (snd e) = ([], None))"
        using wf static set_replace_static [of _ seg ?c "node_static n"] by fastforce
      with Some static wf show ?thesis
        by (subst tree_wf.simps) (simp add: insert_at_kind Let_def keys_replace_static)
    qed
  qed
qed

end
