(* ===== verification/Route_Spec.thy ===== *)
theory Route_Spec
  imports Route_Table
begin

text \<open>
  The route tree against its specification. A tree built by registrations is a table from patterns
  and methods to handlers, in which the last registration counts (the locales \<open>route\_table\<close> and
  \<open>shared\_table\<close>, met by the tree for HTTP and for WebSocket handlers), and the nodes the search tries for a path are
  exactly those of the patterns that match it, with the parameters the pattern binds.
\<close>

section \<open>Candidates are the routes that match\<close>

lemma find_key_distinct:
  "distinct (map node_key cs) \<Longrightarrow> c \<in> set cs \<Longrightarrow> find_key (node_key c) cs = Some c"
  by (induction cs) (auto simp: find_key_def)

lemma regex_not_star: "is_regex p \<Longrightarrow> p \<noteq> ''*''"
  by (auto simp: is_regex_def)

lemma param_not_star: "is_param p \<Longrightarrow> p \<noteq> ''*''"
  by (auto simp: is_param_def)

lemma param_key_step:
  assumes "tree_wf n" and "c \<in> set (node_params n)"
  shows "child n l (node_key c) = Some c" "is_param (node_key c)" "node_param c = drop 1 (node_key c)"
    "tree_wf c"
  using assms param_not_star [of "node_key c"]
  by (auto simp: tree_wf.simps [of n] child_def find_key_distinct)

lemma regex_key_step:
  assumes "tree_wf n" and "c \<in> set (node_regexes n)"
  shows "child n l (node_key c) = Some c" "is_regex (node_key c)" "\<not> is_param (node_key c)"
    "node_param c = regex_name (node_key c)" "node_regex c = regex_pattern (node_key c)" "tree_wf c"
  using assms regex_not_star [of "node_key c"] param_not_regex [of "node_key c"]
  by (auto simp: tree_wf.simps [of n] child_def find_key_distinct)

lemma static_key_step:
  assumes "tree_wf n" and "map_of (node_static n) seg = Some c"
  shows "\<not> is_param seg" "\<not> is_regex seg" "tree_wf c" "seg = ''*'' \<Longrightarrow> payload c = ([], None)"
  using assms(1) map_of_SomeD [OF assms(2)] by (auto simp: tree_wf.simps [of n])

lemma candidates_sound:
  assumes "tree_wf n" and "(m, b) \<in> set (candidates rx n segs)" and "payload m \<noteq> ([], None)"
  shows "\<exists>pat. route_at n pat = Some m \<and> pat_match rx pat segs \<and> b = pat_binds pat segs"
  using assms
proof (induction segs arbitrary: n b)
  case Nil
  then show ?case by (intro exI [of _ "[]"]) simp
next
  case (Cons seg segs)
  have below: "\<exists>pat. route_at n pat = Some m \<and> pat_match rx pat (seg # segs) \<and>
      seg_bind p seg @ b' = pat_binds pat (seg # segs)"
    if "\<And>l. \<not> (l \<and> p = ''*'') \<Longrightarrow> child n l p = Some c" and "p = ''*'' \<Longrightarrow> payload c = ([], None)"
      and "seg_match rx p seg" and "tree_wf c" and "(m, b') \<in> set (candidates rx c segs)" for p c b'
  proof -
    note c = that
    obtain pat where pat: "route_at c pat = Some m" "pat_match rx pat segs" "b' = pat_binds pat segs"
      using Cons.IH [OF c(4,5) Cons.prems(3)] by blast
    then have "\<not> (pat = [] \<and> p = ''*'')" using Cons.prems(3) c(2) by auto
    with pat c(1) [of "pat = []"] c(3) show ?thesis
      by (intro exI [of _ "p # pat"]) auto
  qed
  consider (static) c where "map_of (node_static n) seg = Some c" "(m, b) \<in> set (candidates rx c segs)"
    | (regex) c b' where "c \<in> set (node_regexes n)" "rx (node_regex c) seg"
        "(m, b') \<in> set (candidates rx c segs)" "b = (node_param c, seg) # b'"
    | (param) c b' where "c \<in> set (node_params n)"
        "(m, b') \<in> set (candidates rx c segs)" "b = (node_param c, seg) # b'"
    | (wild) "node_wild n = Some m" "b = [(''*'', rest_path (seg # segs))]"
    using Cons.prems(2)
    by (cases "map_of (node_static n) seg"; cases "node_wild n") (auto split: if_splits)
  then show ?case
  proof cases
    case static
    note st = static_key_step [OF Cons.prems(1) static(1)]
    from st static show ?thesis
      by (intro below [of seg c b, unfolded seg_bind_def, simplified st if_False append_Nil])
         (auto simp: child_def seg_match_def)
  next
    case regex
    note st = regex_key_step [OF Cons.prems(1) regex(1)]
    have "seg_bind (node_key c) seg = [(node_param c, seg)]" using st by (simp add: seg_bind_def)
    with below [of "node_key c" c b'] st regex regex_not_star [OF st(2)] show ?thesis
      by (simp add: seg_match_def)
  next
    case param
    note st = param_key_step [OF Cons.prems(1) param(1)]
    have "seg_bind (node_key c) seg = [(node_param c, seg)]" using st by (simp add: seg_bind_def)
    with below [of "node_key c" c b'] st param param_not_star [OF st(2)] show ?thesis
      by (simp add: seg_match_def)
  next
    case wild
    then show ?thesis by (intro exI [of _ "[''*'']"]) (simp add: child_def)
  qed
qed

lemma candidates_complete:
  assumes "tree_wf n" and "route_at n pat = Some m" and "pat_match rx pat segs"
  shows "(m, pat_binds pat segs) \<in> set (candidates rx n segs)"
  using assms
proof (induction pat arbitrary: n segs)
  case Nil
  then show ?case by simp
next
  case (Cons p ps)
  show ?case
  proof (cases "ps = [] \<and> p = ''*''")
    case True
    with Cons.prems(3) obtain s ss where "segs = s # ss" by (cases segs) auto
    with True Cons.prems(2) show ?thesis by (auto simp: child_def split: option.splits)
  next
    case False
    with Cons.prems(3) obtain s ss where segs: "segs = s # ss" and sm: "seg_match rx p s"
      and pm: "pat_match rx ps ss" by (cases segs) auto
    from Cons.prems(2) obtain c where c: "child n (ps = []) p = Some c" and at: "route_at c ps = Some m"
      by (auto split: option.splits)
    show ?thesis
    proof (cases rule: segment_kinds [of p ps])
      case wild
      with False show ?thesis by (simp add: is_final_wild_def)
    next
      case param
      with c False find_key_key have c': "c \<in> set (node_params n)" "node_key c = p"
        by (auto simp: child_def)
      note st = param_key_step [OF Cons.prems(1) c'(1)]
      from Cons.IH [OF st(4) at pm] c' st(3) param segs False show ?thesis
        by (auto simp: seg_bind_def intro!: bexI [of _ c])
    next
      case regex
      with c False find_key_key have c': "c \<in> set (node_regexes n)" "node_key c = p"
        by (auto simp: child_def)
      note st = regex_key_step [OF Cons.prems(1) c'(1)]
      from Cons.IH [OF st(6) at pm] c' st(4,5) regex sm segs False show ?thesis
        by (auto simp: seg_bind_def seg_match_def intro!: bexI [of _ c])
    next
      case static
      with c False have c': "map_of (node_static n) p = Some c" by (auto simp: child_def)
      note st = static_key_step [OF Cons.prems(1) c']
      from Cons.IH [OF st(3) at pm] c' static sm segs False show ?thesis
        by (auto simp: seg_bind_def seg_match_def)
    qed
  qed
qed

text \<open>A route without parameters is the first candidate for its own path.\<close>

definition static_pattern :: "string list \<Rightarrow> bool" where
  "static_pattern pat \<longleftrightarrow>
     (\<forall>p\<in>set pat. \<not> is_param p \<and> \<not> is_regex p) \<and> (pat = [] \<or> last pat \<noteq> ''*'')"

lemma candidates_static:
  "static_pattern pat \<Longrightarrow> route_at n pat = Some m \<Longrightarrow> \<exists>rest. candidates rx n pat = (m, []) # rest"
proof (induction pat arbitrary: n)
  case (Cons p ps)
  then obtain c where "map_of (node_static n) p = Some c" "route_at c ps = Some m"
    by (auto simp: static_pattern_def child_def split: option.splits if_splits)
  with Cons.IH [of c] Cons.prems(1) show ?case by (auto simp: static_pattern_def split: if_splits)
qed simp

section \<open>Names stay fresh\<close>

text \<open>The names a pattern binds.\<close>

definition seg_names :: "string \<Rightarrow> string list" where
  "seg_names p = (if is_param p then [drop 1 p] else if is_regex p then [regex_name p] else [])"

fun pat_names :: "string list \<Rightarrow> string list" where
  "pat_names [] = []"
| "pat_names (p # ps) = (if ps = [] \<and> p = ''*'' then [''*''] else seg_names p @ pat_names ps)"

lemma fst_seg_bind: "map fst (seg_bind p s) = seg_names p"
  by (simp add: seg_bind_def seg_names_def)

lemma pat_names_kind:
  "is_final_wild p ps \<Longrightarrow> pat_names (p # ps) = [''*'']"
  "\<not> is_final_wild p ps \<Longrightarrow> pat_names (p # ps) = seg_names p @ pat_names ps"
  by (auto simp: is_final_wild_def)

declare pat_names.simps(2) [simp del]

lemma names_fresh_new: "names_fresh D (new_node k p r t)"
  by (simp add: names_fresh.simps [of D "new_node k p r t"])

lemma insert_at_fresh:
  assumes f: "payload_change f g"
  shows "tree_wf n \<Longrightarrow> names_fresh D n \<Longrightarrow> distinct (pat_names segs) \<Longrightarrow>
    set (pat_names segs) \<inter> D = {} \<Longrightarrow> names_fresh D (fst (insert_at ok f segs n))"
proof (induction segs arbitrary: n D)
  case Nil
  with f show ?case by (simp add: names_fresh.simps [of D n] names_fresh.simps [of D "f n"] payload_change_def)
next
  case (Cons seg segs)
  note wf = Cons.prems(1)
  note fresh = Cons.prems(2) [unfolded names_fresh.simps [of D n]]
  note root = insert_at_root [OF f, where ok = ok and segs = segs]
  show ?case
  proof (cases rule: segment_kinds [of seg segs])
    case wild
    with Cons.prems(4) fresh show ?thesis
      by (subst names_fresh.simps) (simp add: insert_at_kind pat_names_kind Let_def)
  next
    case param
    define name where "name = drop 1 seg"
    have names: "name \<notin> D" "distinct (pat_names segs)" "set (pat_names segs) \<inter> insert name D = {}"
      using Cons.prems(3,4) param by (auto simp: pat_names_kind seg_names_def name_def)
    have new: "names_fresh (insert name D) (fst (insert_at ok f segs c))" "node_param (fst (insert_at ok f segs c)) = name"
      if "tree_wf c" "names_fresh (insert name D) c" "node_param c = name" for c
      using Cons.IH [OF that(1,2) names(2,3)] that(3) root(2) by auto
    show ?thesis
    proof (cases "find_key seg (node_params n)")
      case None
      with new [OF tree_wf_new names_fresh_new, of seg name "[]" Param_Node] names(1) param fresh show ?thesis
        by (subst names_fresh.simps) (auto simp: insert_at_kind name_def Let_def)
    next
      case (Some c)
      then have c: "c \<in> set (node_params n)" "node_key c = seg" using find_key_key by auto
      note st = param_key_step [OF wf c(1)]
      have "node_param c = name" "names_fresh (insert name D) c" using fresh c st(3) by (auto simp: name_def)
      note n' = new [OF st(4) this(2,1)]
      have "\<forall>d\<in>set (replace_key seg (fst (insert_at ok f segs c)) (node_params n)).
          node_param d \<notin> D \<and> names_fresh (insert (node_param d) D) d"
        using n' names(1) fresh set_replace_key [OF Some] by metis
      with Some param fresh show ?thesis
        by (subst names_fresh.simps) (simp add: insert_at_kind Let_def)
    qed
  next
    case regex
    define name where "name = regex_name seg"
    have names: "name \<notin> D" "distinct (pat_names segs)" "set (pat_names segs) \<inter> insert name D = {}"
      using Cons.prems(3,4) regex by (auto simp: pat_names_kind seg_names_def name_def)
    have new: "names_fresh (insert name D) (fst (insert_at ok f segs c))" "node_param (fst (insert_at ok f segs c)) = name"
      if "tree_wf c" "names_fresh (insert name D) c" "node_param c = name" for c
      using Cons.IH [OF that(1,2) names(2,3)] that(3) root(2) by auto
    show ?thesis
    proof (cases "find_key seg (node_regexes n)")
      case None
      show ?thesis
      proof (cases "ok (regex_pattern seg)")
        case True
        with None new [OF tree_wf_new names_fresh_new, of seg name "regex_pattern seg" Regex_Node] names(1) regex fresh
        show ?thesis by (subst names_fresh.simps) (auto simp: insert_at_kind name_def Let_def)
      next
        case False
        with None regex Cons.prems(2) show ?thesis by (simp add: insert_at_kind)
      qed
    next
      case (Some c)
      then have c: "c \<in> set (node_regexes n)" "node_key c = seg" using find_key_key by auto
      note st = regex_key_step [OF wf c(1)]
      have "node_param c = name" "names_fresh (insert name D) c" using fresh c st(4) by (auto simp: name_def)
      note n' = new [OF st(6) this(2,1)]
      have "\<forall>d\<in>set (replace_key seg (fst (insert_at ok f segs c)) (node_regexes n)).
          node_param d \<notin> D \<and> names_fresh (insert (node_param d) D) d"
        using n' names(1) fresh set_replace_key [OF Some] by metis
      with Some regex fresh show ?thesis
        by (subst names_fresh.simps) (simp add: insert_at_kind Let_def)
    qed
  next
    case static
    have names: "distinct (pat_names segs)" "set (pat_names segs) \<inter> D = {}"
      using Cons.prems(3,4) static by (auto simp: pat_names_kind seg_names_def)
    show ?thesis
    proof (cases "map_of (node_static n) seg")
      case None
      with Cons.IH [OF tree_wf_new names_fresh_new names, of seg "[]" "[]" Static_Node] static fresh show ?thesis
        by (subst names_fresh.simps) (auto simp: insert_at_kind Let_def)
    next
      case (Some c)
      have "names_fresh D c" using fresh map_of_SomeD [OF Some] by force
      from Cons.IH [OF static_key_step(3) [OF wf Some] this names] fresh
      have "\<forall>e\<in>set (replace_static seg (fst (insert_at ok f segs c)) (node_static n)). names_fresh D (snd e)"
        using set_replace_static [of _ seg "fst (insert_at ok f segs c)" "node_static n"] by (metis snd_conv)
      with Some static fresh show ?thesis
        by (subst names_fresh.simps) (simp add: insert_at_kind Let_def)
    qed
  qed
qed

section \<open>The tree as a table\<close>

text \<open>The left entries of a list, in order.\<close>

definition lefts :: "('a + 'b) list \<Rightarrow> 'a list" where
  "lefts xs = concat (map (\<lambda>x. case x of Inl e \<Rightarrow> [e] | Inr _ \<Rightarrow> []) xs)"

text \<open>
  What the router needs of its table: a registration keeps the invariant, is found afterwards under
  its key and slot, and disturbs no other.
\<close>

locale route_table =
  fixes look :: "'t \<Rightarrow> 'k \<Rightarrow> 'm \<Rightarrow> 'h option"
    and put :: "'k \<Rightarrow> 'm \<Rightarrow> 'h \<Rightarrow> 't \<Rightarrow> 't"
    and inv :: "'t \<Rightarrow> bool"
    and valid :: "'k \<Rightarrow> bool"
  assumes put_inv: "inv t \<Longrightarrow> valid k \<Longrightarrow> inv (put k m h t)"
    and look_put: "inv t \<Longrightarrow> valid k \<Longrightarrow>
      look (put k m h t) k' m' = (if k' = k \<and> m' = m then Some h else look t k' m')"

text \<open>
  A table that shares its store with another: the steps of the other keep the invariant and change
  nothing the table shows. After any interleaving of the two, the last registration counts.
\<close>

locale shared_table = route_table look put inv valid
  for look :: "'t \<Rightarrow> 'k \<Rightarrow> 'm \<Rightarrow> 'h option"
    and put :: "'k \<Rightarrow> 'm \<Rightarrow> 'h \<Rightarrow> 't \<Rightarrow> 't"
    and inv :: "'t \<Rightarrow> bool"
    and valid :: "'k \<Rightarrow> bool" +
  fixes touch :: "'e \<Rightarrow> 't \<Rightarrow> 't"
    and touch_valid :: "'e \<Rightarrow> bool"
  assumes touch_inv: "inv t \<Longrightarrow> touch_valid e \<Longrightarrow> inv (touch e t)"
    and look_touch: "inv t \<Longrightarrow> touch_valid e \<Longrightarrow> look (touch e t) k m = look t k m"
begin

lemma mixed_run:
  assumes "inv t"
    and "\<forall>x\<in>set xs. case x of Inl e \<Rightarrow> valid (fst (fst e)) | Inr e \<Rightarrow> touch_valid e"
  defines "run \<equiv> foldl (\<lambda>t x. case x of Inl e \<Rightarrow> put (fst (fst e)) (snd (fst e)) (snd e) t | Inr e \<Rightarrow> touch e t)"
  shows "inv (run t xs) \<and>
    look (run t xs) k m =
      (case map_of (rev (lefts xs)) (k, m) of Some h \<Rightarrow> Some h | None \<Rightarrow> look t k m)"
  using assms(1,2) unfolding run_def
proof (induction xs arbitrary: t)
  case (Cons x xs)
  show ?case
  proof (cases x)
    case (Inl e)
    have "fst e = (k, m) \<longleftrightarrow> k = fst (fst e) \<and> m = snd (fst e)" by (cases "fst e") auto
    with Inl Cons put_inv look_put [of t "fst (fst e)"] show ?thesis
      by (auto simp: lefts_def map_add_def split: option.splits)
  next
    case (Inr e)
    then have "touch_valid e" using Cons.prems by simp
    note e = touch_inv [OF Cons.prems(1) this] look_touch [OF Cons.prems(1) this, of k m]
    from Inr Cons.IH [OF e(1), unfolded e(2)] Cons.prems(2) show ?thesis by (simp add: lefts_def)
  qed
qed (simp add: lefts_def)

end

definition put_handler ::
  "(string \<Rightarrow> bool) \<Rightarrow> string list \<Rightarrow> 'm \<Rightarrow> 'h \<Rightarrow> ('m, 'h, 'w) node \<Rightarrow> ('m, 'h, 'w) node" where
  "put_handler ok pat m h n =
     fst (insert_at ok (\<lambda>n. with_handlers (set_handler m h (node_handlers n)) n) pat n)"

definition look_handler :: "('m, 'h, 'w) node \<Rightarrow> string list \<Rightarrow> 'm \<Rightarrow> 'h option" where
  "look_handler n pat m = map_of (fst (payload_at n pat)) m"

definition put_ws :: "(string \<Rightarrow> bool) \<Rightarrow> string list \<Rightarrow> unit \<Rightarrow> 'w \<Rightarrow> ('m, 'h, 'w) node \<Rightarrow> ('m, 'h, 'w) node" where
  "put_ws ok pat u w n = fst (insert_at ok (with_ws w) pat n)"

definition look_ws :: "('m, 'h, 'w) node \<Rightarrow> string list \<Rightarrow> unit \<Rightarrow> 'w option" where
  "look_ws n pat u = snd (payload_at n pat)"

definition tree_inv :: "('m, 'h, 'w) node \<Rightarrow> bool" where
  "tree_inv n \<longleftrightarrow> tree_wf n \<and> names_fresh {} n"

definition pat_valid :: "(string \<Rightarrow> bool) \<Rightarrow> string list \<Rightarrow> bool" where
  "pat_valid ok pat \<longleftrightarrow> pat_ok ok pat \<and> distinct (pat_names pat)"

lemma map_of_set_handler: "map_of (set_handler m h hs) m' = (if m' = m then Some h else map_of hs m')"
proof -
  have "m' \<noteq> m \<Longrightarrow> map_of (filter (\<lambda>e. fst e \<noteq> m) hs) m' = map_of hs m'"
    by (induction hs) auto
  then show ?thesis by (simp add: set_handler_def)
qed

lemma handlers_change:
  "payload_change (\<lambda>n. with_handlers (set_handler m h (node_handlers n)) n)
     (\<lambda>(hs, w). (set_handler m h hs, w))"
  by (simp add: payload_change_def payload_def)

lemma ws_change: "payload_change (with_ws w) (\<lambda>(hs, _). (hs, Some w))"
  by (simp add: payload_change_def payload_def)

lemma tree_inv_insert:
  "payload_change f g \<Longrightarrow> tree_inv n \<Longrightarrow> pat_valid ok pat \<Longrightarrow> tree_inv (fst (insert_at ok f pat n))"
  by (simp add: tree_inv_def pat_valid_def insert_at_wf insert_at_fresh)

lemma look_put_handler:
  assumes "pat_valid ok pat"
  shows "look_handler (put_handler ok pat m h n) pat' m' =
      (if pat' = pat \<and> m' = m then Some h else look_handler n pat' m')"
    and "look_ws (put_handler ok pat m h n) pat' u = look_ws n pat' u"
  using assms insert_at_payload [OF handlers_change, of ok pat m h n pat']
  by (simp_all add: pat_valid_def put_handler_def look_handler_def look_ws_def map_of_set_handler case_prod_beta)

lemma look_put_ws:
  assumes "pat_valid ok pat"
  shows "look_ws (put_ws ok pat u w n) pat' u' = (if pat' = pat \<and> u' = u then Some w else look_ws n pat' u')"
    and "look_handler (put_ws ok pat u w n) pat' m = look_handler n pat' m"
  using assms insert_at_payload [OF ws_change, of ok pat w n pat']
  by (simp_all add: pat_valid_def put_ws_def look_handler_def look_ws_def case_prod_beta)

lemma tree_inv_put:
  "tree_inv n \<Longrightarrow> pat_valid ok pat \<Longrightarrow> tree_inv (put_handler ok pat m h n)"
  "tree_inv n \<Longrightarrow> pat_valid ok pat \<Longrightarrow> tree_inv (put_ws ok pat u w n)"
  by (simp_all add: put_handler_def put_ws_def tree_inv_insert [OF handlers_change]
      tree_inv_insert [OF ws_change])

interpretation http_table: shared_table look_handler "put_handler ok" tree_inv "pat_valid ok"
    "\<lambda>e. put_ws ok (fst (fst e)) (snd (fst e)) (snd e)" "\<lambda>e. pat_valid ok (fst (fst e))" for ok
  by unfold_locales (simp_all add: look_put_handler look_put_ws tree_inv_put)

interpretation ws_table: shared_table look_ws "put_ws ok" tree_inv "pat_valid ok"
    "\<lambda>e. put_handler ok (fst (fst e)) (snd (fst e)) (snd e)" "\<lambda>e. pat_valid ok (fst (fst e))" for ok
  by unfold_locales (simp_all add: look_put_handler look_put_ws tree_inv_put)

end
