(* ===== verification/Router.thy ===== *)
theory Router
  imports Route_Spec Mount_Point
begin

text \<open>
  \<open>router\_impl\<close> (\<open>lib/server/router_impl.cpp\<close>) and the templates of
  \<open>include/httplib/server/router.inl\<close> and \<open>helper.hpp\<close> that wrap handlers with aspects.
  A handler is a function on the exchange it is given: the request, the response, and whatever state
  of the application it shares with others. It may end in an exception, and what it did before stays.
\<close>

section \<open>Handlers and aspects\<close>

record ('a, 'f, 'j) exchange =
  ex_app :: 'a
  ex_req :: "('f, 'j) request"
  ex_resp :: "('f, 'j) response"

type_synonym ('a, 'f, 'j) handler = "('a, 'f, 'j) exchange \<Rightarrow> ('a, 'f, 'j) exchange \<times> fault option"

type_synonym ('a, 'f, 'j) check = "('a, 'f, 'j) exchange \<Rightarrow> ('a, 'f, 'j) exchange \<times> bool result"

text \<open>An aspect may have either member function; \<open>has\_before\<close> and \<open>has\_after\<close> tell.\<close>

record ('a, 'f, 'j) aspect =
  asp_before :: "('a, 'f, 'j) check option"
  asp_after :: "('a, 'f, 'j) check option"

definition do_before ::
  "('a, 'f, 'j) aspect \<Rightarrow> ('a, 'f, 'j) exchange \<Rightarrow> bool \<Rightarrow> ('a, 'f, 'j) exchange \<times> bool result" where
  "do_before a ex ok =
     (case asp_before a of None \<Rightarrow> (ex, Inr ok) | Some f \<Rightarrow> if \<not> ok then (ex, Inr ok) else f ex)"

definition do_after ::
  "('a, 'f, 'j) aspect \<Rightarrow> ('a, 'f, 'j) exchange \<Rightarrow> bool \<Rightarrow> ('a, 'f, 'j) exchange \<times> bool result" where
  "do_after a ex ok =
     (case asp_after a of None \<Rightarrow> (ex, Inr ok) | Some f \<Rightarrow> if \<not> ok then (ex, Inr ok) else f ex)"

text \<open>The fold over the aspects, which an exception ends.\<close>

fun run_aspects ::
  "('s \<Rightarrow> ('a, 'f, 'j) exchange \<Rightarrow> bool \<Rightarrow> ('a, 'f, 'j) exchange \<times> bool result) \<Rightarrow> 's list \<Rightarrow>
   ('a, 'f, 'j) exchange \<Rightarrow> bool \<Rightarrow> ('a, 'f, 'j) exchange \<times> bool result" where
  "run_aspects f [] ex ok = (ex, Inr ok)"
| "run_aspects f (a # as) ex ok =
     (case f a ex ok of
        (ex', Inl e) \<Rightarrow> (ex', Inl e)
      | (ex', Inr ok') \<Rightarrow> run_aspects f as ex' ok')"

definition make_coro_http_handler ::
  "('a, 'f, 'j) handler \<Rightarrow> ('a, 'f, 'j) aspect list \<Rightarrow> ('a, 'f, 'j) handler" where
  "make_coro_http_handler coro_handler aspects =
     (if aspects = [] then coro_handler
      else (\<lambda>ex.
        case run_aspects do_before aspects ex True of
          (ex1, Inl e) \<Rightarrow> (ex1, Some e)
        | (ex1, Inr ok) \<Rightarrow>
            (case (if ok then coro_handler ex1 else (ex1, None)) of
               (ex2, Some e) \<Rightarrow> (ex2, Some e)
             | (ex2, None) \<Rightarrow>
                 (case run_aspects do_after aspects ex2 True of
                    (ex3, Inl e) \<Rightarrow> (ex3, Some e)
                  | (ex3, Inr _) \<Rightarrow> (ex3, None)))))"

section \<open>The router\<close>

record ('a, 'f, 'j, 'w) router =
  rt_root :: "(verb, ('a, 'f, 'j) handler, 'w) node"
  rt_post_handler :: "('a, 'f, 'j) handler option"
  rt_not_found_handler :: "('a, 'f, 'j) handler option"

definition router_new :: "('a, 'f, 'j, 'w) router" where
  "router_new = \<lparr>rt_root = new_node [] [] [] Static_Node, rt_post_handler = None,
                 rt_not_found_handler = None\<rparr>"

definition router_set_http_handler ::
  "(string \<Rightarrow> bool) \<Rightarrow> verb \<Rightarrow> string \<Rightarrow> ('a, 'f, 'j) handler \<Rightarrow> ('a, 'f, 'j) aspect list \<Rightarrow>
   ('a, 'f, 'j, 'w) router \<Rightarrow> ('a, 'f, 'j, 'w) router \<times> fault option" where
  "router_set_http_handler ok m key h asps rt =
     (case set_http_handler ok m key (make_coro_http_handler h asps) (rt_root rt) of
        (root, e) \<Rightarrow> (rt\<lparr>rt_root := root\<rparr>, e))"

text \<open>
  An object that is handed on with \<open>std::forward\<close>: what it is now, and what is left of it when it has
  been moved from. An object that is copied instead, being an lvalue or of a type without a move
  constructor, stays what it is.
\<close>

record 'x movable =
  mv_now :: 'x
  mv_left :: 'x

definition moved :: "'x movable \<Rightarrow> 'x movable" where
  "moved x = x\<lparr>mv_now := mv_left x\<rparr>"

definition copied :: "'x \<Rightarrow> 'x movable" where
  "copied x = \<lparr>mv_now = x, mv_left = x\<rparr>"

text \<open>
  The overload for several methods: the same handler and the same aspects are forwarded once for each
  of them. An exception ends the fold.
\<close>

fun router_set_http_handlers ::
  "(string \<Rightarrow> bool) \<Rightarrow> verb list \<Rightarrow> string \<Rightarrow> ('a, 'f, 'j) handler movable \<Rightarrow>
   ('a, 'f, 'j) aspect list movable \<Rightarrow> ('a, 'f, 'j, 'w) router \<Rightarrow> ('a, 'f, 'j, 'w) router \<times> fault option" where
  "router_set_http_handlers ok [] key h asps rt = (rt, None)"
| "router_set_http_handlers ok (m # ms) key h asps rt =
     (case router_set_http_handler ok m key (mv_now h) (mv_now asps) rt of
        (rt', Some e) \<Rightarrow> (rt', Some e)
      | (rt', None) \<Rightarrow> router_set_http_handlers ok ms key (moved h) (moved asps) rt')"

text \<open>
  The overload for a member function: the handler is a \<open>std::function\<close> bound to the owner, and it is
  moved. What is left is empty, and a call of it throws.
\<close>

definition bound_function :: "('a, 'f, 'j) handler \<Rightarrow> ('a, 'f, 'j) handler movable" where
  "bound_function h = \<lparr>mv_now = h, mv_left = (\<lambda>ex. (ex, Some Bad_Function_Call))\<rparr>"

definition router_set_member_handlers ::
  "(string \<Rightarrow> bool) \<Rightarrow> verb list \<Rightarrow> string \<Rightarrow> ('a, 'f, 'j) handler \<Rightarrow>
   ('a, 'f, 'j) aspect list movable \<Rightarrow> ('a, 'f, 'j, 'w) router \<Rightarrow> ('a, 'f, 'j, 'w) router \<times> fault option" where
  "router_set_member_handlers ok ms key h = router_set_http_handlers ok ms key (bound_function h)"

definition router_set_ws_handler ::
  "(string \<Rightarrow> bool) \<Rightarrow> string \<Rightarrow> 'w \<Rightarrow> ('a, 'f, 'j, 'w) router \<Rightarrow> ('a, 'f, 'j, 'w) router \<times> fault option" where
  "router_set_ws_handler ok key entry rt =
     (case set_ws_handler ok key entry (rt_root rt) of (root, e) \<Rightarrow> (rt\<lparr>rt_root := root\<rparr>, e))"

definition set_http_not_found_handler ::
  "('a, 'f, 'j) handler \<Rightarrow> ('a, 'f, 'j) aspect list \<Rightarrow> ('a, 'f, 'j, 'w) router \<Rightarrow> ('a, 'f, 'j, 'w) router" where
  "set_http_not_found_handler h asps rt = rt\<lparr>rt_not_found_handler := Some (make_coro_http_handler h asps)\<rparr>"

definition set_http_post_handler ::
  "('a, 'f, 'j) handler \<Rightarrow> ('a, 'f, 'j, 'w) router \<Rightarrow> ('a, 'f, 'j, 'w) router" where
  "set_http_post_handler h rt = rt\<lparr>rt_post_handler := Some h\<rparr>"

text \<open>A mount point as a handler; what it throws leaves the response it was given.\<close>

definition mount_handler ::
  "'f fields_api \<Rightarrow> server_env \<Rightarrow> fs_api \<Rightarrow> (json_entry list \<Rightarrow> 'j) \<Rightarrow> mount_point_entry \<Rightarrow>
   ('a, 'f, 'j) handler" where
  "mount_handler A E FS mk_json mp ex =
     (case mount_point_call A E FS mk_json mp (ex_req ex) (ex_resp ex) of
        Inl e \<Rightarrow> (ex, Some e)
      | Inr rs \<Rightarrow> (ex\<lparr>ex_resp := rs\<rparr>, None))"

definition mount_key :: "string \<Rightarrow> string" where
  "mount_key mount_point = (if ends_with ''/'' mount_point then mount_point else mount_point @ ''/'') @ ''*''"

text \<open>
  The handler of a mount point holds the entry, whose class has a destructor of its own and so no move
  constructor: it is copied.
\<close>

definition set_static_mount_point ::
  "'f fields_api \<Rightarrow> server_env \<Rightarrow> fs_api \<Rightarrow> (json_entry list \<Rightarrow> 'j) \<Rightarrow> (string \<Rightarrow> bool) \<Rightarrow>
   mount_point_entry \<Rightarrow> ('a, 'f, 'j) aspect list movable \<Rightarrow>
   ('a, 'f, 'j, 'w) router \<Rightarrow> ('a, 'f, 'j, 'w) router \<times> fault option" where
  "set_static_mount_point A E FS mk_json ok entry asps rt =
     router_set_http_handlers ok [V_get, V_head] (mount_key (mp_mount_point entry))
       (copied (mount_handler A E FS mk_json entry)) asps rt"

section \<open>Routing a request\<close>

text \<open>
  What the search asks a node: whether it has a handler for the method; the methods of every node it
  is asked about go into a sorted set.
\<close>

definition allow_probe ::
  "verb \<Rightarrow> (verb, 'h, 'w) node \<Rightarrow> string list \<Rightarrow> bool \<times> string list" where
  "allow_probe m n allows =
     (map_of (node_handlers n) m \<noteq> None,
      foldl (\<lambda>s v. insort_insert (verb_string (fst v)) s) allows (node_handlers n))"

definition method_not_allowed ::
  "'f fields_api \<Rightarrow> server_env \<Rightarrow> string list \<Rightarrow> ('a, 'f, 'j) handler" where
  "method_not_allowed A E allows ex =
     (let rs = set_field A F_allow (join '','' allows) (ex_resp ex)
      in case set_error_content A E 405 rs of
           Inl e \<Rightarrow> (ex\<lparr>ex_resp := rs\<rparr>, Some e)
         | Inr rs' \<Rightarrow> (ex\<lparr>ex_resp := rs'\<rparr>, None))"

definition respond_error :: "'f fields_api \<Rightarrow> server_env \<Rightarrow> nat \<Rightarrow> ('a, 'f, 'j) handler" where
  "respond_error A E status ex =
     (case set_error_content A E status (ex_resp ex) of
        Inl e \<Rightarrow> (ex, Some e)
      | Inr rs \<Rightarrow> (ex\<lparr>ex_resp := rs\<rparr>, None))"

definition proc_routing ::
  "'f fields_api \<Rightarrow> server_env \<Rightarrow> (string \<Rightarrow> string \<Rightarrow> bool) \<Rightarrow> ('a, 'f, 'j, 'w) router \<Rightarrow>
   ('a, 'f, 'j) handler" where
  "proc_routing A E rx rt ex =
     (let m = rq_method (ex_req ex); segments = split_segments (request_path (ex_req ex))
      in case match_nodes rx (allow_probe m) (rt_root rt) segments (Map.empty, []) of
           (found, params, allows) \<Rightarrow>
             let ex' = (case found of None \<Rightarrow> ex
                        | Some n \<Rightarrow> ex\<lparr>ex_req := set_path_param params (ex_req ex)\<rparr>)
             in case (case found of None \<Rightarrow> None | Some n \<Rightarrow> map_of (node_handlers n) m) of
                  Some h \<Rightarrow> h ex'
                | None \<Rightarrow>
                    if allows \<noteq> [] then method_not_allowed A E allows ex'
                    else respond_error A E 404 ex')"

definition ws_probe :: "(verb, 'h, 'w) node \<Rightarrow> unit \<Rightarrow> bool \<times> unit" where
  "ws_probe n u = (node_ws n \<noteq> None, u)"

definition query_ws_handler ::
  "(string \<Rightarrow> string \<Rightarrow> bool) \<Rightarrow> ('a, 'f, 'j, 'w) router \<Rightarrow> ('f, 'j) request \<Rightarrow> 'w option" where
  "query_ws_handler rx rt req =
     (case match_nodes rx ws_probe (rt_root rt) (split_segments (request_path req)) (Map.empty, ()) of
        (None, _) \<Rightarrow> None
      | (Some n, _) \<Rightarrow> node_ws n)"

text \<open>
  The check before the body is read: methods without a body of their own pass, others must have a
  handler. The result says whether to go on.
\<close>

definition pre_routing ::
  "'f fields_api \<Rightarrow> server_env \<Rightarrow> (string \<Rightarrow> string \<Rightarrow> bool) \<Rightarrow> ('a, 'f, 'j, 'w) router \<Rightarrow>
   ('a, 'f, 'j) check" where
  "pre_routing A E rx rt ex =
     (let m = rq_method (ex_req ex);
          closing = ex\<lparr>ex_resp := set_keep_alive A False (ex_resp ex)\<rparr>;
          answer = (\<lambda>r. case r of (ex', Some e) \<Rightarrow> (ex', Inl e) | (ex', None) \<Rightarrow> (ex', Inr False))
      in if m \<in> {V_get, V_head, V_trace, V_connect, V_options} then (ex, Inr True)
         else
           case match_nodes rx (allow_probe m) (rt_root rt) (split_segments (request_path (ex_req ex)))
                  (Map.empty, []) of
             (found, _, allows) \<Rightarrow>
               if (case found of None \<Rightarrow> None | Some n \<Rightarrow> map_of (node_handlers n) m) \<noteq> None
               then (ex, Inr True)
               else if allows \<noteq> [] then answer (method_not_allowed A E allows closing)
               else answer (respond_error A E 404 closing))"

definition post_routing :: "('a, 'f, 'j, 'w) router \<Rightarrow> ('a, 'f, 'j) handler" where
  "post_routing rt ex =
     (case (case rt_not_found_handler rt of
              Some h \<Rightarrow> if rs_status (ex_resp ex) = 404 then h ex else (ex, None)
            | None \<Rightarrow> (ex, None)) of
        (ex', Some e) \<Rightarrow> (ex', Some e)
      | (ex', None) \<Rightarrow> (case rt_post_handler rt of None \<Rightarrow> (ex', None) | Some h \<Rightarrow> h ex'))"

section \<open>Registrations\<close>

text \<open>A setup of a router as the list of its registrations.\<close>

datatype ('a, 'f, 'j, 'w) registration =
    Http_Route verb string "('a, 'f, 'j) handler" "('a, 'f, 'j) aspect list"
  | Ws_Route string 'w

fun register ::
  "(string \<Rightarrow> bool) \<Rightarrow> ('a, 'f, 'j, 'w) router \<Rightarrow> ('a, 'f, 'j, 'w) registration \<Rightarrow> ('a, 'f, 'j, 'w) router"
where
  "register ok rt (Http_Route m key h asps) = fst (router_set_http_handler ok m key h asps rt)"
| "register ok rt (Ws_Route key entry) = fst (router_set_ws_handler ok key entry rt)"

fun reg_pattern :: "('a, 'f, 'j, 'w) registration \<Rightarrow> string list" where
  "reg_pattern (Http_Route m key h asps) = split_segments key"
| "reg_pattern (Ws_Route key entry) = split_segments key"

text \<open>The handler registered last for a pattern and a method.\<close>

fun http_entry :: "('a, 'f, 'j, 'w) registration \<Rightarrow> ((string list \<times> verb) \<times> ('a, 'f, 'j) handler) list" where
  "http_entry (Http_Route m key h asps) = [((split_segments key, m), make_coro_http_handler h asps)]"
| "http_entry (Ws_Route key entry) = []"

fun ws_entry :: "('a, 'f, 'j, 'w) registration \<Rightarrow> ((string list \<times> unit) \<times> 'w) list" where
  "ws_entry (Http_Route m key h asps) = []"
| "ws_entry (Ws_Route key entry) = [((split_segments key, ()), entry)]"

definition http_route ::
  "('a, 'f, 'j, 'w) registration list \<Rightarrow> string list \<Rightarrow> verb \<Rightarrow> ('a, 'f, 'j) handler option" where
  "http_route regs pat m = map_of (rev (concat (map http_entry regs))) (pat, m)"

definition ws_route :: "('a, 'f, 'j, 'w) registration list \<Rightarrow> string list \<Rightarrow> 'w option" where
  "ws_route regs pat = map_of (rev (concat (map ws_entry regs))) (pat, ())"

definition registered :: "(string \<Rightarrow> bool) \<Rightarrow> ('a, 'f, 'j, 'w) registration list \<Rightarrow> ('a, 'f, 'j, 'w) router" where
  "registered ok regs = foldl (register ok) router_new regs"

text \<open>The two views of a registration that the tables of the tree take.\<close>

fun http_view where
  "http_view (Http_Route m key h asps) = Inl ((split_segments key, m), make_coro_http_handler h asps)"
| "http_view (Ws_Route key entry) = Inr ((split_segments key, ()), entry)"

fun ws_view where
  "ws_view (Http_Route m key h asps) = Inr ((split_segments key, m), make_coro_http_handler h asps)"
| "ws_view (Ws_Route key entry) = Inl ((split_segments key, ()), entry)"

lemma lefts_http_view: "lefts (map http_view regs) = concat (map http_entry regs)"
  unfolding lefts_def map_map by (rule arg_cong [where f = concat], rule map_cong [OF refl]) (case_tac x; simp)

lemma lefts_ws_view: "lefts (map ws_view regs) = concat (map ws_entry regs)"
  unfolding lefts_def map_map by (rule arg_cong [where f = concat], rule map_cong [OF refl]) (case_tac x; simp)

lemma register_root:
  "rt_root (register ok rt r) =
     (case http_view r of Inl e \<Rightarrow> put_handler ok (fst (fst e)) (snd (fst e)) (snd e) (rt_root rt)
      | Inr e \<Rightarrow> put_ws ok (fst (fst e)) (snd (fst e)) (snd e) (rt_root rt))"
  by (cases r)
     (simp_all add: router_set_http_handler_def router_set_ws_handler_def set_http_handler_def
       set_ws_handler_def put_handler_def put_ws_def split: prod.split)

lemma registered_root:
  "rt_root (foldl (register ok) rt regs) =
     foldl (\<lambda>t x. case x of Inl e \<Rightarrow> put_handler ok (fst (fst e)) (snd (fst e)) (snd e) t
       | Inr e \<Rightarrow> put_ws ok (fst (fst e)) (snd (fst e)) (snd e) t) (rt_root rt) (map http_view regs)"
proof (induction regs arbitrary: rt)
  case (Cons r regs)
  then show ?case by (cases r) (simp_all add: register_root del: register.simps)
qed simp

lemma views_swap:
  "foldl (\<lambda>t x. case x of Inl e \<Rightarrow> f e t | Inr e \<Rightarrow> g e t) t (map http_view regs) =
   foldl (\<lambda>t x. case x of Inl e \<Rightarrow> g e t | Inr e \<Rightarrow> f e t) t (map ws_view regs)"
proof (induction regs arbitrary: t)
  case (Cons r regs)
  then show ?case by (cases r) simp_all
qed simp

lemma tree_inv_new: "tree_inv (new_node k p r t)"
  by (simp add: tree_inv_def tree_wf_new names_fresh_new)

lemma registered_table:
  assumes "\<forall>r\<in>set regs. pat_valid ok (reg_pattern r)"
  shows "tree_inv (rt_root (registered ok regs))"
    and "look_handler (rt_root (registered ok regs)) pat m = http_route regs pat m"
    and "look_ws (rt_root (registered ok regs)) pat () = ws_route regs pat"
proof -
  have "\<forall>x\<in>set (map http_view regs). case x of Inl e \<Rightarrow> pat_valid ok (fst (fst e))
      | Inr e \<Rightarrow> pat_valid ok (fst (fst e))" (is "\<forall>x\<in>?H. ?ok x")
  proof
    fix x assume "x \<in> ?H"
    then obtain r where "r \<in> set regs" "x = http_view r" by auto
    with assms show "?ok x" by (cases r) auto
  qed
  from http_table.mixed_run [OF tree_inv_new this, of "[]" "[]" "[]" Static_Node pat m]
  show "tree_inv (rt_root (registered ok regs))"
    and "look_handler (rt_root (registered ok regs)) pat m = http_route regs pat m"
    by (simp_all add: registered_def registered_root router_new_def http_route_def lefts_http_view
        look_handler_def option.case_eq_if)
  have "\<forall>x\<in>set (map ws_view regs). case x of Inl e \<Rightarrow> pat_valid ok (fst (fst e))
      | Inr e \<Rightarrow> pat_valid ok (fst (fst e))" (is "\<forall>x\<in>?W. ?ok x")
  proof
    fix x assume "x \<in> ?W"
    then obtain r where "r \<in> set regs" "x = ws_view r" by auto
    with assms show "?ok x" by (cases r) auto
  qed
  from ws_table.mixed_run [OF tree_inv_new this, of "[]" "[]" "[]" Static_Node pat "()"]
  show "look_ws (rt_root (registered ok regs)) pat () = ws_route regs pat"
    by (simp add: registered_def registered_root router_new_def ws_route_def lefts_ws_view look_ws_def
        views_swap option.case_eq_if)
qed

text \<open>The overloads for several methods as registrations.\<close>

lemma set_http_handler_registers:
  assumes "pat_valid ok (split_segments key)"
  shows "router_set_http_handler ok m key h asps (registered ok regs) =
    (registered ok (regs @ [Http_Route m key h asps]), None)"
proof -
  have "snd (set_http_handler ok m key (make_coro_http_handler h asps) (rt_root (registered ok regs))) = None"
    using assms by (simp add: set_http_handler_def insert_at_payload [OF handlers_change] pat_valid_def)
  then show ?thesis
    by (simp add: router_set_http_handler_def registered_def prod_eq_iff split: prod.split)
qed

lemma set_http_handlers_registers:
  assumes "pat_valid ok (split_segments key)"
  shows "router_set_http_handlers ok (m # ms) key h asps (registered ok regs) =
    (registered ok (regs @ Http_Route m key (mv_now h) (mv_now asps) #
       map (\<lambda>m. Http_Route m key (mv_left h) (mv_left asps)) ms), None)"
proof -
  have rest: "router_set_http_handlers ok ms key (moved h) (moved asps) (registered ok regs) =
      (registered ok (regs @ map (\<lambda>m. Http_Route m key (mv_left h) (mv_left asps)) ms), None)" for regs
  proof (induction ms arbitrary: regs)
    case (Cons m ms)
    have "moved (moved h) = moved h" "moved (moved asps) = moved asps" by (simp_all add: moved_def)
    with Cons.IH [of "regs @ [Http_Route m key (mv_left h) (mv_left asps)]"] show ?case
      by (simp add: set_http_handler_registers [OF assms] moved_def)
  qed simp
  show ?thesis by (simp add: set_http_handler_registers [OF assms] rest)
qed

text \<open>A mount point serves GET and HEAD alike, but only GET has aspects that were moved.\<close>

lemma mount_point_registers:
  assumes "pat_valid ok (split_segments (mount_key (mp_mount_point entry)))"
  shows "set_static_mount_point A E FS mk_json ok entry asps (registered ok regs) =
    (registered ok (regs @
       [Http_Route V_get (mount_key (mp_mount_point entry)) (mount_handler A E FS mk_json entry) (mv_now asps),
        Http_Route V_head (mount_key (mp_mount_point entry)) (mount_handler A E FS mk_json entry) (mv_left asps)]),
     None)"
  unfolding set_static_mount_point_def set_http_handlers_registers [OF assms]
  by (simp add: copied_def)

section \<open>Lemmas\<close>

lemma scan_find:
  "fst (scan (\<lambda>n s. (P n, upd n s)) cs s) = List.find (\<lambda>c. P (fst c)) cs"
  by (induction cs arbitrary: s) simp_all

lemma scan_all:
  "\<forall>c\<in>set cs. \<not> P (fst c) \<Longrightarrow>
   scan (\<lambda>n s. (P n, upd n s)) cs s = (None, foldl (\<lambda>s c. upd (fst c) s) s cs)"
  by (induction cs arbitrary: s) simp_all

lemma allow_probe_eta:
  "allow_probe m = (\<lambda>n s. (map_of (node_handlers n) m \<noteq> None,
     foldl (\<lambda>s v. insort_insert (verb_string (fst v)) s) s (node_handlers n)))"
  by (simp add: fun_eq_iff allow_probe_def)

definition is_string_set :: "string list \<Rightarrow> string set \<Rightarrow> bool" where
  "is_string_set xs S \<longleftrightarrow> sorted xs \<and> distinct xs \<and> set xs = S"

lemma is_string_set_insert: "is_string_set xs S \<Longrightarrow> is_string_set (insort_insert x xs) (insert x S)"
  by (simp add: is_string_set_def set_insort_insert sorted_insort_insert distinct_insort_insert)

lemma is_string_set_fold:
  "is_string_set xs S \<Longrightarrow>
   is_string_set (foldl (\<lambda>s v. insort_insert (f v) s) xs vs) (S \<union> f ` set vs)"
proof (induction vs arbitrary: xs S)
  case (Cons v vs)
  from Cons.IH [OF is_string_set_insert [OF Cons.prems]] show ?case by simp
qed simp

lemma is_string_set_fold2:
  "is_string_set xs S \<Longrightarrow>
   is_string_set (foldl (\<lambda>s c. foldl (\<lambda>s v. insort_insert (f v) s) s (g c)) xs cs)
     (S \<union> (\<Union>c\<in>set cs. f ` set (g c)))"
proof (induction cs arbitrary: xs S)
  case (Cons c cs)
  from Cons.IH [OF is_string_set_fold [OF Cons.prems]] show ?case by (simp add: Un_assoc)
qed simp

text \<open>The candidates with a handler for a method are the routes of that method.\<close>

lemma candidate_route:
  assumes "tree_inv root" and "(n, b) \<in> set (candidates rx root segs)" and "map_of (node_handlers n) m = Some h"
  shows "\<exists>pat. look_handler root pat m = Some h \<and> pat_match rx pat segs \<and> b = pat_binds pat segs"
proof -
  have "payload n \<noteq> ([], None)" using assms(3) by (auto simp: payload_def)
  with candidates_sound [OF _ assms(2)] assms(1)
  obtain pat where "route_at root pat = Some n" "pat_match rx pat segs" "b = pat_binds pat segs"
    by (auto simp: tree_inv_def)
  with assms(3) show ?thesis
    by (intro exI [of _ pat]) (simp add: look_handler_def payload_at_def payload_def)
qed

lemma route_candidate:
  assumes "tree_inv root" and "look_handler root pat m = Some h" and "pat_match rx pat segs"
  shows "\<exists>n. (n, pat_binds pat segs) \<in> set (candidates rx root segs) \<and> map_of (node_handlers n) m = Some h"
proof -
  from assms(2) obtain n where n: "route_at root pat = Some n" "map_of (node_handlers n) m = Some h"
    by (auto simp: look_handler_def payload_at_def payload_def split: option.splits)
  with candidates_complete [OF _ n(1) assms(3)] assms(1) show ?thesis
    by (auto simp: tree_inv_def)
qed

text \<open>The search for a handler, in terms of the routes.\<close>

lemma find_SomeD: "List.find P cs = Some c \<Longrightarrow> c \<in> set cs \<and> P c"
  by (induction cs) (auto split: if_splits)

lemma find_hit: "c \<in> set cs \<Longrightarrow> P c \<Longrightarrow> List.find P cs \<noteq> None"
  by (induction cs) auto

lemma search_found:
  assumes "tree_inv root" and "look_handler root pat m = Some h" and "pat_match rx pat segs"
  obtains n pat' h' allows where
    "match_nodes rx (allow_probe m) root segs (Map.empty, []) =
       (Some n, map_of (pat_binds pat' segs), allows)"
    "map_of (node_handlers n) m = Some h'" "look_handler root pat' m = Some h'" "pat_match rx pat' segs"
proof -
  let ?cs = "candidates rx root segs" and ?P = "\<lambda>n. map_of (node_handlers n) m \<noteq> None"
  let ?sc = "scan (allow_probe m) ?cs []"
  have ex: "exactly (match_nodes rx (allow_probe m) root segs (Map.empty, [])) Map.empty ?sc"
    using assms(1) by (intro match_nodes_exactly) (simp add: tree_inv_def)
  have find: "fst ?sc = List.find (\<lambda>c. ?P (fst c)) ?cs"
    unfolding allow_probe_eta by (rule scan_find)
  obtain n0 where "(n0, pat_binds pat segs) \<in> set ?cs" "?P n0"
    using route_candidate [OF assms] by auto
  then have "fst ?sc \<noteq> None"
    unfolding find using find_hit [of "(n0, pat_binds pat segs)" ?cs "\<lambda>c. ?P (fst c)"] by simp
  then obtain n b where nb: "fst ?sc = Some (n, b)" by auto
  then have "(n, b) \<in> set ?cs" "?P n" unfolding find by (auto dest!: find_SomeD)
  then obtain h' pat' where "map_of (node_handlers n) m = Some h'" "look_handler root pat' m = Some h'"
    "pat_match rx pat' segs" "b = pat_binds pat' segs"
    using candidate_route [OF assms(1)] by blast
  moreover have "match_nodes rx (allow_probe m) root segs (Map.empty, []) = (Some n, map_of b, snd ?sc)"
    using ex nb by (simp add: exactly_def)
  ultimately show thesis by (intro that) simp_all
qed

definition allowed :: "(string list \<Rightarrow> verb \<Rightarrow> 'h option) \<Rightarrow> (string list \<Rightarrow> bool) \<Rightarrow> string set" where
  "allowed look matches = {verb_string v | v pat. matches pat \<and> look pat v \<noteq> None}"

lemma search_not_found:
  assumes "tree_inv root" and "\<And>pat. pat_match rx pat segs \<Longrightarrow> look_handler root pat m = None"
  obtains allows where
    "match_nodes rx (allow_probe m) root segs (Map.empty, []) = (None, Map.empty, allows)"
    "is_string_set allows (allowed (look_handler root) (\<lambda>pat. pat_match rx pat segs))"
proof -
  let ?cs = "candidates rx root segs" and ?P = "\<lambda>n. map_of (node_handlers n) m \<noteq> None"
  let ?names = "\<lambda>c. verb_string ` fst ` set (node_handlers (fst c))"
  let ?all = "foldl (\<lambda>s c. foldl (\<lambda>s v. insort_insert (verb_string (fst v)) s) s (node_handlers (fst c))) [] ?cs"
  have "\<forall>c\<in>set ?cs. \<not> ?P (fst c)"
    using candidate_route [OF assms(1), where rx = rx and segs = segs and m = m] assms(2) by force
  then have sc: "scan (allow_probe m) ?cs [] = (None, ?all)"
    unfolding allow_probe_eta by (rule scan_all)
  have "exactly (match_nodes rx (allow_probe m) root segs (Map.empty, [])) Map.empty (None, ?all)"
    using assms(1) unfolding sc [symmetric] by (intro match_nodes_exactly) (simp add: tree_inv_def)
  then have "match_nodes rx (allow_probe m) root segs (Map.empty, []) = (None, Map.empty, ?all)"
    by (simp add: exactly_def)
  moreover have "is_string_set ?all (\<Union>c\<in>set ?cs. ?names c)"
    using is_string_set_fold2 [of "[]" "{}" "\<lambda>v. verb_string (fst v)" "\<lambda>c. node_handlers (fst c)" ?cs]
    by (simp add: is_string_set_def image_image)
  moreover have "(\<Union>c\<in>set ?cs. ?names c) = allowed (look_handler root) (\<lambda>pat. pat_match rx pat segs)"
  proof -
    have mem: "v \<in> fst ` set (node_handlers n) \<longleftrightarrow> (\<exists>h. map_of (node_handlers n) v = Some h)"
      for v and n :: "(verb, 'a, 'b) node"
      by (metis map_of_eq_None_iff option.distinct(1) option.exhaust)
    show ?thesis
    proof (intro equalityI subsetI)
      fix x
      assume "x \<in> (\<Union>c\<in>set ?cs. ?names c)"
      then obtain n b v where "(n, b) \<in> set ?cs" "v \<in> fst ` set (node_handlers n)" "x = verb_string v"
        by (force simp: image_iff)
      with mem candidate_route [OF assms(1)]
      show "x \<in> allowed (look_handler root) (\<lambda>pat. pat_match rx pat segs)"
        unfolding allowed_def by blast
    next
      fix x
      assume "x \<in> allowed (look_handler root) (\<lambda>pat. pat_match rx pat segs)"
      then obtain v pat h where "look_handler root pat v = Some h" "pat_match rx pat segs" "x = verb_string v"
        by (auto simp: allowed_def)
      with route_candidate [OF assms(1)] mem obtain n b where
        "(n, b) \<in> set ?cs" "v \<in> fst ` set (node_handlers n)" by blast
      with \<open>x = verb_string v\<close> show "x \<in> (\<Union>c\<in>set ?cs. ?names c)" by force
    qed
  qed
  ultimately show thesis by (intro that) simp_all
qed

end
