(* ===== verification/Routing.thy ===== *)
theory Routing
  imports Router
begin

text \<open>
  What the router promises: the decision between a handler, 405 and 404 in terms of the registered
  routes, the check before the body is read, the order of preference, the aspects around a handler,
  and what of a request's path reaches a mount point.
\<close>

section \<open>Error answers\<close>

lemma error_response:
  assumes "fields_laws A" and "fa_find A (rs_fields rs) F_server = Some srv"
  obtains rs' where "set_error_content A E status rs = Inr rs'" "rs_status rs' = status"
    "fa_find A (rs_fields rs') F_allow = fa_find A (rs_fields rs) F_allow"
    "rs_version rs' = rs_version rs"
    "\<And>ver. fa_keep_alive A ver (rs_fields rs') = fa_keep_alive A ver (rs_fields rs)"
  using assms fields_laws_simps [OF assms(1)]
  by (auto simp: set_error_content_def set_string_content_def response_ops)

lemma respond_error_result:
  assumes "fields_laws A" and "fa_find A (rs_fields (ex_resp ex)) F_server = Some srv"
  shows "\<exists>rs. respond_error A E status ex = (ex\<lparr>ex_resp := rs\<rparr>, None) \<and> rs_status rs = status \<and>
    rs_version rs = rs_version (ex_resp ex) \<and>
    (\<forall>ver. fa_keep_alive A ver (rs_fields rs) = fa_keep_alive A ver (rs_fields (ex_resp ex)))"
proof -
  from error_response [OF assms] obtain rs where "set_error_content A E status (ex_resp ex) = Inr rs"
    "rs_status rs = status" "rs_version rs = rs_version (ex_resp ex)"
    "\<And>ver. fa_keep_alive A ver (rs_fields rs) = fa_keep_alive A ver (rs_fields (ex_resp ex))" by metis
  then show ?thesis by (intro exI [of _ rs]) (simp add: respond_error_def)
qed

lemma method_not_allowed_result:
  assumes "fields_laws A" and "fa_find A (rs_fields (ex_resp ex)) F_server = Some srv"
  shows "\<exists>rs. method_not_allowed A E allows ex = (ex\<lparr>ex_resp := rs\<rparr>, None) \<and> rs_status rs = 405 \<and>
    fa_find A (rs_fields rs) F_allow = Some (join '','' allows) \<and>
    rs_version rs = rs_version (ex_resp ex) \<and>
    (\<forall>ver. fa_keep_alive A ver (rs_fields rs) = fa_keep_alive A ver (rs_fields (ex_resp ex)))"
proof -
  let ?rs = "set_field A F_allow (join '','' allows) (ex_resp ex)"
  note laws = fields_laws_simps [OF assms(1)]
  have "fa_find A (rs_fields ?rs) F_server = Some srv" using assms(2) laws by (simp add: set_field_def)
  from error_response [OF assms(1) this] obtain rs where "set_error_content A E 405 ?rs = Inr rs"
    "rs_status rs = 405" "fa_find A (rs_fields rs) F_allow = fa_find A (rs_fields ?rs) F_allow"
    "rs_version rs = rs_version ?rs"
    "\<And>ver. fa_keep_alive A ver (rs_fields rs) = fa_keep_alive A ver (rs_fields ?rs)" by metis
  then show ?thesis using laws(2,5)
    by (intro exI [of _ rs]) (simp add: method_not_allowed_def set_field_def)
qed

lemma is_string_set_empty: "is_string_set xs S \<Longrightarrow> (xs = []) = (S = {})"
  by (auto simp: is_string_set_def)

section \<open>Parameters never start with a slash\<close>

lemma split_segments_no_slash: "s \<in> set (split_segments path) \<Longrightarrow> CHR ''/'' \<notin> set s"
  using split_no_char [of s path "CHR ''/''"] by (auto simp: split_segments_def)

lemma rest_path_no_slash:
  "\<forall>s\<in>set segs. CHR ''/'' \<notin> set s \<Longrightarrow> \<not> starts_with ''/'' (rest_path segs)"
proof -
  have "\<forall>s\<in>set segs. CHR ''/'' \<notin> set s \<Longrightarrow> \<not> starts_with ''/'' r \<Longrightarrow>
      \<not> starts_with ''/'' (foldl (\<lambda>r seg. (if r = [] then [] else r @ ''/'') @ seg) r segs)" for r
  proof (induction segs arbitrary: r)
    case (Cons s segs)
    have "\<not> starts_with ''/'' ((if r = [] then [] else r @ ''/'') @ s)"
    proof (cases r)
      case Nil
      then show ?thesis using Cons.prems(1) starts_with_hd_notin [of "CHR ''/''" s] by simp
    next
      case (Cons c cs)
      then show ?thesis using Cons.prems(2) by (simp add: starts_with_def)
    qed
    with Cons show ?case by simp
  qed simp
  then show "\<forall>s\<in>set segs. CHR ''/'' \<notin> set s \<Longrightarrow> \<not> starts_with ''/'' (rest_path segs)"
    by (simp add: rest_path_def starts_with_def)
qed

lemma pat_binds_no_slash:
  "\<forall>s\<in>set segs. CHR ''/'' \<notin> set s \<Longrightarrow> (x, v) \<in> set (pat_binds pat segs) \<Longrightarrow> \<not> starts_with ''/'' v"
proof (induction pat segs rule: pat_binds.induct)
  case (2 p ps segs)
  show ?case
  proof (cases "ps = [] \<and> p = ''*''")
    case True
    with 2 rest_path_no_slash show ?thesis by simp
  next
    case False
    then obtain s ss where segs: "segs = s # ss" and "(x, v) \<in> set (seg_bind p s) \<union> set (pat_binds ps ss)"
      using "2.prems"(2) by (cases segs) auto
    then show ?thesis using "2.IH" [OF False segs] "2.prems"(1) starts_with_hd_notin [of "CHR ''/''" s]
      by (auto simp: seg_bind_def split: if_splits)
  qed
qed simp

section \<open>A route that matches\<close>

lemma routing_found:
  assumes "\<forall>r\<in>set regs. pat_valid ok (reg_pattern r)"
    and "m = rq_method (ex_req ex)" and "segs = split_segments (request_path (ex_req ex))"
    and "http_route regs pat m = Some h" and "pat_match rx pat segs"
  shows "\<exists>pat h. http_route regs pat m = Some h \<and> pat_match rx pat segs \<and>
    proc_routing A E rx (registered ok regs) ex =
      h (ex\<lparr>ex_req := set_path_param (map_of (pat_binds pat segs)) (ex_req ex)\<rparr>)"
proof -
  let ?root = "rt_root (registered ok regs)"
  note table = registered_table [OF assms(1)]
  have "look_handler ?root pat m = Some h" using assms(4) by (simp only: table(2))
  from search_found [OF table(1) this assms(5)] obtain n pat' h' allows where
    found: "match_nodes rx (allow_probe m) ?root segs (Map.empty, []) =
       (Some n, map_of (pat_binds pat' segs), allows)"
      "map_of (node_handlers n) m = Some h'"
    and route: "look_handler ?root pat' m = Some h'" "pat_match rx pat' segs" .
  have "proc_routing A E rx (registered ok regs) ex =
      h' (ex\<lparr>ex_req := set_path_param (map_of (pat_binds pat' segs)) (ex_req ex)\<rparr>)"
    unfolding proc_routing_def Let_def assms(2) [symmetric] assms(3) [symmetric]
    by (simp only: found prod.case option.case)
  with route show ?thesis unfolding table(2) by blast
qed

section \<open>Properties\<close>

text \<open>
  C1. The decision of the router. If a route registered for the method matches the path, the handler
  registered last for one such route is called, with exactly the parameters its pattern binds as the
  path parameters. If only routes of other methods match, the answer is 405 with an Allow field that
  lists the methods of all matching routes in order, each once. Otherwise it is 404.
\<close>

theorem routing_decision:
  assumes "\<forall>r\<in>set regs. pat_valid ok (reg_pattern r)" and "fields_laws A"
    and "fa_find A (rs_fields (ex_resp ex)) F_server = Some srv"
    and "m = rq_method (ex_req ex)" and "segs = split_segments (request_path (ex_req ex))"
    and "allowed_set = allowed (http_route regs) (\<lambda>pat. pat_match rx pat segs)"
  shows "if \<exists>pat h. http_route regs pat m = Some h \<and> pat_match rx pat segs
    then \<exists>pat h. http_route regs pat m = Some h \<and> pat_match rx pat segs \<and>
      proc_routing A E rx (registered ok regs) ex =
        h (ex\<lparr>ex_req := set_path_param (map_of (pat_binds pat segs)) (ex_req ex)\<rparr>)
    else \<exists>rs. proc_routing A E rx (registered ok regs) ex = (ex\<lparr>ex_resp := rs\<rparr>, None) \<and>
      (if allowed_set = {} then rs_status rs = 404
       else rs_status rs = 405 \<and>
         (\<exists>allows. is_string_set allows allowed_set \<and>
            fa_find A (rs_fields rs) F_allow = Some (join '','' allows)))"
proof -
  let ?root = "rt_root (registered ok regs)"
  note table = registered_table [OF assms(1)]
  show ?thesis
  proof (cases "\<exists>pat h. http_route regs pat m = Some h \<and> pat_match rx pat segs")
    case True
    then have "\<exists>pat h. http_route regs pat m = Some h \<and> pat_match rx pat segs \<and>
        proc_routing A E rx (registered ok regs) ex =
          h (ex\<lparr>ex_req := set_path_param (map_of (pat_binds pat segs)) (ex_req ex)\<rparr>)"
      using routing_found [OF assms(1,4,5)] by blast
    with True show ?thesis by (simp only: if_True)
  next
    case False
    then have none: "\<And>pat. pat_match rx pat segs \<Longrightarrow> look_handler ?root pat m = None"
      unfolding table(2) by (metis option.exhaust)
    from search_not_found [OF table(1) none] obtain allows where
      nf: "match_nodes rx (allow_probe m) ?root segs (Map.empty, []) = (None, Map.empty, allows)"
      and S: "is_string_set allows (allowed (look_handler ?root) (\<lambda>pat. pat_match rx pat segs))"
      by blast
    from S have S': "is_string_set allows allowed_set" unfolding assms(6) allowed_def table(2) .
    have run: "proc_routing A E rx (registered ok regs) ex =
        (if allows \<noteq> [] then method_not_allowed A E allows ex else respond_error A E 404 ex)"
      using nf assms(4,5) by (simp add: proc_routing_def)
    note no_route = if_not_P [OF False]
    show ?thesis
    proof (cases "allows = []")
      case True
      then have "allowed_set = {}" using is_string_set_empty [OF S'] by simp
      then show ?thesis unfolding no_route
        using run True respond_error_result [OF assms(2,3), of E 404] by auto
    next
      case nonempty: False
      then have "allowed_set \<noteq> {}" using is_string_set_empty [OF S'] by simp
      then show ?thesis unfolding no_route
        using run nonempty S' method_not_allowed_result [OF assms(2,3), of E allows] by auto
    qed
  qed
qed

definition example_exchange :: "verb \<Rightarrow> string \<Rightarrow> (nat, plain_fields, string) exchange" where
  "example_exchange m path =
     \<lparr>ex_app = 0,
      ex_req = \<lparr>rq_method = m, rq_target = path, rq_version = 11, rq_fields = fa_empty plain_api,
        rq_body = V_Empty, rq_decoded_path = path, rq_query_params = [], rq_remote_address = ''::1'',
        rq_path_params = Map.empty\<rparr>,
      ex_resp = response_new plain_api example_env 11 True\<rparr>"

text \<open>A handler that leaves a mark, and some routes.\<close>

definition marking :: "nat \<Rightarrow> (nat, plain_fields, string) handler" where
  "marking n ex = (ex\<lparr>ex_app := n\<rparr>, None)"

definition example_routes :: "(nat, plain_fields, string, unit) registration list" where
  "example_routes =
     [Http_Route V_get ''/users/:id'' (marking 1) [], Http_Route V_post ''/users'' (marking 2) [],
      Http_Route V_get ''/users/me'' (marking 3) [], Ws_Route ''/chat'' ()]"

lemma example_routes_valid: "\<forall>r\<in>set example_routes. pat_valid (\<lambda>_. True) (reg_pattern r)"
proof -
  have "pat_valid (\<lambda>_. True) (split_segments ''/users/:id'')" by code_simp
  moreover have "pat_valid (\<lambda>_. True) (split_segments ''/users'')" by code_simp
  moreover have "pat_valid (\<lambda>_. True) (split_segments ''/users/me'')" by code_simp
  moreover have "pat_valid (\<lambda>_. True) (split_segments ''/chat'')" by code_simp
  ultimately show ?thesis by (simp add: example_routes_def)
qed

lemma example_exchange_server:
  "fa_find plain_api (rs_fields (ex_resp (example_exchange m path))) F_server = Some ''Beast''"
  by (simp add: example_exchange_def response_new_def plain_api_def example_env_def)

theorem routing_decision_witness:
  "if \<exists>pat h. http_route example_routes pat V_get = Some h \<and> pat_match (\<lambda>_ _. False) pat [''users'', ''7'']
   then \<exists>pat h. http_route example_routes pat V_get = Some h \<and>
     pat_match (\<lambda>_ _. False) pat [''users'', ''7''] \<and>
     proc_routing plain_api example_env (\<lambda>_ _. False) (registered (\<lambda>_. True) example_routes)
         (example_exchange V_get ''/users/7'') =
       h (example_exchange V_get ''/users/7''
            \<lparr>ex_req := set_path_param (map_of (pat_binds pat [''users'', ''7'']))
               (ex_req (example_exchange V_get ''/users/7''))\<rparr>)
   else \<exists>rs. proc_routing plain_api example_env (\<lambda>_ _. False) (registered (\<lambda>_. True) example_routes)
         (example_exchange V_get ''/users/7'') = (example_exchange V_get ''/users/7''\<lparr>ex_resp := rs\<rparr>, None) \<and>
     (if allowed (http_route example_routes) (\<lambda>pat. pat_match (\<lambda>_ _. False) pat [''users'', ''7'']) = {}
      then rs_status rs = 404
      else rs_status rs = 405 \<and>
        (\<exists>allows. is_string_set allows
           (allowed (http_route example_routes) (\<lambda>pat. pat_match (\<lambda>_ _. False) pat [''users'', ''7''])) \<and>
           fa_find plain_api (rs_fields rs) F_allow = Some (join '','' allows)))"
proof (rule routing_decision [OF example_routes_valid plain_laws example_exchange_server])
  show "V_get = rq_method (ex_req (example_exchange V_get ''/users/7''))"
    by (simp add: example_exchange_def)
  have "split_segments ''/users/7'' = [''users'', ''7'']" by code_simp
  then show "[''users'', ''7''] = split_segments (request_path (ex_req (example_exchange V_get ''/users/7'')))"
    by (simp add: example_exchange_def request_path_def)
qed (rule refl)

text \<open>
  C2. The check before the body agrees with the decision made after it: it lets a request through
  exactly when its method is one of the five that need no check or a route of its method matches, and
  leaves the exchange alone then. Otherwise the body is never read, and the answer is 405 or 404, as
  the router would give it, on a connection that will be closed.
\<close>

theorem pre_routing_decision:
  assumes "\<forall>r\<in>set regs. pat_valid ok (reg_pattern r)" and "fields_laws A"
    and "fa_find A (rs_fields (ex_resp ex)) F_server = Some srv"
    and "m = rq_method (ex_req ex)" and "segs = split_segments (request_path (ex_req ex))"
  shows "if m \<in> {V_get, V_head, V_trace, V_connect, V_options} \<or>
      (\<exists>pat h. http_route regs pat m = Some h \<and> pat_match rx pat segs)
    then pre_routing A E rx (registered ok regs) ex = (ex, Inr True)
    else \<exists>rs. pre_routing A E rx (registered ok regs) ex = (ex\<lparr>ex_resp := rs\<rparr>, Inr False) \<and>
      \<not> fa_keep_alive A (rs_version rs) (rs_fields rs) \<and>
      rs_status rs =
        (if allowed (http_route regs) (\<lambda>pat. pat_match rx pat segs) = {} then 404 else 405)"
    (is "if ?pass then _ else _")
proof -
  let ?root = "rt_root (registered ok regs)"
  note table = registered_table [OF assms(1)]
  consider (free) "m \<in> {V_get, V_head, V_trace, V_connect, V_options}"
    | (route) pat h where "m \<notin> {V_get, V_head, V_trace, V_connect, V_options}"
        "look_handler ?root pat m = Some h" "pat_match rx pat segs"
    | (none) "\<not> ?pass" "\<And>pat. pat_match rx pat segs \<Longrightarrow> look_handler ?root pat m = None"
    unfolding table(2) by (metis option.exhaust)
  then show ?thesis
  proof cases
    case free
    then have "pre_routing A E rx (registered ok regs) ex = (ex, Inr True)"
      by (simp add: pre_routing_def assms(4))
    with free show ?thesis by simp
  next
    case route
    from search_found [OF table(1) route(2,3)] obtain n pat' h' allows where
      "match_nodes rx (allow_probe m) ?root segs (Map.empty, []) =
         (Some n, map_of (pat_binds pat' segs), allows)"
      "map_of (node_handlers n) m = Some h'" .
    with route(1) have "pre_routing A E rx (registered ok regs) ex = (ex, Inr True)"
      unfolding pre_routing_def Let_def assms(4) [symmetric] assms(5) [symmetric] by simp
    moreover have ?pass using route(2,3) unfolding table(2) by (intro disjI2 exI conjI)
    ultimately show ?thesis by (simp only: if_True)
  next
    case none
    from search_not_found [OF table(1) none(2)] obtain allows where
      nf: "match_nodes rx (allow_probe m) ?root segs (Map.empty, []) = (None, Map.empty, allows)"
      and S: "is_string_set allows (allowed (look_handler ?root) (\<lambda>pat. pat_match rx pat segs))"
      by blast
    define ex' where "ex' = ex\<lparr>ex_resp := set_keep_alive A False (ex_resp ex)\<rparr>"
    note laws = fields_laws_simps [OF assms(2)]
    have ex': "fa_find A (rs_fields (ex_resp ex')) F_server = Some srv"
      "\<not> fa_keep_alive A (rs_version (ex_resp ex')) (rs_fields (ex_resp ex'))"
      "\<And>rs. ex'\<lparr>ex_resp := rs\<rparr> = ex\<lparr>ex_resp := rs\<rparr>"
      using assms(3) laws(14,17) by (simp_all add: ex'_def set_keep_alive_def)
    from S have S': "(allows = []) =
        (allowed (http_route regs) (\<lambda>pat. pat_match rx pat segs) = {})"
      unfolding allowed_def table(2) by (rule is_string_set_empty)
    have "m \<notin> {V_get, V_head, V_trace, V_connect, V_options}" using none(1) by blast
    then have run: "pre_routing A E rx (registered ok regs) ex =
        (case (if allows \<noteq> [] then method_not_allowed A E allows ex' else respond_error A E 404 ex')
         of (x, Some e) \<Rightarrow> (x, Inl e) | (x, None) \<Rightarrow> (x, Inr False))"
      using nf unfolding pre_routing_def Let_def assms(4) [symmetric] assms(5) [symmetric] ex'_def
      by simp
    show ?thesis unfolding if_not_P [OF none(1)] S' [symmetric] run
      using method_not_allowed_result [OF assms(2) ex'(1), of E allows]
        respond_error_result [OF assms(2) ex'(1), of E 404] ex'(2,3)
      by (cases "allows = []") auto
  qed
qed

theorem pre_routing_decision_witness:
  "if V_post \<in> {V_get, V_head, V_trace, V_connect, V_options} \<or>
      (\<exists>pat h. http_route example_routes pat V_post = Some h \<and> pat_match (\<lambda>_ _. False) pat [''users'', ''7''])
   then pre_routing plain_api example_env (\<lambda>_ _. False) (registered (\<lambda>_. True) example_routes)
       (example_exchange V_post ''/users/7'') = (example_exchange V_post ''/users/7'', Inr True)
   else \<exists>rs. pre_routing plain_api example_env (\<lambda>_ _. False) (registered (\<lambda>_. True) example_routes)
       (example_exchange V_post ''/users/7'') =
         (example_exchange V_post ''/users/7''\<lparr>ex_resp := rs\<rparr>, Inr False) \<and>
     \<not> fa_keep_alive plain_api (rs_version rs) (rs_fields rs) \<and>
     rs_status rs =
       (if allowed (http_route example_routes) (\<lambda>pat. pat_match (\<lambda>_ _. False) pat [''users'', ''7'']) = {}
        then 404 else 405)"
proof (rule pre_routing_decision [OF example_routes_valid plain_laws example_exchange_server])
  show "V_post = rq_method (ex_req (example_exchange V_post ''/users/7''))"
    by (simp add: example_exchange_def)
  have "split_segments ''/users/7'' = [''users'', ''7'']" by code_simp
  then show "[''users'', ''7''] = split_segments (request_path (ex_req (example_exchange V_post ''/users/7'')))"
    by (simp add: example_exchange_def request_path_def)
qed

lemma static_route_called:
  assumes "\<forall>r\<in>set regs. pat_valid ok (reg_pattern r)"
    and "segs = split_segments (request_path (ex_req ex))" and "static_pattern segs"
    and "http_route regs segs (rq_method (ex_req ex)) = Some h"
  shows "proc_routing A E rx (registered ok regs) ex =
    h (ex\<lparr>ex_req := set_path_param Map.empty (ex_req ex)\<rparr>)"
proof -
  let ?root = "rt_root (registered ok regs)" and ?m = "rq_method (ex_req ex)"
  note table = registered_table [OF assms(1)]
  from assms(4) obtain n where n: "route_at ?root segs = Some n" "map_of (node_handlers n) ?m = Some h"
    unfolding table(2) [symmetric] by (auto simp: look_handler_def payload_at_def payload_def split: option.splits)
  from candidates_static [OF assms(3) n(1)] obtain rest where "candidates rx ?root segs = (n, []) # rest"
    by blast
  then have "fst (scan (allow_probe ?m) (candidates rx ?root segs) []) = Some (n, [])"
    using n(2) by (simp add: allow_probe_def)
  moreover have "exactly (match_nodes rx (allow_probe ?m) ?root segs (Map.empty, [])) Map.empty
      (scan (allow_probe ?m) (candidates rx ?root segs) [])"
    using table(1) by (intro match_nodes_exactly) (simp add: tree_inv_def)
  ultimately obtain allows where
    "match_nodes rx (allow_probe ?m) ?root segs (Map.empty, []) = (Some n, Map.empty, allows)"
    by (auto simp: exactly_def)
  then show ?thesis using n(2) unfolding proc_routing_def Let_def assms(2) [symmetric] by simp
qed

text \<open>
  C11. A route without parameters comes first: when its pattern is the request's own path and it has a
  handler for the method, that handler is called, with no path parameters, whatever other routes match.
\<close>

theorem static_route_first:
  assumes "\<forall>r\<in>set regs. pat_valid ok (reg_pattern r)"
    and "segs = split_segments (request_path (ex_req ex))" and "static_pattern segs"
    and "http_route regs segs (rq_method (ex_req ex)) = Some h"
  shows "proc_routing A E rx (registered ok regs) ex =
    h (ex\<lparr>ex_req := set_path_param Map.empty (ex_req ex)\<rparr>)"
  by (rule static_route_called [OF assms])

theorem static_route_first_witness:
  "proc_routing plain_api example_env (\<lambda>_ _. True) (registered (\<lambda>_. True) example_routes)
     (example_exchange V_get ''/users/me'') =
   marking 3 (example_exchange V_get ''/users/me''
     \<lparr>ex_req := set_path_param Map.empty (ex_req (example_exchange V_get ''/users/me''))\<rparr>)"
proof (rule static_route_first [OF example_routes_valid])
  have segs: "split_segments ''/users/me'' = [''users'', ''me'']" by code_simp
  then show "[''users'', ''me''] =
      split_segments (request_path (ex_req (example_exchange V_get ''/users/me'')))"
    by (simp add: example_exchange_def request_path_def)
  show "static_pattern [''users'', ''me'']" by code_simp
  have "split_segments ''/users/:id'' = [''users'', '':id'']" "split_segments ''/users'' = [''users'']"
    by code_simp+
  with segs show "http_route example_routes [''users'', ''me'']
      (rq_method (ex_req (example_exchange V_get ''/users/me''))) = Some (marking 3)"
    by (simp add: http_route_def example_routes_def example_exchange_def make_coro_http_handler_def)
qed

text \<open>Routes added at the end come before those there are.\<close>

lemma http_route_append:
  "http_route (regs @ regs') pat m =
     (case http_route regs' pat m of Some h \<Rightarrow> Some h | None \<Rightarrow> http_route regs pat m)"
  by (simp add: http_route_def map_add_def split: option.split)

lemma http_route_Cons:
  "http_route (Http_Route m key h asps # regs) pat m' =
     (case http_route regs pat m' of
        Some h' \<Rightarrow> Some h'
      | None \<Rightarrow> if pat = split_segments key \<and> m' = m then Some (make_coro_http_handler h asps) else None)"
  by (simp add: http_route_def map_add_def split: option.split)

lemma http_route_methods:
  "http_route (map (\<lambda>m. Http_Route m key h asps) ms) (split_segments key) m =
     (if m \<in> set ms then Some (make_coro_http_handler h asps) else None)"
proof (induction ms)
  case (Cons m' ms)
  then show ?case by (simp add: http_route_Cons)
qed (simp add: http_route_def)

text \<open>
  C36. A member function registered for several methods serves only the first of them: the
  \<open>std::function\<close> it is bound to is moved into the first route, the others keep an empty one, and
  a request with one of their methods ends in an exception.
\<close>

theorem member_handler_first_method_only:
  assumes "\<forall>r\<in>set regs. pat_valid ok (reg_pattern r)" and "pat_valid ok (split_segments key)"
    and "static_pattern (split_segments key)"
    and "split_segments (request_path (ex_req ex)) = split_segments key"
    and "distinct (m # ms)" and "rq_method (ex_req ex) \<in> set (m # ms)"
    and "router_set_member_handlers ok (m # ms) key h (copied []) (registered ok regs) = (rt, e)"
  shows "e = None \<and> proc_routing A E rx rt ex =
    (if rq_method (ex_req ex) = m then h (ex\<lparr>ex_req := set_path_param Map.empty (ex_req ex)\<rparr>)
     else (ex\<lparr>ex_req := set_path_param Map.empty (ex_req ex)\<rparr>, Some Bad_Function_Call))"
proof -
  let ?left = "\<lambda>ex. (ex, Some Bad_Function_Call)"
  let ?regs = "regs @ Http_Route m key h [] # map (\<lambda>m. Http_Route m key ?left []) ms"
  have rt: "rt = registered ok ?regs" "e = None"
    using assms(7) set_http_handlers_registers [OF assms(2), of m ms "bound_function h" "copied []" regs]
    by (simp_all add: router_set_member_handlers_def bound_function_def copied_def)
  have valid: "\<forall>r\<in>set ?regs. pat_valid ok (reg_pattern r)" using assms(1,2) by auto
  have "http_route ?regs (split_segments key) (rq_method (ex_req ex)) =
      Some (if rq_method (ex_req ex) = m then h else ?left)"
    using assms(5,6) by (auto simp: http_route_append http_route_Cons http_route_methods make_coro_http_handler_def)
  from static_route_called [OF valid assms(4) [symmetric] assms(3) this] show ?thesis
    by (simp add: rt)
qed

theorem member_handler_first_method_only_witness:
  "snd (router_set_member_handlers (\<lambda>_. True) [V_get, V_post] ''/users/me'' (marking 3) (copied [])
      (registered (\<lambda>_. True) example_routes)) = None \<and>
   proc_routing plain_api example_env (\<lambda>_ _. True)
     (fst (router_set_member_handlers (\<lambda>_. True) [V_get, V_post] ''/users/me'' (marking 3) (copied [])
        (registered (\<lambda>_. True) example_routes))) (example_exchange V_post ''/users/me'') =
   (example_exchange V_post ''/users/me''
      \<lparr>ex_req := set_path_param Map.empty (ex_req (example_exchange V_post ''/users/me''))\<rparr>,
    Some Bad_Function_Call)"
proof -
  let ?set = "router_set_member_handlers (\<lambda>_. True) [V_get, V_post] ''/users/me'' (marking 3) (copied [])
      (registered (\<lambda>_. True) example_routes)"
  have segs: "split_segments ''/users/me'' = [''users'', ''me'']" by code_simp
  have path: "split_segments (request_path (ex_req (example_exchange V_post ''/users/me''))) =
      split_segments ''/users/me''"
    by (simp add: example_exchange_def request_path_def)
  have "pat_valid (\<lambda>_. True) (split_segments ''/users/me'')" "static_pattern (split_segments ''/users/me'')"
    by code_simp+
  from member_handler_first_method_only [OF example_routes_valid this path, of V_get "[V_post]"
      "marking 3" "fst ?set" "snd ?set"]
  show ?thesis by (simp add: example_exchange_def)
qed

text \<open>
  C3. Whatever the path of a request and whichever wildcard route leads it to a mount point, what is
  answered depends only on what the file system has at and below the base directory: on two file
  systems that agree there the handler does the same, whether it sends a file, lists a directory,
  refuses, or throws. So no request reads, finds out about, or lists anything outside, as long as
  symbolic links do not lead there.
\<close>

theorem mounted_file_below_base:
  assumes "segs = split_segments (request_path req0)"
    and "req = set_path_param (map_of (pat_binds pat segs)) req0"
    and "resolve [] (components (mp_base_dir mp)) = Some base"
    and "proper_names (mp_default_doc_name mp)" and "lists_names FS" and "agree_below base FS FS'"
  shows "mount_point_call A E FS mk_json mp req rs = mount_point_call A E FS' mk_json mp req rs"
proof (rule mount_point_call_agree [OF assms(6,5,3,4)])
  fix rel
  assume "request_path_param req ''*'' = Inr rel"
  then have "(''*'', rel) \<in> set (pat_binds pat segs)"
    using assms(2) by (auto simp: request_path_param_def set_path_param_def split: option.splits
        dest: map_of_SomeD)
  moreover have "\<forall>s\<in>set segs. CHR ''/'' \<notin> set s" using assms(1) split_segments_no_slash by blast
  ultimately show "\<not> starts_with ''/'' rel" using pat_binds_no_slash by blast
qed

text \<open>A file beside the base directory, which a path with two dots at its start would lead to.\<close>

definition example_outside :: fs_api where
  "example_outside = example_fs\<lparr>
     fsys_exists := (\<lambda>p. p = ''/srv/../key'' \<or> fsys_exists example_fs p),
     fsys_is_regular := (\<lambda>p. p = ''/srv/../key'' \<or> fsys_is_regular example_fs p),
     fsys_file_size := (\<lambda>p. if p = ''/srv/../key'' then Some 6 else fsys_file_size example_fs p),
     fsys_read := (\<lambda>p. if p = ''/srv/../key'' then Some ''secret'' else fsys_read example_fs p)\<rparr>"

theorem mounted_file_below_base_witness:
  "let req = set_path_param (map_of (pat_binds [''*''] (split_segments ''/../key'')))
       (ex_req (example_exchange V_get ''/../key''))
   in request_path_param req ''*'' = Inr ''../key'' \<and>
      mount_point_call plain_api example_env example_outside (\<lambda>_. ''[]'') (mount_point_new ''/'' ''/srv'') req
        (response_new plain_api example_env 11 True) =
      mount_point_call plain_api example_env example_fs (\<lambda>_. ''[]'') (mount_point_new ''/'' ''/srv'') req
        (response_new plain_api example_env 11 True)"
proof -
  have segs: "split_segments ''/../key'' = [''..'', ''key'']" by code_simp
  have path: "request_path (ex_req (example_exchange V_get ''/../key'')) = ''/../key''"
    by (simp add: example_exchange_def request_path_def)
  have "agree_below [''srv''] example_outside example_fs"
  proof -
    have "resolve [] (components ''/srv/../key'') = Some [''key'']" by (simp add: components.simps)
    then show ?thesis by (auto simp: agree_below_def agree_at_def example_outside_def)
  qed
  moreover have "lists_names example_outside"
    by (auto simp: lists_names_def proper_names_def example_outside_def example_fs_def components.simps
        split: if_splits)
  moreover have "resolve [] (components (mp_base_dir (mount_point_new ''/'' ''/srv''))) = Some [''srv'']"
    "proper_names (mp_default_doc_name (mount_point_new ''/'' ''/srv''))"
    by (simp_all add: mount_point_new_def proper_names_def components.simps)
  ultimately have "mount_point_call plain_api example_env example_outside (\<lambda>_. ''[]'') (mount_point_new ''/'' ''/srv'')
       (set_path_param (map_of (pat_binds [''*''] (split_segments ''/../key'')))
         (ex_req (example_exchange V_get ''/../key''))) (response_new plain_api example_env 11 True) =
     mount_point_call plain_api example_env example_fs (\<lambda>_. ''[]'') (mount_point_new ''/'' ''/srv'')
       (set_path_param (map_of (pat_binds [''*''] (split_segments ''/../key'')))
         (ex_req (example_exchange V_get ''/../key''))) (response_new plain_api example_env 11 True)"
    by (intro mounted_file_below_base [OF path [symmetric, THEN arg_cong [where f = split_segments]] refl])
  moreover have "request_path_param (set_path_param (map_of (pat_binds [''*''] (split_segments ''/../key'')))
      (ex_req (example_exchange V_get ''/../key''))) ''*'' = Inr ''../key''"
    by (simp add: segs request_path_param_def set_path_param_def example_exchange_def rest_path_def)
  ultimately show ?thesis unfolding Let_def by blast
qed

text \<open>
  A pattern that names a parameter twice leaves nothing of it behind when the search backs out of
  it: the route tried next is served without the parameter its own pattern binds, so a handler that
  asks for it throws.
\<close>

theorem duplicate_name_loses_binding:
  "let ask = (\<lambda>ex. (ex, case request_path_param (ex_req ex) ''a'' of Inl e \<Rightarrow> Some e | Inr v \<Rightarrow> None));
       routes = [Http_Route V_get ''/:a/:a/x'' ask [], Http_Route V_get ''/:a/*'' ask []]
   in snd (proc_routing plain_api example_env (\<lambda>_ _. False) (registered (\<lambda>_. True) routes)
        (example_exchange V_get ''/1/2/y'')) = Some Out_Of_Range"
  by code_simp

lemma run_before_refused: "run_aspects do_before as ex False = (ex, Inr False)"
  by (induction as) (simp_all add: do_before_def split: option.split)

lemma run_aspects_append:
  "run_aspects f (as @ bs) ex ok =
     (case run_aspects f as ex ok of
        (ex', Inl e) \<Rightarrow> (ex', Inl e)
      | (ex', Inr ok') \<Rightarrow> run_aspects f bs ex' ok')"
  by (induction as arbitrary: ex ok) (auto split: prod.splits sum.splits)

text \<open>
  C12. When an aspect refuses a request, the aspects after it are not asked and the handler is not
  called, but the second phase runs over all aspects, those never asked included.
\<close>

theorem aspect_refusal:
  assumes "run_aspects do_before before ex True = (ex1, Inr True)" and "asp_before a = Some f"
    and "f ex1 = (ex2, Inr False)"
  shows "make_coro_http_handler h (before @ a # others) ex =
    (case run_aspects do_after (before @ a # others) ex2 True of
       (ex3, Inl e) \<Rightarrow> (ex3, Some e)
     | (ex3, Inr _) \<Rightarrow> (ex3, None))"
proof -
  have "run_aspects do_before (before @ a # others) ex True = (ex2, Inr False)"
    using assms by (simp add: run_aspects_append run_before_refused do_before_def)
  then show ?thesis by (simp add: make_coro_http_handler_def)
qed

theorem aspect_refusal_witness:
  "make_coro_http_handler (marking 1)
     ([] @ \<lparr>asp_before = Some (\<lambda>ex. (ex, Inr False)), asp_after = None\<rparr> #
        [\<lparr>asp_before = None, asp_after = Some (\<lambda>ex. (ex\<lparr>ex_app := 5\<rparr>, Inr True))\<rparr>])
     (example_exchange V_get ''/'') =
   (case run_aspects do_after
       ([] @ \<lparr>asp_before = Some (\<lambda>ex. (ex, Inr False)), asp_after = None\<rparr> #
          [\<lparr>asp_before = None, asp_after = Some (\<lambda>ex. (ex\<lparr>ex_app := 5\<rparr>, Inr True))\<rparr>])
       (example_exchange V_get ''/'') True of
      (ex3, Inl e) \<Rightarrow> (ex3, Some e)
    | (ex3, Inr _) \<Rightarrow> (ex3, None))"
  by (rule aspect_refusal) simp_all

end
