(* ===== verification/Session.thy ===== *)
theory Session
  imports Routing Accept_Content
begin

text \<open>
  \<open>session::http\_task\<close> (\<open>lib/server/session.cpp\<close>): the loop that reads a request header,
  hands the connection over or answers the request, and writes the response. The stream, Beast's
  parser and its serializer are the parameter \<open>stream\_api\<close>; a loop that depends on them is a
  partial function, since it may go on for ever. The buffer is the one the code shares between the
  parsers and the stream handlers: what was read ahead of a message stays in it.
\<close>

section \<open>The connection\<close>

record 'f request_header =
  rh_method :: verb
  rh_target :: string
  rh_version :: nat
  rh_fields :: 'f

record 's conn =
  cn_stream :: 's
  cn_buffer :: string

text \<open>
  The operations on the stream; a returned \<open>True\<close> is an error code that is set. The timers around
  them only make an operation fail.
\<close>

record ('s, 'f, 'j, 'p, 'z) stream_api =
  sa_read_header :: "'s conn \<Rightarrow> 's conn \<times> 'f request_header option"
  sa_is_upgrade :: "'f request_header \<Rightarrow> bool"
  sa_body_parser :: "'f request_header \<Rightarrow> 'p"
  sa_body_done :: "'p \<Rightarrow> bool"
  sa_read_some :: "'s conn \<Rightarrow> 'p \<Rightarrow> 's conn \<times> 'p \<times> bool"
  sa_body :: "'p \<Rightarrow> 'j any_value"
  sa_prepare_payload :: "('f, 'j) response \<Rightarrow> 'f"
  sa_serializer :: "('f, 'j) response \<Rightarrow> 'z"
  sa_serializer_done :: "'z \<Rightarrow> bool"
  sa_write_some :: "'s \<Rightarrow> 'z \<Rightarrow> 's \<times> 'z \<times> bool"
  sa_write_chunk :: "'s \<Rightarrow> string \<Rightarrow> 's \<times> bool"
  sa_write_last :: "'s \<Rightarrow> 's \<times> bool"
  sa_close :: "'s \<Rightarrow> 's"

text \<open>What a session uses of its server; \<open>what()\<close> is that of standard exceptions.\<close>

record ('a, 'f, 'j, 'w) serv =
  sv_fields :: "'f fields_api"
  sv_env :: server_env
  sv_creators :: creators
  sv_regex :: "string \<Rightarrow> string \<Rightarrow> bool"
  sv_router :: "('a, 'f, 'j, 'w) router"
  sv_what :: "fault \<Rightarrow> string option"

section \<open>Writing a response\<close>

text \<open>What \<open>async\_write\<close> does to the response first.\<close>

definition prepare_response ::
  "('s, 'f, 'j, 'p, 'z) stream_api \<Rightarrow> 'f fields_api \<Rightarrow> creators \<Rightarrow> ('f, 'j) request \<Rightarrow>
   ('f, 'j) response \<Rightarrow> ('f, 'j) response" where
  "prepare_response S A cs req rs =
     (let chunked = (\<lambda>rs. rs\<lparr>rs_fields := fa_set_chunked A True (rs_fields rs)\<rparr>);
          rs1 =
            (case rs_stream_handler rs of
               Some _ \<Rightarrow> chunked rs
             | None \<Rightarrow>
                 let rs0 = (if fa_content_length A (rs_fields rs) = None
                            then rs\<lparr>rs_fields := sa_prepare_payload S rs\<rparr> else rs)
                 in case fa_find A (rq_fields req) F_accept_encoding of
                      None \<Rightarrow> rs0
                    | Some v \<Rightarrow>
                        let encoding = server_apply_encoding cs (accept_parse v)
                        in if encoding \<noteq> [] then chunked (set_field A F_content_encoding encoding rs0)
                           else rs0)
      in if rq_method req = V_head then reset_content rs1 else rs1)"

partial_function (option) serialize ::
  "('s, 'f, 'j, 'p, 'z) stream_api \<Rightarrow> 's \<Rightarrow> 'z \<Rightarrow> ('s \<times> bool) option" where
  "serialize S st z =
     (if sa_serializer_done S z then Some (st, True)
      else
        (case sa_write_some S st z of
           (st', z', err) \<Rightarrow> if err then Some (st', False) else serialize S st' z'))"

text \<open>
  The loop over the stream handler; \<open>k\<close> counts its calls. Everything in the buffer goes out as one
  chunk. An exception of the handler leaves the loop.
\<close>

partial_function (option) chunk_loop ::
  "('s, 'f, 'j, 'p, 'z) stream_api \<Rightarrow> stream_handler \<Rightarrow> nat \<Rightarrow> 's conn \<Rightarrow> ('s conn \<times> bool result) option" where
  "chunk_loop S h k c =
     (case h k (cn_buffer c) of
        Inl e \<Rightarrow> Some (c, Inl e)
      | Inr (buffer, has_more, err) \<Rightarrow>
          if err then Some (c\<lparr>cn_buffer := buffer\<rparr>, Inr False)
          else
            (case (if buffer = [] then (cn_stream c, False) else sa_write_chunk S (cn_stream c) buffer) of
               (st, err1) \<Rightarrow>
                 if err1 then Some (\<lparr>cn_stream = st, cn_buffer = buffer\<rparr>, Inr False)
                 else if has_more then chunk_loop S h (Suc k) \<lparr>cn_stream = st, cn_buffer = []\<rparr>
                 else
                   (case sa_write_last S st of
                      (st', err2) \<Rightarrow> Some (\<lparr>cn_stream = st', cn_buffer = []\<rparr>, Inr (\<not> err2)))))"

definition async_write ::
  "('s, 'f, 'j, 'p, 'z) stream_api \<Rightarrow> 'f fields_api \<Rightarrow> creators \<Rightarrow> ('f, 'j) request \<Rightarrow>
   ('f, 'j) response \<Rightarrow> 's conn \<Rightarrow> ('s conn \<times> ('f, 'j) response \<times> bool result) option" where
  "async_write S A cs req rs c =
     (let rs' = prepare_response S A cs req rs
      in Option.bind (serialize S (cn_stream c) (sa_serializer S rs')) (\<lambda>(st, ok).
           let c1 = c\<lparr>cn_stream := st\<rparr>
           in if \<not> ok then Some (c1, rs', Inr False)
              else
                (case rs_stream_handler rs' of
                   None \<Rightarrow> Some (c1, rs', Inr True)
                 | Some h \<Rightarrow> map_option (\<lambda>(c2, ok2). (c2, rs', ok2)) (chunk_loop S h 0 c1))))"

section \<open>Handling a request\<close>

definition iequals :: "string \<Rightarrow> string \<Rightarrow> bool" where
  "iequals a b \<longleftrightarrow> map to_lower a = map to_lower b"

partial_function (option) read_body ::
  "('s, 'f, 'j, 'p, 'z) stream_api \<Rightarrow> 's conn \<Rightarrow> 'p \<Rightarrow> ('s conn \<times> 'p option) option" where
  "read_body S c p =
     (if sa_body_done S p then Some (c, Some p)
      else
        (case sa_read_some S c p of
           (c', p', err) \<Rightarrow> if err then Some (c', None) else read_body S c' p'))"

text \<open>The interim response: a new response, written with the request at hand.\<close>

definition interim_response :: "'f fields_api \<Rightarrow> server_env \<Rightarrow> 'f request_header \<Rightarrow> ('f, 'j) response" where
  "interim_response A E h = set_empty_content A 100 (response_new A E (rh_version h) True)"

text \<open>How the part between the braces of \<open>try\<close> ends.\<close>

datatype business_end = Connection_Lost | Answered "fault option"

definition after_body ::
  "('a, 'f, 'j, 'w) serv \<Rightarrow> ('a, 'f, 'j) exchange \<Rightarrow> ('a, 'f, 'j) exchange \<times> business_end" where
  "after_body V ex =
     (case proc_routing (sv_fields V) (sv_env V) (sv_regex V) (sv_router V) ex of
        (ex', Some e) \<Rightarrow> (ex', Answered (Some e))
      | (ex', None) \<Rightarrow> (case post_routing (sv_router V) ex' of (ex'', e) \<Rightarrow> (ex'', Answered e)))"

definition business ::
  "('s, 'f, 'j, 'p, 'z) stream_api \<Rightarrow> ('a, 'f, 'j, 'w) serv \<Rightarrow> 'f request_header \<Rightarrow> 's conn \<Rightarrow>
   ('a, 'f, 'j) exchange \<Rightarrow> ('s conn \<times> ('a, 'f, 'j) exchange \<times> business_end) option" where
  "business S V h c ex =
     (let A = sv_fields V
      in case pre_routing A (sv_env V) (sv_regex V) (sv_router V) ex of
           (ex1, Inl e) \<Rightarrow> Some (c, ex1, Answered (Some e))
         | (ex1, Inr False) \<Rightarrow>
             (case post_routing (sv_router V) ex1 of (ex2, e) \<Rightarrow> Some (c, ex2, Answered e))
         | (ex1, Inr True) \<Rightarrow>
             Option.bind
               (if iequals (fa_get A (rh_fields h) F_expect) ''100-continue''
                then map_option (\<lambda>(c', _, ok). (c', ok))
                       (async_write S A (sv_creators V) (ex_req ex1) (interim_response A (sv_env V) h) c)
                else Some (c, Inr True))
               (\<lambda>(c1, r).
                  case r of
                    Inl e \<Rightarrow> Some (c1, ex1, Answered (Some e))
                  | Inr False \<Rightarrow> Some (c1, ex1, Connection_Lost)
                  | Inr True \<Rightarrow>
                      Option.bind (read_body S c1 (sa_body_parser S h)) (\<lambda>(c2, r).
                        case r of
                          None \<Rightarrow> Some (c2, ex1, Connection_Lost)
                        | Some p \<Rightarrow>
                            Some (c2, after_body V
                              (ex1\<lparr>ex_req := (ex_req ex1)\<lparr>rq_body := sa_body S p\<rparr>\<rparr>)))))"

text \<open>The two catch clauses.\<close>

definition exception_response ::
  "'f fields_api \<Rightarrow> (fault \<Rightarrow> string option) \<Rightarrow> fault \<Rightarrow> ('f, 'j) response \<Rightarrow> ('f, 'j) response" where
  "exception_response A what e rs =
     (case what e of
        Some text \<Rightarrow> set_string_content A text ''text/plain'' 500 rs
      | None \<Rightarrow> set_string_content A ''unknown exception'' ''text/plain'' 500 rs)"

section \<open>The loop\<close>

datatype ('f, 'j) next_task =
    No_Task
  | Proxy_Task "('f, 'j) request"
  | Websocket_Task "('f, 'j) request"

datatype ('f, 'j) round_end = Round_Again | Round_End "('f, 'j) next_task"

definition header_request :: "string \<Rightarrow> 'f request_header \<Rightarrow> ('f, 'j) request result" where
  "header_request remote h =
     request_new remote (rh_method h) (rh_target h) (rh_version h) (rh_fields h) V_Empty"

text \<open>
  The end of a round: the response is written, and the connection kept or closed. This is outside of
  the braces of \<open>try\<close>.
\<close>

definition finish_round ::
  "('s, 'f, 'j, 'p, 'z) stream_api \<Rightarrow> ('a, 'f, 'j, 'w) serv \<Rightarrow> 's conn \<Rightarrow> ('a, 'f, 'j) exchange \<Rightarrow>
   fault option \<Rightarrow> (('s conn \<times> 'a) \<times> ('f, 'j) round_end result) option" where
  "finish_round S V c ex e =
     (let A = sv_fields V;
          rs = (case e of None \<Rightarrow> ex_resp ex | Some f \<Rightarrow> exception_response A (sv_what V) f (ex_resp ex))
      in map_option (\<lambda>(c1, rs', r).
           case r of
             Inl f \<Rightarrow> ((c1, ex_app ex), Inl f)
           | Inr ok \<Rightarrow>
               if \<not> ok then ((c1, ex_app ex), Inr (Round_End No_Task))
               else if \<not> fa_keep_alive A (rs_version rs') (rs_fields rs')
               then ((c1\<lparr>cn_stream := sa_close S (cn_stream c1)\<rparr>, ex_app ex), Inr (Round_End No_Task))
               else ((c1, ex_app ex), Inr Round_Again))
         (async_write S A (sv_creators V) (ex_req ex) rs c))"

definition http_round ::
  "('s, 'f, 'j, 'p, 'z) stream_api \<Rightarrow> ('a, 'f, 'j, 'w) serv \<Rightarrow> string \<Rightarrow> 's conn \<times> 'a \<Rightarrow>
   (('s conn \<times> 'a) \<times> ('f, 'j) round_end result) option" where
  "http_round S V remote w =
     (case sa_read_header S (fst w) of
        (c, None) \<Rightarrow> Some ((c, snd w), Inr (Round_End No_Task))
      | (c, Some h) \<Rightarrow>
          if rh_method h = V_connect
          then Some ((c, snd w), rmap (\<lambda>r. Round_End (Proxy_Task r)) (header_request remote h))
          else if sa_is_upgrade S h
          then Some ((c, snd w), rmap (\<lambda>r. Round_End (Websocket_Task r)) (header_request remote h))
          else
            (case header_request remote h of
               Inl e \<Rightarrow> Some ((c, snd w), Inl e)
             | Inr req \<Rightarrow>
                 Option.bind
                   (business S V h c
                     \<lparr>ex_app = snd w, ex_req = req,
                      ex_resp = response_new (sv_fields V) (sv_env V) (rh_version h)
                        (fa_keep_alive (sv_fields V) (rh_version h) (rh_fields h))\<rparr>)
                   (\<lambda>(c1, ex, b).
                      case b of
                        Connection_Lost \<Rightarrow> Some ((c1, ex_app ex), Inr (Round_End No_Task))
                      | Answered e \<Rightarrow> finish_round S V c1 ex e)))"

partial_function (option) http_then ::
  "('s, 'f, 'j, 'p, 'z) stream_api \<Rightarrow> ('a, 'f, 'j, 'w) serv \<Rightarrow> string \<Rightarrow> 's conn \<times> 'a \<Rightarrow>
   (('s conn \<times> 'a) \<times> ('f, 'j) next_task result) option" where
  "http_then S V remote w =
     Option.bind (http_round S V remote w) (\<lambda>(w', r).
       case r of
         Inl e \<Rightarrow> Some (w', Inl e)
       | Inr e \<Rightarrow>
           (case e of
              Round_Again \<Rightarrow> http_then S V remote w'
            | Round_End t \<Rightarrow> Some (w', Inr t)))"

text \<open>The loops compute by their equations.\<close>

declare serialize.simps [code] chunk_loop.simps [code] read_body.simps [code] http_then.simps [code]

end
