(* ===== verification/Session_Props.thy ===== *)
theory Session_Props
  imports Session
begin

text \<open>
  What the HTTP task promises: a connection goes on to the next request only when the body of the
  last one has been read to its end, and a streamed response is what its handler produced. And where
  it does not keep what it means to: the interim response is encoded, and bytes read ahead of the
  next request are sent out with a streamed response.
\<close>

section \<open>Whether the connection is kept\<close>

definition kept :: "'f fields_api \<Rightarrow> ('f, 'j) response \<Rightarrow> bool" where
  "kept A rs \<longleftrightarrow> fa_keep_alive A (rs_version rs) (rs_fields rs)"

text \<open>Preparing the payload only touches the framing fields.\<close>

definition payload_laws :: "('s, 'f, 'j, 'p, 'z) stream_api \<Rightarrow> 'f fields_api \<Rightarrow> bool" where
  "payload_laws S A \<longleftrightarrow>
     (\<forall>rs ver. fa_keep_alive A ver (sa_prepare_payload S rs) = fa_keep_alive A ver (rs_fields rs)) \<and>
     (\<forall>rs n. fa_find A (sa_prepare_payload S rs) n = fa_find A (rs_fields rs) n)"

lemma prepare_response_parts [simp]:
  "rs_version (prepare_response S A cs req rs) = rs_version rs"
  "rs_status (prepare_response S A cs req rs) = rs_status rs"
  by (simp_all add: prepare_response_def Let_def set_field_def reset_content_def split: option.split)

lemma kept_prepare:
  assumes "fields_laws A" and "payload_laws S A"
  shows "kept A (prepare_response S A cs req rs) = kept A rs"
  using assms(2) fields_laws_simps [OF assms(1)]
  by (auto simp: kept_def payload_laws_def prepare_response_def Let_def set_field_def reset_content_def
      split: option.split)

lemma kept_set_string:
  "fields_laws A \<Longrightarrow> kept A (set_string_content A data content_type status rs) = kept A rs"
  by (simp add: kept_def response_ops fields_laws_simps)

lemma kept_exception:
  "fields_laws A \<Longrightarrow> kept A (exception_response A what e rs) = kept A rs"
  by (simp add: exception_response_def kept_set_string split: option.split)

lemma kept_error:
  "fields_laws A \<Longrightarrow> set_error_content A E status rs = Inr rs' \<Longrightarrow> kept A rs' = kept A rs"
  by (auto simp: set_error_content_def kept_set_string split: option.splits)

lemma kept_not_allowed:
  assumes "fields_laws A"
  shows "kept A (ex_resp (fst (method_not_allowed A E allows ex))) = kept A (ex_resp ex)"
proof -
  have f: "kept A (set_field A n v rs) = kept A rs" for n v and rs :: "('a, 'd) response"
    using fields_laws_simps [OF assms] by (simp add: kept_def set_field_def)
  show ?thesis
    by (auto simp: method_not_allowed_def Let_def f split: sum.split dest: kept_error [OF assms])
qed

lemma kept_respond_error:
  "fields_laws A \<Longrightarrow> kept A (ex_resp (fst (respond_error A E status ex))) = kept A (ex_resp ex)"
  by (auto simp: respond_error_def split: sum.split dest: kept_error)

text \<open>A request that the check before the body does not pass leaves a closing response.\<close>

lemma pre_routing_closes:
  assumes "fields_laws A" and "pre_routing A E rx rt ex = (ex', r)" and "r \<noteq> Inr True"
  shows "\<not> kept A (ex_resp ex')"
proof -
  define closing where "closing = ex\<lparr>ex_resp := set_keep_alive A False (ex_resp ex)\<rparr>"
  have c: "\<not> kept A (ex_resp closing)"
    using fields_laws_simps [OF assms(1)] by (simp add: closing_def kept_def set_keep_alive_def)
  have answer: "\<not> kept A (ex_resp (fst (case q of (x, Some e) \<Rightarrow> (x, Inl e) | (x, None) \<Rightarrow> (x, Inr False))))"
    if "\<not> kept A (ex_resp (fst q))" for q
    using that by (cases q; cases "snd q") auto
  obtain found p allows where
    m: "match_nodes rx (allow_probe (rq_method (ex_req ex))) (rt_root rt)
      (split_segments (request_path (ex_req ex))) (Map.empty, []) = (found, p, allows)"
    by (cases "match_nodes rx (allow_probe (rq_method (ex_req ex))) (rt_root rt)
      (split_segments (request_path (ex_req ex))) (Map.empty, [])") auto
  have run: "(ex', r) =
      (if allows \<noteq> []
       then (case method_not_allowed A E allows closing of (x, Some e) \<Rightarrow> (x, Inl e) | (x, None) \<Rightarrow> (x, Inr False))
       else (case respond_error A E 404 closing of (x, Some e) \<Rightarrow> (x, Inl e) | (x, None) \<Rightarrow> (x, Inr False)))"
    using assms(2,3) unfolding pre_routing_def Let_def closing_def [symmetric] m prod.case
    by (simp only: split: if_splits) auto
  show ?thesis
    using answer [of "method_not_allowed A E allows closing"] answer [of "respond_error A E 404 closing"]
      kept_not_allowed [OF assms(1), of E allows closing] kept_respond_error [OF assms(1), of E 404 closing]
      c arg_cong [OF run, of fst]
    by (cases "allows = []") simp_all
qed

text \<open>A handler that does not keep a connection that is to be closed.\<close>

definition keeps_closing :: "'f fields_api \<Rightarrow> ('a, 'f, 'j) handler \<Rightarrow> bool" where
  "keeps_closing A h \<longleftrightarrow> (\<forall>ex. \<not> kept A (ex_resp ex) \<longrightarrow> \<not> kept A (ex_resp (fst (h ex))))"

definition post_keeps_closing :: "'f fields_api \<Rightarrow> ('a, 'f, 'j, 'w) router \<Rightarrow> bool" where
  "post_keeps_closing A rt \<longleftrightarrow>
     (\<forall>h. rt_not_found_handler rt = Some h \<longrightarrow> keeps_closing A h) \<and>
     (\<forall>h. rt_post_handler rt = Some h \<longrightarrow> keeps_closing A h)"

lemma post_routing_closes:
  assumes "post_keeps_closing A rt" and "\<not> kept A (ex_resp ex)"
  shows "\<not> kept A (ex_resp (fst (post_routing rt ex)))"
proof -
  define first where "first =
    (case rt_not_found_handler rt of
       Some h \<Rightarrow> if rs_status (ex_resp ex) = 404 then h ex else (ex, None)
     | None \<Rightarrow> (ex, None))"
  have "\<not> kept A (ex_resp (fst first))"
    using assms by (auto simp: first_def post_keeps_closing_def keeps_closing_def split: option.split)
  moreover have "post_routing rt ex =
      (case first of
         (ex', Some e) \<Rightarrow> (ex', Some e)
       | (ex', None) \<Rightarrow> (case rt_post_handler rt of None \<Rightarrow> (ex', None) | Some h \<Rightarrow> h ex'))"
    by (simp add: post_routing_def first_def)
  ultimately show ?thesis using assms(1)
    by (auto simp: post_keeps_closing_def keeps_closing_def split: prod.splits option.splits)
qed

lemma read_body_done_all:
  "read_body S c p = Some r \<Longrightarrow> (case snd r of None \<Rightarrow> True | Some p' \<Rightarrow> sa_body_done S p')"
  by (erule read_body.raw_induct [rotated]) (auto split: if_splits prod.splits)

lemma read_body_done: "read_body S c p = Some (c', Some p') \<Longrightarrow> sa_body_done S p'"
  by (drule read_body_done_all) simp

lemma async_write_prepared:
  "async_write S A cs req rs c = Some (c', rs', r) \<Longrightarrow> rs' = prepare_response S A cs req rs"
  by (simp add: async_write_def Let_def bind_eq_Some_conv case_prod_unfold split: if_splits option.splits) blast+

text \<open>Only a stream handler can throw, and an interim response has none.\<close>

lemma async_write_no_throw:
  assumes "rs_stream_handler rs = None"
  shows "async_write S A cs req rs c \<noteq> Some (c', rs', Inl e)"
proof -
  have "rs_stream_handler (prepare_response S A cs req rs) = None"
    using assms by (simp add: prepare_response_def Let_def set_field_def reset_content_def split: option.split)
  then show ?thesis by (simp add: async_write_def Let_def bind_eq_Some_conv case_prod_unfold)
qed

lemma interim_no_handler: "rs_stream_handler (interim_response A E h) = None"
  by (simp add: interim_response_def response_new_def response_ops)

text \<open>Without a stream handler, writing leaves what was read ahead alone.\<close>

lemma async_write_buffer:
  assumes "async_write S A cs req rs c = Some (c', rs', r)" and "rs_stream_handler rs = None"
  shows "cn_buffer c' = cn_buffer c"
proof -
  have "rs_stream_handler (prepare_response S A cs req rs) = None"
    using assms(2) by (simp add: prepare_response_def Let_def set_field_def reset_content_def split: option.split)
  with assms(1) show ?thesis
    by (auto simp: async_write_def Let_def bind_eq_Some_conv case_prod_unfold split: if_splits)
qed

lemma finish_round_writes:
  assumes "finish_round S V c ex e = Some (w', Inr Round_Again)"
  shows "\<exists>rs rs'. async_write S (sv_fields V) (sv_creators V) (ex_req ex) rs c = Some (fst w', rs', Inr True)"
proof -
  define rs where "rs = (case e of None \<Rightarrow> ex_resp ex
    | Some f \<Rightarrow> exception_response (sv_fields V) (sv_what V) f (ex_resp ex))"
  obtain c1 rs' r where w: "async_write S (sv_fields V) (sv_creators V) (ex_req ex) rs c = Some (c1, rs', r)"
    using assms by (auto simp: finish_round_def Let_def rs_def [symmetric] simp del: not_None_eq)
  with assms have "r = Inr True" "fst w' = c1"
    by (cases r; auto simp: finish_round_def Let_def rs_def [symmetric] split: if_splits)+
  with w show ?thesis by blast
qed

text \<open>The interim response is written before the body is read, to a client that waits for it.\<close>

definition interim_written ::
  "('s, 'f, 'j, 'p, 'z) stream_api \<Rightarrow> ('a, 'f, 'j, 'w) serv \<Rightarrow> 'f request_header \<Rightarrow> 's conn \<Rightarrow> 's conn \<Rightarrow> bool" where
  "interim_written S V h c c1 \<longleftrightarrow>
     (if iequals (fa_get (sv_fields V) (rh_fields h) F_expect) ''100-continue''
      then \<exists>req rs. async_write S (sv_fields V) (sv_creators V) req
             (interim_response (sv_fields V) (sv_env V) h :: ('f, 'j) response) c = Some (c1, rs, Inr True)
      else c1 = c)"

lemma interim_buffer: "interim_written S V h c c1 \<Longrightarrow> cn_buffer c1 = cn_buffer c"
  by (auto simp: interim_written_def dest: async_write_buffer [OF _ interim_no_handler] split: if_splits)

lemma finish_round_kept:
  assumes "fields_laws (sv_fields V)" and "payload_laws S (sv_fields V)"
    and "finish_round S V c ex e = Some (w', Inr Round_Again)"
  shows "kept (sv_fields V) (ex_resp ex)"
proof -
  let ?A = "sv_fields V"
  define rs where "rs = (case e of None \<Rightarrow> ex_resp ex | Some f \<Rightarrow> exception_response ?A (sv_what V) f (ex_resp ex))"
  have "kept ?A rs = kept ?A (ex_resp ex)"
    by (simp add: rs_def kept_exception [OF assms(1)] split: option.split)
  moreover obtain c1 rs' r where w: "async_write S ?A (sv_creators V) (ex_req ex) rs c = Some (c1, rs', r)"
    using assms(3) by (auto simp: finish_round_def Let_def rs_def [symmetric] simp del: not_None_eq)
  moreover from w assms(3) have "kept ?A rs'"
    by (cases r) (simp_all add: finish_round_def Let_def rs_def [symmetric] kept_def split: if_splits)
  moreover from w have "rs' = prepare_response S ?A (sv_creators V) (ex_req ex) rs"
    by (rule async_write_prepared)
  ultimately show ?thesis using kept_prepare [OF assms(1,2)] by simp
qed

lemma business_kept:
  assumes "fields_laws (sv_fields V)" and "post_keeps_closing (sv_fields V) (sv_router V)"
    and "business S V h c ex = Some (c', ex', Answered e)" and "kept (sv_fields V) (ex_resp ex')"
  shows "\<exists>c1 p. interim_written S V h c c1 \<and> read_body S c1 (sa_body_parser S h) = Some (c', Some p)"
proof -
  let ?A = "sv_fields V"
  obtain ex1 r where pre: "pre_routing ?A (sv_env V) (sv_regex V) (sv_router V) ex = (ex1, r)"
    by (cases "pre_routing ?A (sv_env V) (sv_regex V) (sv_router V) ex")
  note closes = pre_routing_closes [OF assms(1) pre]
  consider (thrown) f where "r = Inl f" | (refused) "r = Inr False" | (passed) "r = Inr True"
    by (cases r) auto
  then show ?thesis
  proof cases
    case thrown
    with closes assms(3,4) pre show ?thesis by (auto simp: business_def)
  next
    case refused
    then have "\<not> kept ?A (ex_resp (fst (post_routing (sv_router V) ex1)))"
      using closes by (intro post_routing_closes [OF assms(2)]) simp
    with refused assms(3,4) pre show ?thesis by (auto simp: business_def split: prod.splits)
  next
    case passed
    define interim where "interim =
      (if iequals (fa_get ?A (rh_fields h) F_expect) ''100-continue''
       then map_option (\<lambda>(c', _, ok). (c', ok))
              (async_write S ?A (sv_creators V) (ex_req ex1) (interim_response ?A (sv_env V) h) c)
       else Some (c, Inr True))"
    have no_throw: "interim \<noteq> Some (c1, Inl e)" for c1 e
      by (auto simp: interim_def async_write_no_throw [OF interim_no_handler])
    from passed assms(3) pre obtain c1 r1 where r1: "interim = Some (c1, r1)"
      by (cases interim) (auto simp: business_def Let_def interim_def [symmetric])
    with no_throw obtain ok where "interim = Some (c1, Inr ok)" by (cases r1) auto
    note i = this
    with passed assms(3) pre have "ok"
      by (cases ok) (auto simp: business_def Let_def interim_def [symmetric])
    with i have "interim_written S V h c c1"
      by (auto simp: interim_def interim_written_def split: if_splits)
    moreover have "\<exists>p. read_body S c1 (sa_body_parser S h) = Some (c', Some p)"
      using i \<open>ok\<close> passed assms(3) pre
      by (auto simp: business_def Let_def interim_def [symmetric] bind_eq_Some_conv split: option.splits)
    ultimately show ?thesis by blast
  qed
qed

section \<open>Properties\<close>

text \<open>
  C14. A connection goes on to the next request only when the body of the last one has been read to
  its end. In a round that is to be followed by another, the header is read, perhaps the interim
  response is written, then the body is read until its parser is done, and then the response is written
  to the connection as reading the body left it; writing leaves the bytes read ahead alone, but for
  a stream handler. So the next round begins behind the body, whatever the router decided and whichever
  handler threw, provided the handlers that run after a refusal do not keep a connection that is to close.
\<close>

theorem next_request_after_whole_body:
  assumes "fields_laws (sv_fields V)" and "payload_laws S (sv_fields V)"
    and "post_keeps_closing (sv_fields V) (sv_router V)"
    and "http_round S V remote w = Some (w', Inr Round_Again)"
  shows "\<exists>h c c1 p c2 req rs rs'.
    sa_read_header S (fst w) = (c, Some h) \<and>
    interim_written S V h c c1 \<and> cn_buffer c1 = cn_buffer c \<and>
    read_body S c1 (sa_body_parser S h) = Some (c2, Some p) \<and> sa_body_done S p \<and>
    async_write S (sv_fields V) (sv_creators V) req rs c2 = Some (fst w', rs', Inr True) \<and>
    (rs_stream_handler rs = None \<longrightarrow> cn_buffer (fst w') = cn_buffer c2)"
proof -
  obtain c h where h: "sa_read_header S (fst w) = (c, Some h)"
    using assms(4) by (cases "sa_read_header S (fst w)"; cases "snd (sa_read_header S (fst w))")
      (auto simp: http_round_def)
  from assms(4) obtain ex c2 ex1 r where "business S V h c ex = Some (c2, ex1, r)"
    and "(case r of Connection_Lost \<Rightarrow> Some ((c2, ex_app ex1), Inr (Round_End No_Task))
          | Answered e \<Rightarrow> finish_round S V c2 ex1 e) = Some (w', Inr Round_Again)"
    by (auto simp: http_round_def h rmap_eq_Inr bind_eq_Some_conv split: if_splits sum.splits)
  then obtain e where
    b: "business S V h c ex = Some (c2, ex1, Answered e)" and
    f: "finish_round S V c2 ex1 e = Some (w', Inr Round_Again)"
    by (cases r) auto
  obtain rs rs' where
    w: "async_write S (sv_fields V) (sv_creators V) (ex_req ex1) rs c2 = Some (fst w', rs', Inr True)"
    using finish_round_writes [OF f] by blast
  obtain c1 p where i: "interim_written S V h c c1" and
    p: "read_body S c1 (sa_body_parser S h) = Some (c2, Some p)"
    using business_kept [OF assms(1,3) b finish_round_kept [OF assms(1,2) f]] by blast
  show ?thesis
    by (intro exI conjI impI) (fact h, fact i, rule interim_buffer [OF i], fact p, rule read_body_done [OF p],
        fact w, rule async_write_buffer [OF w])
qed

text \<open>
  A connection as a script: the headers that will arrive and what has been sent. A body takes as many
  reads as its parser, a number, says.
\<close>

record script =
  sc_headers :: "plain_fields request_header list"
  sc_sent :: "string list"

definition script_send :: "string \<Rightarrow> script \<Rightarrow> script" where
  "script_send text st = st\<lparr>sc_sent := sc_sent st @ [text]\<rparr>"

definition script_api :: "(script, plain_fields, string, nat, string option) stream_api" where
  "script_api =
     \<lparr>sa_read_header = (\<lambda>c. case sc_headers (cn_stream c) of
        [] \<Rightarrow> (c, None)
      | h # hs \<Rightarrow> (c\<lparr>cn_stream := (cn_stream c)\<lparr>sc_headers := hs\<rparr>\<rparr>, Some h)),
      sa_is_upgrade = (\<lambda>h. False),
      sa_body_parser = (\<lambda>h. case fa_content_length plain_api (rh_fields h) of None \<Rightarrow> 0 | Some n \<Rightarrow> n),
      sa_body_done = (\<lambda>p. p = 0),
      sa_read_some = (\<lambda>c p. (c, p - 1, False)),
      sa_body = (\<lambda>p. V_Empty),
      sa_prepare_payload = (\<lambda>rs. fa_set_chunked plain_api True (rs_fields rs)),
      sa_serializer = (\<lambda>rs. Some (dec_nat (rs_status rs))),
      sa_serializer_done = (\<lambda>z. z = None),
      sa_write_some = (\<lambda>st z. (case z of None \<Rightarrow> st | Some t \<Rightarrow> script_send t st, None, False)),
      sa_write_chunk = (\<lambda>st b. (script_send b st, False)),
      sa_write_last = (\<lambda>st. (script_send [] st, False)),
      sa_close = (\<lambda>st. st)\<rparr>"

lemma script_payload: "payload_laws script_api plain_api"
  by (simp add: payload_laws_def script_api_def plain_api_def)

definition example_serv :: "(nat, plain_fields, string, unit) serv" where
  "example_serv =
     \<lparr>sv_fields = plain_api, sv_env = example_env, sv_creators = compressor_factory True,
      sv_regex = (\<lambda>_ _. False), sv_router = registered (\<lambda>_. True) example_routes,
      sv_what = (\<lambda>e. case e of Runtime_Error t \<Rightarrow> Some t | _ \<Rightarrow> None)\<rparr>"

definition example_post :: "plain_fields request_header" where
  "example_post =
     \<lparr>rh_method = V_post, rh_target = ''/users'', rh_version = 11,
      rh_fields = fa_set_content_length plain_api 2 (fa_empty plain_api)\<rparr>"

definition example_conn :: "script conn \<times> nat" where
  "example_conn = (\<lparr>cn_stream = \<lparr>sc_headers = [example_post], sc_sent = []\<rparr>, cn_buffer = []\<rparr>, 0)"

lemma again_result:
  assumes "case r of Some (_, Inr Round_Again) \<Rightarrow> True | _ \<Rightarrow> False"
  obtains w where "r = Some (w, Inr Round_Again)"
  using assms by (cases r; cases "the r"; cases "snd (the r)"; cases "projr (snd (the r))") auto

theorem next_request_after_whole_body_witness:
  "\<exists>w' h c c1 p c2 req rs rs'.
    http_round script_api example_serv ''::1'' example_conn = Some (w', Inr Round_Again) \<and>
    sa_read_header script_api (fst example_conn) = (c, Some h) \<and>
    interim_written script_api example_serv h c c1 \<and> cn_buffer c1 = cn_buffer c \<and>
    read_body script_api c1 (sa_body_parser script_api h) = Some (c2, Some p) \<and> sa_body_done script_api p \<and>
    async_write script_api (sv_fields example_serv) (sv_creators example_serv) req rs c2 =
      Some (fst w', rs', Inr True) \<and>
    (rs_stream_handler rs = None \<longrightarrow> cn_buffer (fst w') = cn_buffer c2)"
proof -
  have "case http_round script_api example_serv ''::1'' example_conn of
      Some (_, Inr Round_Again) \<Rightarrow> True | _ \<Rightarrow> False"
    by code_simp
  then obtain w' where w': "http_round script_api example_serv ''::1'' example_conn = Some (w', Inr Round_Again)"
    by (rule again_result)
  have laws: "fields_laws (sv_fields example_serv)" "payload_laws script_api (sv_fields example_serv)"
    using plain_laws script_payload by (simp_all add: example_serv_def)
  have "rt_post_handler (foldl (register ok) rt regs) = rt_post_handler rt \<and>
      rt_not_found_handler (foldl (register ok) rt regs) = rt_not_found_handler rt"
    for ok rt and regs :: "(nat, plain_fields, string, unit) registration list"
  proof (induction regs arbitrary: rt)
    case (Cons r regs)
    then show ?case
      by (cases r) (simp_all add: router_set_http_handler_def router_set_ws_handler_def split: prod.split)
  qed simp
  then have post: "post_keeps_closing (sv_fields example_serv) (sv_router example_serv)"
    by (simp add: post_keeps_closing_def example_serv_def registered_def router_new_def)
  show ?thesis
    using w' next_request_after_whole_body [OF laws post w'] by (intro exI [of _ w']) (simp only: simp_thms)
qed

lemma chunk_loop_run:
  assumes "\<forall>k\<le>n. \<forall>b. h k b = Inr (b @ bs k, k < n, False)" and "\<And>st b. \<not> snd (sa_write_chunk S st b)"
    and "\<And>st. \<not> snd (sa_write_last S st)"
  shows "k \<le> n \<Longrightarrow> chunk_loop S h k c =
    Some (\<lparr>cn_stream = fst (sa_write_last S (foldl (\<lambda>st b. fst (sa_write_chunk S st b)) (cn_stream c)
             (filter (\<lambda>b. b \<noteq> []) ((cn_buffer c @ bs k) # map bs [Suc k..<Suc n])))),
           cn_buffer = []\<rparr>, Inr True)"
proof (induction "n - k" arbitrary: k c)
  case 0
  then have "k = n" by simp
  with assms show ?case
    by (subst chunk_loop.simps) (simp add: case_prod_beta)
next
  case (Suc d)
  then have k: "k < n" "d = n - Suc k" "Suc k \<le> n" by simp_all
  then have "[Suc k..<Suc n] = Suc k # [Suc (Suc k)..<Suc n]" by (simp add: upt_rec)
  with Suc.hyps(1) [OF k(2,3)] assms k(1) Suc.prems show ?case
    by (subst chunk_loop.simps) (simp add: case_prod_beta)
qed

text \<open>
  C30. A streamed response: with a handler that has more until its call \<open>n\<close> and a peer that takes
  everything, the chunks sent are what its calls produced, in order and without the empty ones, then
  the last chunk. But the first of them starts with whatever is in the buffer: bytes of the next
  request that were read ahead are sent out as content of this response and lost as a request.
\<close>

theorem stream_response_chunks:
  assumes "\<forall>k\<le>n. \<forall>b. h k b = Inr (b @ bs k, k < n, False)" and "\<And>st b. \<not> snd (sa_write_chunk S st b)"
    and "\<And>st. \<not> snd (sa_write_last S st)"
  shows "chunk_loop S h 0 c =
    Some (\<lparr>cn_stream = fst (sa_write_last S (foldl (\<lambda>st b. fst (sa_write_chunk S st b)) (cn_stream c)
             (filter (\<lambda>b. b \<noteq> []) ((cn_buffer c @ bs 0) # map bs [1..<Suc n])))),
           cn_buffer = []\<rparr>, Inr True)"
  using chunk_loop_run [OF assms, of 0] by simp

theorem stream_response_chunks_witness:
  "chunk_loop script_api (\<lambda>k b. Inr (b @ (if k = 0 then ''ab'' else ''c''), k < 1, False)) 0
     \<lparr>cn_stream = \<lparr>sc_headers = [], sc_sent = []\<rparr>, cn_buffer = ''GET /next''\<rparr> =
   Some (\<lparr>cn_stream = \<lparr>sc_headers = [], sc_sent = [''GET /nextab'', ''c'', []]\<rparr>, cn_buffer = []\<rparr>, Inr True)"
proof -
  have "\<not> snd (sa_write_chunk script_api st b)" "\<not> snd (sa_write_last script_api st)" for st b
    by (simp_all add: script_api_def)
  from stream_response_chunks [OF _ this, of 1 "\<lambda>k b. Inr (b @ (if k = 0 then ''ab'' else ''c''), k < 1, False)"
      "\<lambda>k. if k = 0 then ''ab'' else ''c''"]
  show ?thesis by (simp add: script_api_def script_send_def upt_rec)
qed

lemma chunk_loop_throws:
  assumes "\<forall>k<n. \<forall>b. h k b = Inr (b @ bs k, True, False)" and "\<forall>b. h n b = Inl e"
    and "\<And>st b. \<not> snd (sa_write_chunk S st b)"
  shows "k \<le> n \<Longrightarrow> chunk_loop S h k c =
    Some (\<lparr>cn_stream = foldl (\<lambda>st b. fst (sa_write_chunk S st b)) (cn_stream c)
             (filter (\<lambda>b. b \<noteq> []) (if k = n then [] else (cn_buffer c @ bs k) # map bs [Suc k..<n])),
           cn_buffer = (if k = n then cn_buffer c else [])\<rparr>, Inl e)"
proof (induction "n - k" arbitrary: k c)
  case 0
  then have "k = n" by simp
  with assms show ?case by (subst chunk_loop.simps) simp
next
  case (Suc d)
  then have k: "k < n" "d = n - Suc k" "Suc k \<le> n" by simp_all
  then have "Suc k < n \<Longrightarrow> [Suc k..<n] = Suc k # [Suc (Suc k)..<n]" by (simp add: upt_rec)
  with Suc.hyps(1) [OF k(2,3)] assms k(1) k(3) show ?case
    by (subst chunk_loop.simps) (auto simp: case_prod_beta le_less)
qed

text \<open>
  A stream handler that throws: what its calls produced before has been sent, the last chunk is not,
  and the exception, which the handlers around the business functions do not see, ends the task and
  with it the session. So the peer can tell that the content is not complete.
\<close>

theorem throwing_stream_handler:
  assumes "\<forall>k<n. \<forall>b. h k b = Inr (b @ bs k, True, False)" and "\<forall>b. h n b = Inl e"
    and "\<And>st b. \<not> snd (sa_write_chunk S st b)" and "0 < n"
  shows "chunk_loop S h 0 c =
    Some (\<lparr>cn_stream = foldl (\<lambda>st b. fst (sa_write_chunk S st b)) (cn_stream c)
             (filter (\<lambda>b. b \<noteq> []) ((cn_buffer c @ bs 0) # map bs [1..<n])),
           cn_buffer = []\<rparr>, Inl e)"
  using chunk_loop_throws [OF assms(1-3), of 0] assms(4) by simp

theorem stream_exception_ends_round:
  assumes "rs_stream_handler (prepare_response S (sv_fields V) (sv_creators V) (ex_req ex) (ex_resp ex)) = Some h"
    and "serialize S (cn_stream c)
      (sa_serializer S (prepare_response S (sv_fields V) (sv_creators V) (ex_req ex) (ex_resp ex))) = Some (st, True)"
    and "chunk_loop S h 0 (c\<lparr>cn_stream := st\<rparr>) = Some (c', Inl e)"
  shows "finish_round S V c ex None = Some ((c', ex_app ex), Inl e)"
  using assms by (simp add: finish_round_def async_write_def Let_def)

text \<open>
  The interim response to \<open>Expect: 100-continue\<close> goes through the same preparation as a final
  one: when the request accepts a supported encoding, it is announced as encoded and chunked, although
  an interim response has no content.
\<close>

theorem interim_response_encoded:
  assumes "fields_laws A" and "fa_find A (rq_fields req) F_accept_encoding = Some v"
    and "server_apply_encoding cs (accept_parse v) = e" and "e \<noteq> []"
  shows "let rs = prepare_response S A cs req (interim_response A E h)
    in rs_status rs = 100 \<and> fa_find A (rs_fields rs) F_content_encoding = Some e \<and>
       fa_chunked A (rs_fields rs) \<and> fa_content_length A (rs_fields rs) = None"
  using assms(2-4) fields_laws_simps [OF assms(1)]
  by (simp add: prepare_response_def interim_response_def response_new_def response_ops Let_def)

theorem interim_response_encoded_witness:
  "let rs = prepare_response script_api plain_api (compressor_factory True)
       \<lparr>rq_method = V_post, rq_target = ''/users'', rq_version = 11,
        rq_fields = fa_set plain_api F_accept_encoding ''gzip'' (fa_empty plain_api), rq_body = V_Empty,
        rq_decoded_path = ''/users'', rq_query_params = [], rq_remote_address = ''::1'',
        rq_path_params = Map.empty\<rparr> (interim_response plain_api example_env example_post)
   in rs_status rs = 100 \<and> fa_find plain_api (rs_fields rs) F_content_encoding = Some ''gzip'' \<and>
      fa_chunked plain_api (rs_fields rs) \<and> fa_content_length plain_api (rs_fields rs) = None"
proof (rule interim_response_encoded [OF plain_laws])
  show "server_apply_encoding (compressor_factory True) (accept_parse ''gzip'') = ''gzip''" by code_simp
qed (simp_all add: plain_api_def)

end
