(* ===== verification/Action_Queue.thy ===== *)
theory Action_Queue
  imports Prelude "HOL-Library.Sublist" "HOL-Library.Multiset"
begin

text \<open>
  \<open>util::action\_queue\<close> (\<open>lib/util/action_queue_impl.hpp\<close>): handlers pushed from anywhere are
  run one after the other by the coroutine \<open>perform\<close>, which a push starts when none runs. The state
  has, beside the members of the class, where the coroutine stands and whether it was cancelled, the
  shutdown timer as Boost.Asio documents it (a timer that was never set has expired), and the logs of
  what was accepted, what was cleared before it was started, and what was started.
\<close>

section \<open>The state\<close>

datatype 'h perform = P_None | P_Loop | P_Handler 'h

datatype timer = Timer_Expired | Timer_Never

record 'h action_queue =
  aq_que :: "'h list"
  aq_running :: bool
  aq_shutdowning :: bool
  aq_timer :: timer
  aq_waiters :: nat
  aq_returned :: nat
  aq_perform :: "'h perform"
  aq_cancelled :: bool
  aq_pushed :: "'h list"
  aq_cleared :: "'h list"
  aq_started :: "'h list"

definition aq_new :: "'h action_queue" where
  "aq_new =
     \<lparr>aq_que = [], aq_running = False, aq_shutdowning = False, aq_timer = Timer_Expired,
      aq_waiters = 0, aq_returned = 0, aq_perform = P_None, aq_cancelled = False,
      aq_pushed = [], aq_cleared = [], aq_started = []\<rparr>"

section \<open>The operations\<close>

definition aq_push :: "'h \<Rightarrow> 'h action_queue \<Rightarrow> 'h action_queue" where
  "aq_push h s =
     (if aq_shutdowning s then s
      else
        let s1 = s\<lparr>aq_que := aq_que s @ [h], aq_pushed := aq_pushed s @ [h]\<rparr>
        in if \<not> aq_running s1
           then s1\<lparr>aq_running := True, aq_perform := P_Loop, aq_cancelled := False\<rparr>
           else s1)"

definition aq_clear :: "'h action_queue \<Rightarrow> 'h action_queue" where
  "aq_clear s = s\<lparr>aq_que := [], aq_cleared := aq_cleared s @ aq_que s\<rparr>"

text \<open>The start of \<open>async\_shutdown\<close>, up to its wait; an expired timer ends the wait at once.\<close>

definition aq_shutdown :: "bool \<Rightarrow> 'h action_queue \<Rightarrow> 'h action_queue" where
  "aq_shutdown cancel_signal s =
     (if \<not> aq_running s \<and> aq_shutdowning s then s\<lparr>aq_returned := Suc (aq_returned s)\<rparr>
      else
        let s1 = s\<lparr>aq_shutdowning := True\<rparr>;
            s2 = (if cancel_signal \<and> aq_perform s1 \<noteq> P_None then s1\<lparr>aq_cancelled := True\<rparr> else s1)
        in case aq_timer s2 of
             Timer_Expired \<Rightarrow> s2\<lparr>aq_returned := Suc (aq_returned s2)\<rparr>
           | Timer_Never \<Rightarrow> s2\<lparr>aq_waiters := Suc (aq_waiters s2)\<rparr>)"

text \<open>Setting the timer to the end of time and cancelling it lets those go that wait.\<close>

definition emit_shutdown_timer :: "'h action_queue \<Rightarrow> 'h action_queue" where
  "emit_shutdown_timer s =
     s\<lparr>aq_timer := Timer_Never, aq_returned := aq_returned s + aq_waiters s, aq_waiters := 0\<rparr>"

text \<open>One turn of the loop of \<open>perform\<close>, up to the call of the handler.\<close>

definition aq_perform_turn :: "'h action_queue \<Rightarrow> 'h action_queue" where
  "aq_perform_turn s =
     (if aq_que s = [] \<or> aq_cancelled s
      then
        let s1 = s\<lparr>aq_running := False, aq_perform := P_None\<rparr>
        in if aq_shutdowning s1 then emit_shutdown_timer s1 else s1
      else s\<lparr>aq_que := tl (aq_que s), aq_perform := P_Handler (hd (aq_que s)),
             aq_started := aq_started s @ [hd (aq_que s)]\<rparr>)"

text \<open>The steps; a handler may return or throw, and what it throws leaves \<open>perform\<close>.\<close>

inductive aq_step :: "'h action_queue \<Rightarrow> 'h action_queue \<Rightarrow> bool" where
  push: "aq_step s (aq_push h s)"
| clear: "aq_step s (aq_clear s)"
| shutdown: "aq_step s (aq_shutdown b s)"
| turn: "aq_perform s = P_Loop \<Longrightarrow> aq_step s (aq_perform_turn s)"
| return: "aq_perform s = P_Handler h \<Longrightarrow> aq_step s (s\<lparr>aq_perform := P_Loop\<rparr>)"

inductive aq_throw :: "'h action_queue \<Rightarrow> 'h action_queue \<Rightarrow> bool" where
  throw: "aq_perform s = P_Handler h \<Longrightarrow> aq_throw s (s\<lparr>aq_perform := P_None\<rparr>)"

inductive_cases aq_stepE: "aq_step s t"
inductive_simps aq_throw_iff: "aq_throw s t"

inductive aq_reach :: "'h action_queue \<Rightarrow> bool" where
  start: "aq_reach aq_new"
| step: "aq_reach s \<Longrightarrow> aq_step s t \<Longrightarrow> aq_reach t"

text \<open>What the queue reaches when a handler may throw; the flag tells whether one has.\<close>

inductive aq_runs :: "'h action_queue \<Rightarrow> bool \<Rightarrow> bool" where
  start: "aq_runs aq_new False"
| step: "aq_runs s thrown \<Longrightarrow> aq_step s t \<Longrightarrow> aq_runs t thrown"
| throw: "aq_runs s thrown \<Longrightarrow> aq_throw s t \<Longrightarrow> aq_runs t True"

section \<open>Invariants\<close>

text \<open>
  The flag says whether the coroutine exists, so there is one at most; what is queued will be run;
  what was started and what is queued are, in this order, among what was pushed; and of what was pushed
  everything was started, or is queued, or was cleared.
\<close>

definition aq_account :: "'h action_queue \<Rightarrow> bool" where
  "aq_account s \<longleftrightarrow>
     subseq (aq_started s @ aq_que s) (aq_pushed s) \<and>
     mset (aq_pushed s) = mset (aq_started s) + mset (aq_que s) + mset (aq_cleared s)"

definition aq_inv :: "'h action_queue \<Rightarrow> bool" where
  "aq_inv s \<longleftrightarrow>
     (aq_running s \<longleftrightarrow> aq_perform s \<noteq> P_None) \<and>
     (aq_running s \<or> aq_que s = [] \<or> aq_shutdowning s) \<and>
     (aq_cancelled s \<longrightarrow> aq_shutdowning s) \<and>
     (aq_timer s = Timer_Never \<longrightarrow> aq_shutdowning s)"

lemma subseq_drop_tail: "subseq (xs @ ys) zs \<Longrightarrow> subseq xs zs"
  by (rule subseq_order.order_trans [OF _ ]) auto

lemma aq_inv_step: "aq_step s t \<Longrightarrow> aq_inv s \<Longrightarrow> aq_inv t"
proof (induction rule: aq_step.induct)
  case (push s h)
  then show ?case by (auto simp: aq_inv_def aq_push_def Let_def)
next
  case (clear s)
  then show ?case by (auto simp: aq_inv_def aq_clear_def)
next
  case (shutdown s b)
  then show ?case by (auto simp: aq_inv_def aq_shutdown_def Let_def split: timer.split)
next
  case (turn s)
  then show ?case
    by (cases "aq_que s")
       (auto simp: aq_inv_def aq_perform_turn_def emit_shutdown_timer_def Let_def)
next
  case (return s h)
  then show ?case by (auto simp: aq_inv_def)
qed

lemma aq_reach_inv: "aq_reach s \<Longrightarrow> aq_inv s"
  by (induction rule: aq_reach.induct) (simp add: aq_inv_def aq_new_def, rule aq_inv_step)

lemma aq_account_step: "aq_step s t \<Longrightarrow> aq_account s \<Longrightarrow> aq_account t"
proof (induction rule: aq_step.induct)
  case (push s h)
  then have "subseq (aq_started s @ aq_que s @ [h]) (aq_pushed s @ [h])"
    by (simp add: aq_account_def flip: append_assoc)
  with push show ?case by (auto simp: aq_account_def aq_push_def Let_def)
next
  case (clear s)
  then show ?case using subseq_drop_tail by (auto simp: aq_account_def aq_clear_def)
next
  case (shutdown s b)
  then show ?case by (auto simp: aq_account_def aq_shutdown_def Let_def split: timer.split)
next
  case (turn s)
  then show ?case
    by (cases "aq_que s")
       (auto simp: aq_account_def aq_perform_turn_def emit_shutdown_timer_def Let_def)
next
  case (return s h)
  then show ?case by (auto simp: aq_account_def)
qed

text \<open>After an exception the flag stays set and no coroutine is left.\<close>

definition aq_stuck :: "'h action_queue \<Rightarrow> bool" where
  "aq_stuck s \<longleftrightarrow> aq_running s \<and> aq_perform s = P_None"

lemma stuck_step: "aq_step s t \<Longrightarrow> aq_stuck s \<Longrightarrow> aq_stuck t \<and> aq_started t = aq_started s"
  by (erule aq_stepE)
     (auto simp: aq_stuck_def aq_push_def aq_clear_def aq_shutdown_def Let_def split: timer.split)

lemma throw_stuck:
  "aq_throw s t \<Longrightarrow> aq_inv s \<Longrightarrow> aq_stuck t \<and> aq_started t = aq_started s"
  by (auto simp: aq_throw_iff aq_inv_def aq_stuck_def)

lemma aq_runs_inv: "aq_runs s thrown \<Longrightarrow> aq_account s \<and> (if thrown then aq_stuck s else aq_inv s)"
proof (induction rule: aq_runs.induct)
  case start
  then show ?case by (simp add: aq_account_def aq_inv_def aq_new_def)
next
  case (step s thrown t)
  then show ?case using aq_account_step aq_inv_step stuck_step by (metis (full_types))
next
  case (throw s thrown t)
  then have "\<not> thrown" by (auto simp: aq_throw_iff aq_stuck_def)
  with throw have "aq_stuck t" using throw_stuck [of s t] by simp
  with throw show ?case by (auto simp: aq_throw_iff aq_account_def)
qed

section \<open>Properties\<close>

text \<open>
  C15. In every state the queue reaches, whatever is pushed, cleared and shut down in whatever order, and
  whatever is thrown: the flag \<open>running\_\<close> is set while a coroutine performs handlers, so two never
  run at once, and otherwise only when a handler has thrown; a handler that waits is waited for by
  a running coroutine, unless one has thrown or the queue is being shut down, so no wake-up is lost;
  handlers are started in the order in which they were accepted; and every handler that was accepted
  was started once, or still waits, or was cleared.
\<close>

theorem action_queue_invariant:
  assumes "aq_runs s thrown"
  shows "(aq_running s \<longleftrightarrow> aq_perform s \<noteq> P_None \<or> thrown) \<and>
    (thrown \<longrightarrow> aq_perform s = P_None) \<and>
    (aq_que s = [] \<or> aq_running s \<or> aq_shutdowning s) \<and>
    subseq (aq_started s @ aq_que s) (aq_pushed s) \<and>
    mset (aq_pushed s) = mset (aq_started s) + mset (aq_que s) + mset (aq_cleared s)"
  using aq_runs_inv [OF assms] by (auto simp: aq_account_def aq_inv_def aq_stuck_def split: if_splits)

lemma aq_reach_handler: "aq_reach (aq_perform_turn (aq_push h aq_new))"
  by (rule aq_reach.step [OF aq_reach.step [OF aq_reach.start aq_step.push] aq_step.turn])
     (simp add: aq_push_def aq_new_def)

lemma aq_runs_thrown: "aq_runs (aq_push g ((aq_perform_turn (aq_push h aq_new))\<lparr>aq_perform := P_None\<rparr>)) True"
proof (rule aq_runs.step [OF aq_runs.throw aq_step.push])
  show "aq_runs (aq_perform_turn (aq_push h aq_new)) False"
    by (rule aq_runs.step [OF aq_runs.step [OF aq_runs.start aq_step.push] aq_step.turn])
      (simp add: aq_push_def aq_new_def)
  show "aq_throw (aq_perform_turn (aq_push h aq_new)) ((aq_perform_turn (aq_push h aq_new))\<lparr>aq_perform := P_None\<rparr>)"
    by (rule aq_throw.throw [of _ h]) (simp add: aq_perform_turn_def aq_push_def aq_new_def)
qed

theorem action_queue_invariant_witness:
  "let s = aq_push 8 ((aq_perform_turn (aq_push (7 :: nat) aq_new))\<lparr>aq_perform := P_None\<rparr>)
   in aq_running s \<and> aq_que s = [8] \<and> aq_started s = [7] \<and>
      mset (aq_pushed s) = mset (aq_started s) + mset (aq_que s) + mset (aq_cleared s)"
  using action_queue_invariant [OF aq_runs_thrown [of 8 "7 :: nat"]]
  by (simp add: aq_perform_turn_def aq_push_def aq_new_def)

text \<open>
  Shutting the queue down while a handler runs does not wait for the handler: the wait is on a
  timer that was never set, which has expired already, so the first shutdown returns at once and the
  handler runs on after it.
\<close>

theorem shutdown_does_not_wait:
  assumes "aq_reach s" and "aq_perform s = P_Handler h" and "\<not> aq_shutdowning s"
  shows "aq_returned (aq_shutdown b s) = Suc (aq_returned s) \<and> aq_waiters (aq_shutdown b s) = aq_waiters s \<and>
    aq_perform (aq_shutdown b s) = P_Handler h"
proof -
  have "aq_running s" "aq_timer s = Timer_Expired"
    using aq_reach_inv [OF assms(1)] assms(2,3) by (auto simp: aq_inv_def intro: timer.exhaust)
  then show ?thesis using assms(2) by (simp add: aq_shutdown_def Let_def)
qed

theorem shutdown_does_not_wait_witness:
  "let s = aq_perform_turn (aq_push (7 :: nat) aq_new)
   in aq_returned (aq_shutdown True s) = Suc (aq_returned s) \<and>
      aq_waiters (aq_shutdown True s) = aq_waiters s \<and> aq_perform (aq_shutdown True s) = P_Handler 7"
  unfolding Let_def
  by (rule shutdown_does_not_wait [OF aq_reach_handler])
     (simp_all add: aq_perform_turn_def aq_push_def aq_new_def)

text \<open>
  A handler that throws is the last one: the exception leaves the coroutine with the flag still
  set, so no later push starts it again, and no handler is ever run from then on.
\<close>

theorem exception_stops_queue:
  assumes "aq_reach s" and "aq_throw s t" and "aq_step\<^sup>*\<^sup>* t u"
  shows "aq_started u = aq_started s \<and> aq_perform u = P_None"
proof -
  have "aq_stuck t" "aq_started t = aq_started s"
    using throw_stuck [OF assms(2) aq_reach_inv [OF assms(1)]] by simp_all
  from assms(3) this have "aq_stuck u \<and> aq_started u = aq_started s"
    by (induction rule: rtranclp_induct) (auto dest: stuck_step)
  then show ?thesis by (simp add: aq_stuck_def)
qed

theorem exception_stops_queue_witness:
  "let s = aq_perform_turn (aq_push (7 :: nat) aq_new); u = aq_push 8 (s\<lparr>aq_perform := P_None\<rparr>)
   in aq_started u = aq_started s \<and> aq_perform u = P_None"
  unfolding Let_def
proof (rule exception_stops_queue [OF aq_reach_handler])
  show "aq_throw (aq_perform_turn (aq_push (7 :: nat) aq_new))
      (aq_perform_turn (aq_push 7 aq_new)\<lparr>aq_perform := P_None\<rparr>)"
    by (rule aq_throw.throw [of _ 7]) (simp add: aq_perform_turn_def aq_push_def aq_new_def)
qed (rule r_into_rtranclp, rule aq_step.push)

end
