(* ===== verification/Ws_Conn.thy ===== *)
theory Ws_Conn
  imports Routing Action_Queue
begin

text \<open>
  The WebSocket connection of the server (\<open>lib/server/websocket_conn_impl.cpp\<close>): its callbacks
  around the loop that reads messages, and the actions that its methods put on the action queue. The
  WebSocket stream of Beast is the parameter \<open>ws\_api\<close>; callbacks share a state of the application
  and may throw.
\<close>

section \<open>The connection\<close>

type_synonym 'a callback = "'a \<Rightarrow> 'a \<times> fault option"

record 'a ws_handler_entry =
  we_open_handler :: "'a callback"
  we_message_handler :: "string \<Rightarrow> bool \<Rightarrow> 'a callback"
  we_close_handler :: "'a callback"

datatype ws_action = Ws_Send string bool | Ws_Ping string | Ws_Close

text \<open>A read appends the message it got, with its kind, to the buffer, or fails.\<close>

record ('s, 'q) ws_api =
  wa_is_open :: "'s \<Rightarrow> bool"
  wa_accept :: "'s \<Rightarrow> 'q \<Rightarrow> 's \<times> bool"
  wa_read :: "'s \<Rightarrow> 's \<times> (string \<times> bool) option"
  wa_write :: "'s \<Rightarrow> bool \<Rightarrow> string \<Rightarrow> 's"
  wa_ping :: "'s \<Rightarrow> string \<Rightarrow> 's"
  wa_close :: "'s \<Rightarrow> 's"
  wa_shutdown :: "'s \<Rightarrow> 's"

record ('s, 'a) ws_conn =
  wc_stream :: 's
  wc_buffer :: string
  wc_queue :: "ws_action action_queue"
  wc_app :: 'a

definition ws_conn_new :: "'s \<Rightarrow> 'a \<Rightarrow> ('s, 'a) ws_conn" where
  "ws_conn_new s a = \<lparr>wc_stream = s, wc_buffer = [], wc_queue = aq_new, wc_app = a\<rparr>"

section \<open>The methods\<close>

definition push_action :: "('s, 'q) ws_api \<Rightarrow> ws_action \<Rightarrow> ('s, 'a) ws_conn \<Rightarrow> ('s, 'a) ws_conn" where
  "push_action W act c =
     (if \<not> wa_is_open W (wc_stream c) then c else c\<lparr>wc_queue := aq_push act (wc_queue c)\<rparr>)"

definition send_message :: "('s, 'q) ws_api \<Rightarrow> string \<Rightarrow> bool \<Rightarrow> ('s, 'a) ws_conn \<Rightarrow> ('s, 'a) ws_conn" where
  "send_message W msg binary = push_action W (Ws_Send msg binary)"

definition send_ping :: "('s, 'q) ws_api \<Rightarrow> string \<Rightarrow> ('s, 'a) ws_conn \<Rightarrow> ('s, 'a) ws_conn" where
  "send_ping W msg = push_action W (Ws_Ping msg)"

definition ws_close :: "('s, 'q) ws_api \<Rightarrow> ('s, 'a) ws_conn \<Rightarrow> ('s, 'a) ws_conn" where
  "ws_close W = push_action W Ws_Close"

text \<open>What an action does when it is run; errors of the stream are dropped.\<close>

fun run_action :: "('s, 'q) ws_api \<Rightarrow> ws_action \<Rightarrow> 's \<Rightarrow> 's" where
  "run_action W (Ws_Send msg binary) s = wa_write W s binary msg"
| "run_action W (Ws_Ping msg) s = wa_ping W s msg"
| "run_action W Ws_Close s = wa_shutdown W (wa_close W s)"

text \<open>The turn of the action queue together with what the handler does.\<close>

definition ws_turn :: "('s, 'q) ws_api \<Rightarrow> ('s, 'a) ws_conn \<Rightarrow> ('s, 'a) ws_conn" where
  "ws_turn W c =
     (let q = aq_perform_turn (wc_queue c)
      in case aq_perform q of
           P_Handler act \<Rightarrow>
             c\<lparr>wc_queue := q\<lparr>aq_perform := P_Loop\<rparr>, wc_stream := run_action W act (wc_stream c)\<rparr>
         | _ \<Rightarrow> c\<lparr>wc_queue := q\<rparr>)"

section \<open>run\<close>

text \<open>
  The handlers for \<open>std::exception\<close> do not catch what is none: \<open>what\<close> tells. The result is
  what left the coroutine, if anything did.
\<close>

definition caught :: "(fault \<Rightarrow> string option) \<Rightarrow> 'a \<times> fault option \<Rightarrow> 'a \<times> fault option" where
  "caught what r = (case r of (a, Some e) \<Rightarrow> (a, if what e = None then Some e else None) | (a, None) \<Rightarrow> (a, None))"

partial_function (option) ws_loop ::
  "('s, 'q) ws_api \<Rightarrow> (fault \<Rightarrow> string option) \<Rightarrow> 'a ws_handler_entry \<Rightarrow> ('s, 'a) ws_conn \<Rightarrow>
   (('s, 'a) ws_conn \<times> fault option) option" where
  "ws_loop W what en c =
     (case wa_read W (wc_stream c) of
        (s, None) \<Rightarrow>
          (case caught what (we_close_handler en (wc_app c)) of
             (a, e) \<Rightarrow>
               Some (c\<lparr>wc_stream := s, wc_queue := aq_shutdown True (aq_clear (wc_queue c)), wc_app := a\<rparr>, e))
      | (s, Some (msg, binary)) \<Rightarrow>
          (case caught what (we_message_handler en (wc_buffer c @ msg) binary (wc_app c)) of
             (a, Some e) \<Rightarrow> Some (c\<lparr>wc_stream := s, wc_buffer := wc_buffer c @ msg, wc_app := a\<rparr>, Some e)
           | (a, None) \<Rightarrow>
               ws_loop W what en
                 (c\<lparr>wc_stream := s, wc_buffer := drop (length msg) (wc_buffer c @ msg), wc_app := a\<rparr>)))"

declare ws_loop.simps [code]

text \<open>
  A connection without a route, a handshake that fails and an open handler that throws all end the
  run without a callback more.
\<close>

definition ws_run ::
  "('s, ('f, 'j) request) ws_api \<Rightarrow> (string \<Rightarrow> string \<Rightarrow> bool) \<Rightarrow> (fault \<Rightarrow> string option) \<Rightarrow>
   ('b, 'f, 'j, 'a ws_handler_entry) router \<Rightarrow> ('f, 'j) request \<Rightarrow> ('s, 'a) ws_conn \<Rightarrow>
   (('s, 'a) ws_conn \<times> fault option) option" where
  "ws_run W rx what rt req c =
     (case query_ws_handler rx rt req of
        None \<Rightarrow> Some (c, None)
      | Some en \<Rightarrow>
          (case wa_accept W (wc_stream c) req of
             (s, err) \<Rightarrow>
               if err then Some (c\<lparr>wc_stream := s\<rparr>, None)
               else
                 (case we_open_handler en (wc_app c) of
                    (a, Some e) \<Rightarrow>
                      Some (c\<lparr>wc_stream := s, wc_app := a\<rparr>, if what e = None then Some e else None)
                  | (a, None) \<Rightarrow> ws_loop W what en (c\<lparr>wc_stream := s, wc_app := a\<rparr>))))"

section \<open>The search for a WebSocket route\<close>

lemma ws_probe_eta: "ws_probe = (\<lambda>n s. (node_ws n \<noteq> None, s))"
  by (simp add: fun_eq_iff ws_probe_def)

lemma candidate_ws_route:
  assumes "tree_inv root" and "(n, b) \<in> set (candidates rx root segs)" and "node_ws n = Some w"
  shows "\<exists>pat. look_ws root pat () = Some w \<and> pat_match rx pat segs"
proof -
  have "payload n \<noteq> ([], None)" using assms(3) by (auto simp: payload_def)
  with candidates_sound [OF _ assms(2)] assms(1)
  obtain pat where "route_at root pat = Some n" "pat_match rx pat segs" by (auto simp: tree_inv_def)
  with assms(3) show ?thesis
    by (intro exI [of _ pat]) (simp add: look_ws_def payload_at_def payload_def)
qed

lemma ws_route_candidate:
  assumes "tree_inv root" and "look_ws root pat () = Some w" and "pat_match rx pat segs"
  shows "\<exists>n b. (n, b) \<in> set (candidates rx root segs) \<and> node_ws n \<noteq> None"
proof -
  from assms(2) obtain n where n: "route_at root pat = Some n" "node_ws n = Some w"
    by (auto simp: look_ws_def payload_at_def payload_def split: option.splits)
  with candidates_complete [OF _ n(1) assms(3)] assms(1) show ?thesis
    by (auto simp: tree_inv_def)
qed

lemma query_ws_find:
  "query_ws_handler rx rt req =
     (case List.find (\<lambda>c. node_ws (fst c) \<noteq> None)
        (candidates rx (rt_root rt) (split_segments (request_path req))) of
        None \<Rightarrow> None
      | Some c \<Rightarrow> node_ws (fst c))"
proof -
  let ?segs = "split_segments (request_path req)"
  have "follows (match_nodes rx ws_probe (rt_root rt) ?segs (Map.empty, ()))
      (scan ws_probe (candidates rx (rt_root rt) ?segs) ())"
    using match_nodes_follows [of rx ws_probe "rt_root rt" ?segs "(Map.empty, ())"] by simp
  moreover have "fst (scan ws_probe (candidates rx (rt_root rt) ?segs) ()) =
      List.find (\<lambda>c. node_ws (fst c) \<noteq> None) (candidates rx (rt_root rt) ?segs)"
    unfolding ws_probe_eta by (rule scan_find)
  ultimately have "fst (match_nodes rx ws_probe (rt_root rt) ?segs (Map.empty, ())) =
      map_option fst (List.find (\<lambda>c. node_ws (fst c) \<noteq> None) (candidates rx (rt_root rt) ?segs))"
    by (simp add: follows_def)
  then show ?thesis unfolding query_ws_handler_def
    by (cases "match_nodes rx ws_probe (rt_root rt) ?segs (Map.empty, ())")
       (auto split: option.split)
qed

section \<open>Properties\<close>

text \<open>
  C29. A WebSocket request finds a handler exactly when a WebSocket route matches its path, and what it
  finds is the handler registered last for such a route.
\<close>

theorem ws_route_decision:
  assumes "\<forall>r\<in>set regs. pat_valid ok (reg_pattern r)"
    and "segs = split_segments (request_path req)"
  shows "case query_ws_handler rx (registered ok regs) req of
      None \<Rightarrow> \<not> (\<exists>pat. pat_match rx pat segs \<and> ws_route regs pat \<noteq> None)
    | Some w \<Rightarrow> \<exists>pat. pat_match rx pat segs \<and> ws_route regs pat = Some w"
proof -
  let ?root = "rt_root (registered ok regs)" and ?cs = "candidates rx (rt_root (registered ok regs)) segs"
  note table = registered_table [OF assms(1)]
  note query = query_ws_find [of rx "registered ok regs" req, folded assms(2)]
  show ?thesis
  proof (cases "List.find (\<lambda>c. node_ws (fst c) \<noteq> None) ?cs")
    case None
    then have "\<forall>c\<in>set ?cs. node_ws (fst c) = None" by (auto simp: find_None_iff)
    with ws_route_candidate [OF table(1)] table(3) have
      "\<not> (\<exists>pat. pat_match rx pat segs \<and> ws_route regs pat \<noteq> None)"
      by (metis fst_conv option.exhaust)
    with None query show ?thesis by simp
  next
    case (Some c)
    from find_SomeD [OF this] have "(fst c, snd c) \<in> set ?cs" "node_ws (fst c) \<noteq> None" by simp_all
    then obtain w where w: "(fst c, snd c) \<in> set ?cs" "node_ws (fst c) = Some w" by blast
    with candidate_ws_route [OF table(1)] table(3) have
      "\<exists>pat. pat_match rx pat segs \<and> ws_route regs pat = Some w" by metis
    with Some w query show ?thesis by simp
  qed
qed

theorem ws_route_decision_witness:
  "case query_ws_handler (\<lambda>_ _. False) (registered (\<lambda>_. True) example_routes)
        (ex_req (example_exchange V_get ''/chat'')) of
      None \<Rightarrow> \<not> (\<exists>pat. pat_match (\<lambda>_ _. False) pat
          (split_segments (request_path (ex_req (example_exchange V_get ''/chat'')))) \<and>
        ws_route example_routes pat \<noteq> None)
    | Some w \<Rightarrow> \<exists>pat. pat_match (\<lambda>_ _. False) pat
          (split_segments (request_path (ex_req (example_exchange V_get ''/chat'')))) \<and>
        ws_route example_routes pat = Some w"
  by (rule ws_route_decision [OF example_routes_valid refl])

text \<open>The messages a stream will deliver before it fails.\<close>

fun delivers :: "('s, 'q) ws_api \<Rightarrow> 's \<Rightarrow> (string \<times> bool) list \<Rightarrow> bool" where
  "delivers W s [] \<longleftrightarrow> snd (wa_read W s) = None"
| "delivers W s (m # ms) \<longleftrightarrow> snd (wa_read W s) = Some m \<and> delivers W (fst (wa_read W s)) ms"

definition catches :: "(fault \<Rightarrow> string option) \<Rightarrow> 'a callback \<Rightarrow> bool" where
  "catches what f \<longleftrightarrow> (\<forall>a. case snd (f a) of None \<Rightarrow> True | Some e \<Rightarrow> what e \<noteq> None)"

lemma caught_catches: "catches what f \<Longrightarrow> caught what (f a) = (fst (f a), None)"
  by (cases "f a") (auto simp: catches_def caught_def split: option.splits dest!: spec [of _ a])

lemma ws_loop_delivers:
  assumes "\<And>m b. catches what (we_message_handler en m b)" and "catches what (we_close_handler en)"
  shows "delivers W (wc_stream c) ms \<Longrightarrow> wc_buffer c = [] \<Longrightarrow>
    \<exists>c'. ws_loop W what en c = Some (c', None) \<and> wc_buffer c' = [] \<and>
      wc_app c' = fst (we_close_handler en
        (foldl (\<lambda>a (m, b). fst (we_message_handler en m b a)) (wc_app c) ms))"
proof (induction ms arbitrary: c)
  case Nil
  then obtain s where "wa_read W (wc_stream c) = (s, None)" by (cases "wa_read W (wc_stream c)") auto
  then show ?case using Nil(2)
    by (subst ws_loop.simps) (simp add: caught_catches [OF assms(2)])
next
  case (Cons mb ms)
  obtain m b where mb: "mb = (m, b)" by (cases mb)
  obtain s where r: "wa_read W (wc_stream c) = (s, Some (m, b))"
    using Cons.prems(1) mb by (cases "wa_read W (wc_stream c)") auto
  let ?c = "c\<lparr>wc_stream := s, wc_buffer := [], wc_app := fst (we_message_handler en m b (wc_app c))\<rparr>"
  have "ws_loop W what en c = ws_loop W what en ?c"
    using Cons.prems(2) r by (subst ws_loop.simps) (simp add: caught_catches [OF assms(1)])
  with Cons.IH [of ?c] Cons.prems(1) r mb show ?case by simp
qed

text \<open>
  C28. The callbacks of a connection: once the handshake is done and the open handler has returned,
  every message the peer sends until the connection fails is handed to the message handler, whole, in
  order and once, also after one for which the handler threw; then the close handler is called once,
  and the run ends.
\<close>

theorem ws_run_callbacks:
  assumes "query_ws_handler rx rt req = Some en" and "wa_accept W (wc_stream c) req = (s, False)"
    and "we_open_handler en (wc_app c) = (a, None)" and "wc_buffer c = []" and "delivers W s ms"
    and "\<And>m b. catches what (we_message_handler en m b)" and "catches what (we_close_handler en)"
  shows "\<exists>c'. ws_run W rx what rt req c = Some (c', None) \<and> wc_buffer c' = [] \<and>
    wc_app c' = fst (we_close_handler en (foldl (\<lambda>a (m, b). fst (we_message_handler en m b a)) a ms))"
  using ws_loop_delivers [OF assms(6,7), of W "c\<lparr>wc_stream := s, wc_app := a\<rparr>" ms] assms(1-5)
  by (simp add: ws_run_def)

text \<open>A script of messages, and callbacks that keep a log.\<close>

definition script_ws :: "((string \<times> bool) list, 'q) ws_api" where
  "script_ws =
     \<lparr>wa_is_open = (\<lambda>s. s \<noteq> []), wa_accept = (\<lambda>s q. (s, False)),
      wa_read = (\<lambda>s. case s of [] \<Rightarrow> ([], None) | m # ms \<Rightarrow> (ms, Some m)),
      wa_write = (\<lambda>s b m. s), wa_ping = (\<lambda>s m. s), wa_close = (\<lambda>s. s), wa_shutdown = (\<lambda>s. [])\<rparr>"

definition log_handlers :: "string list ws_handler_entry" where
  "log_handlers =
     \<lparr>we_open_handler = (\<lambda>l. (l @ [''open''], None)),
      we_message_handler = (\<lambda>m b l. (l @ [m], if m = ''bad'' then Some (Runtime_Error ''bad'') else None)),
      we_close_handler = (\<lambda>l. (l @ [''close''], None))\<rparr>"

definition log_router :: "(nat, plain_fields, string, string list ws_handler_entry) router" where
  "log_router = registered (\<lambda>_. True) [Ws_Route ''/chat'' log_handlers]"

theorem ws_run_callbacks_witness:
  "\<exists>c'. ws_run script_ws (\<lambda>_ _. False) (\<lambda>_. Some []) log_router (ex_req (example_exchange V_get ''/chat''))
      (ws_conn_new [(''hi'', False), (''bad'', False), (''ho'', True)] []) = Some (c', None) \<and>
    wc_buffer c' = [] \<and>
    wc_app c' = fst (we_close_handler log_handlers
      (foldl (\<lambda>a (m, b). fst (we_message_handler log_handlers m b a)) [''open'']
        [(''hi'', False), (''bad'', False), (''ho'', True)]))"
proof (rule ws_run_callbacks)
  have "split_segments ''/chat'' = [''chat'']" "\<not> is_regex ''chat''" "\<not> is_param ''chat''"
    "split_segments (request_path (ex_req (example_exchange V_get ''/chat''))) = [''chat'']"
    by code_simp+
  then show "query_ws_handler (\<lambda>_ _. False) log_router (ex_req (example_exchange V_get ''/chat'')) =
      Some log_handlers"
    by (simp add: query_ws_handler_def log_router_def registered_def router_set_ws_handler_def
        router_new_def set_ws_handler_def insert_at.simps new_node_def orelse_def ws_probe_def)
next
  show "delivers script_ws [(''hi'', False), (''bad'', False), (''ho'', True)]
      [(''hi'', False), (''bad'', False), (''ho'', True)]"
    by code_simp
qed (simp_all add: script_ws_def ws_conn_new_def log_handlers_def catches_def)

end
