(* ===== verification/Session_Tasks.thy ===== *)
theory Session_Tasks
  imports Session_Props Ws_Conn
begin

text \<open>
  A session as a chain of tasks (\<open>lib/server/session.cpp\<close>): the detection of TLS, its
  handshake, the HTTP task, and the two tasks a connection may be handed over to, the proxy tunnel
  and the WebSocket connection. The TLS operations, the resolver and the sockets of the tunnel are
  parameters.
\<close>

section \<open>Detecting TLS and the handshake\<close>

text \<open>
  What \<open>async\_detect\_ssl\<close> read stays in the buffer; \<open>None\<close> is an error. The handshake
  tells how many bytes of the buffer it used.
\<close>

record 's tls_api =
  ta_enabled :: bool
  ta_detect :: "'s \<Rightarrow> 's conn \<times> bool option"
  ta_handshake :: "'s conn \<Rightarrow> 's \<times> nat option"
  ta_shutdown :: "'s \<Rightarrow> 's"

datatype ('s, 't, 'f, 'j) task =
    Detect_Ssl 's
  | Ssl_Handshake "'s conn"
  | Http "'s conn"
  | Proxy 's "('f, 'j) request"
  | Websocket "('t, unit) ws_conn" "('f, 'j) request"

definition detect_then :: "'s tls_api \<Rightarrow> 's \<Rightarrow> ('s, 't, 'f, 'j) task option" where
  "detect_then T s =
     (if ta_enabled T
      then
        (case ta_detect T s of
           (c, None) \<Rightarrow> None
         | (c, Some is_ssl) \<Rightarrow> Some (if is_ssl then Ssl_Handshake c else Http c))
      else Some (Http \<lparr>cn_stream = s, cn_buffer = []\<rparr>))"

definition handshake_then :: "'s tls_api \<Rightarrow> 's conn \<Rightarrow> ('s, 't, 'f, 'j) task option" where
  "handshake_then T c =
     (case ta_handshake T c of
        (s, None) \<Rightarrow> None
      | (s, Some bytes_used) \<Rightarrow> Some (Http \<lparr>cn_stream = s, cn_buffer = drop bytes_used (cn_buffer c)\<rparr>))"

section \<open>The proxy tunnel\<close>

text \<open>The half of a connection that is read and the half of the other one that is written.\<close>

record ('r, 'w) pipe_api =
  pi_read :: "'r \<Rightarrow> 'r \<times> string \<times> bool"
  pi_write :: "'w \<Rightarrow> string \<Rightarrow> 'w \<times> bool"
  pi_shutdown_send :: "'w \<Rightarrow> 'w"
  pi_shutdown_receive :: "'r \<Rightarrow> 'r"

partial_function (option) transfer ::
  "('r, 'w) pipe_api \<Rightarrow> 'r \<Rightarrow> 'w \<Rightarrow> nat \<Rightarrow> ('r \<times> 'w \<times> nat) option" where
  "transfer P from to n =
     (case pi_read P from of
        (from', bytes, ec) \<Rightarrow>
          if ec
          then Some (from', pi_shutdown_send P (if bytes \<noteq> [] then fst (pi_write P to bytes) else to), n)
          else
            (case pi_write P to bytes of
               (to', ec') \<Rightarrow>
                 if ec' then Some (pi_shutdown_receive P from', to', n)
                 else transfer P from' to' (n + length bytes)))"

declare transfer.simps [code]

record ('s, 'e, 'cr, 'cw, 'pr, 'pw) proxy_api =
  px_resolve :: "string \<Rightarrow> string \<Rightarrow> 'e option"
  px_connect :: "'e \<Rightarrow> ('pr \<times> 'pw) option"
  px_halves :: "'s \<Rightarrow> 'cr \<times> 'cw"
  px_up :: "('cr, 'pw) pipe_api"
  px_down :: "('pr, 'cw) pipe_api"

text \<open>The two transfers work on halves of their own, so their steps commute.\<close>

record ('cr, 'cw, 'pr, 'pw) tunnel =
  tn_up :: "'cr \<times> 'pw \<times> nat"
  tn_down :: "'pr \<times> 'cw \<times> nat"

definition proxy_endpoint :: "string \<Rightarrow> (string \<times> string) option" where
  "proxy_endpoint target =
     (case find_sub '':'' target of
        None \<Rightarrow> None
      | Some pos \<Rightarrow> Some (substr target 0 pos, drop (pos + 1) target))"

text \<open>
  The answer to CONNECT. The reason phrase the code sets in it, \<open>Connection Established\<close>, is left
  out, as a response of the model has the phrase of its status.
\<close>

definition proxy_response :: "'f fields_api \<Rightarrow> server_env \<Rightarrow> ('f, 'j) request \<Rightarrow> ('f, 'j) response" where
  "proxy_response A E req =
     (response_new A E (rq_version req) (fa_keep_alive A (rq_version req) (rq_fields req)))
       \<lparr>rs_status := 200\<rparr>"

definition proxy_then ::
  "('s, 'f, 'j, 'p, 'z) stream_api \<Rightarrow> 'f fields_api \<Rightarrow> server_env \<Rightarrow>
   ('s, 'e, 'cr, 'cw, 'pr, 'pw) proxy_api \<Rightarrow> 's \<Rightarrow> ('f, 'j) request \<Rightarrow>
   ('cr, 'cw, 'pr, 'pw) tunnel option option" where
  "proxy_then S A E X s req =
     (case proxy_endpoint (rq_target req) of
        None \<Rightarrow> Some None
      | Some (host, port) \<Rightarrow>
          (case Option.bind (px_resolve X host port) (px_connect X) of
             None \<Rightarrow> Some None
           | Some (server_rx, server_tx) \<Rightarrow>
               Option.bind (serialize S s (sa_serializer S (proxy_response A E req))) (\<lambda>(s', ok).
                 if \<not> ok then Some None
                 else
                   (case px_halves X s' of
                      (client_rx, client_tx) \<Rightarrow>
                        Option.bind (transfer (px_up X) client_rx server_tx 0) (\<lambda>up.
                        Option.bind (transfer (px_down X) server_rx client_tx 0) (\<lambda>down.
                          Some (Some \<lparr>tn_up = up, tn_down = down\<rparr>)))))))"

section \<open>The chain of tasks\<close>

record ('s, 'f, 'j, 'p, 'z, 'a, 't, 'e, 'cr, 'cw, 'pr, 'pw) session_env =
  se_tls :: "'s tls_api"
  se_stream :: "('s, 'f, 'j, 'p, 'z) stream_api"
  se_serv :: "('a, 'f, 'j, 'a ws_handler_entry) serv"
  se_remote :: string
  se_ws :: "('t, ('f, 'j) request) ws_api"
  se_ws_stream :: "'s \<Rightarrow> 't"
  se_proxy :: "('s, 'e, 'cr, 'cw, 'pr, 'pw) proxy_api"

text \<open>The callbacks of a WebSocket connection see the state of the application as it is by then.\<close>

definition conn_with_app :: "'a \<Rightarrow> ('t, 'b) ws_conn \<Rightarrow> ('t, 'a) ws_conn" where
  "conn_with_app a c =
     \<lparr>wc_stream = wc_stream c, wc_buffer = wc_buffer c, wc_queue = wc_queue c, wc_app = a\<rparr>"

text \<open>The HTTP task hands over its stream and the request, not its buffer.\<close>

definition handover ::
  "('s, 'f, 'j, 'p, 'z, 'a, 't, 'e, 'cr, 'cw, 'pr, 'pw) session_env \<Rightarrow> 's conn \<Rightarrow>
   ('f, 'j) next_task \<Rightarrow> ('s, 't, 'f, 'j) task option" where
  "handover E c t =
     (case t of
        No_Task \<Rightarrow> None
      | Proxy_Task req \<Rightarrow> Some (Proxy (cn_stream c) req)
      | Websocket_Task req \<Rightarrow> Some (Websocket (ws_conn_new (se_ws_stream E (cn_stream c)) ()) req))"

text \<open>An exception leaves \<open>then\<close> as the left value.\<close>

fun task_then ::
  "('s, 'f, 'j, 'p, 'z, 'a, 't, 'e, 'cr, 'cw, 'pr, 'pw) session_env \<Rightarrow> ('s, 't, 'f, 'j) task \<Rightarrow> 'a \<Rightarrow>
   ('a \<times> ('s, 't, 'f, 'j) task option result) option" where
  "task_then E (Detect_Ssl s) a = Some (a, Inr (detect_then (se_tls E) s))"
| "task_then E (Ssl_Handshake c) a = Some (a, Inr (handshake_then (se_tls E) c))"
| "task_then E (Http c) a =
     map_option (\<lambda>((c', a'), r). (a', rmap (handover E c') r))
       (http_then (se_stream E) (se_serv E) (se_remote E) (c, a))"
| "task_then E (Proxy s req) a =
     map_option (\<lambda>_. (a, Inr None))
       (proxy_then (se_stream E) (sv_fields (se_serv E)) (sv_env (se_serv E)) (se_proxy E) s req)"
| "task_then E (Websocket c req) a =
     map_option (\<lambda>(c', e). (wc_app c', case e of None \<Rightarrow> Inr None | Some f \<Rightarrow> Inl f))
       (ws_run (se_ws E) (sv_regex (se_serv E)) (sv_what (se_serv E)) (sv_router (se_serv E)) req
         (conn_with_app a c))"

text \<open>Aborting a task closes its stream; a WebSocket connection is asked to close instead.\<close>

fun task_abort ::
  "('s, 'f, 'j, 'p, 'z, 'a, 't, 'e, 'cr, 'cw, 'pr, 'pw) session_env \<Rightarrow> ('s, 't, 'f, 'j) task \<Rightarrow>
   ('s, 't, 'f, 'j) task" where
  "task_abort E (Detect_Ssl s) = Detect_Ssl (sa_close (se_stream E) s)"
| "task_abort E (Ssl_Handshake c) = Ssl_Handshake (c\<lparr>cn_stream := ta_shutdown (se_tls E) (cn_stream c)\<rparr>)"
| "task_abort E (Http c) = Http (c\<lparr>cn_stream := sa_close (se_stream E) (cn_stream c)\<rparr>)"
| "task_abort E (Proxy s req) = Proxy (sa_close (se_stream E) s) req"
| "task_abort E (Websocket c req) = Websocket (ws_close (se_ws E) c) req"

record ('s, 't, 'f, 'j) session =
  ss_task :: "('s, 't, 'f, 'j) task option"
  ss_abort :: bool

definition session_new :: "'s \<Rightarrow> ('s, 't, 'f, 'j) session" where
  "session_new s = \<lparr>ss_task = Some (Detect_Ssl s), ss_abort = False\<rparr>"

definition session_abort ::
  "('s, 'f, 'j, 'p, 'z, 'a, 't, 'e, 'cr, 'cw, 'pr, 'pw) session_env \<Rightarrow> ('s, 't, 'f, 'j) session \<Rightarrow>
   ('s, 't, 'f, 'j) session" where
  "session_abort E ss =
     (if ss_abort ss then ss else ss\<lparr>ss_abort := True, ss_task := map_option (task_abort E) (ss_task ss)\<rparr>)"

text \<open>
  The loop of \<open>run\<close>. Whether somebody has called \<open>abort\<close> before check number \<open>k\<close> is
  up to the others: \<open>ab k\<close>. The last component is the list of the tasks that were run.
\<close>

partial_function (option) session_run ::
  "('s, 'f, 'j, 'p, 'z, 'a, 't, 'e, 'cr, 'cw, 'pr, 'pw) session_env \<Rightarrow> (nat \<Rightarrow> bool) \<Rightarrow> nat \<Rightarrow>
   ('s, 't, 'f, 'j) session \<Rightarrow> 'a \<Rightarrow> (('s, 't, 'f, 'j) session \<times> 'a \<times> fault option \<times> ('s, 't, 'f, 'j) task list) option"
where
  "session_run E ab k ss a =
     (let ss1 = (if ab k then session_abort E ss else ss)
      in if ss_abort ss1 then Some (ss1, a, None, [])
         else
           (case ss_task ss1 of
              None \<Rightarrow> Some (ss1, a, None, [])
            | Some t \<Rightarrow>
                Option.bind (task_then E t a) (\<lambda>(a', r).
                  case r of
                    Inl e \<Rightarrow> Some (ss1, a', Some e, [t])
                  | Inr next \<Rightarrow>
                      Option.bind (session_run E ab (Suc k) (ss1\<lparr>ss_task := next\<rparr>) a')
                        (\<lambda>(ss2, a2, e, ts). Some (ss2, a2, e, t # ts)))))"

declare session_run.simps [code]

section \<open>The tasks come in order\<close>

fun rank :: "('s, 't, 'f, 'j) task \<Rightarrow> nat" where
  "rank (Detect_Ssl s) = 3"
| "rank (Ssl_Handshake c) = 2"
| "rank (Http c) = 1"
| "rank (Proxy s req) = 0"
| "rank (Websocket c req) = 0"

abbreviation ranked :: "('s, 't, 'f, 'j) task list \<Rightarrow> bool" where
  "ranked \<equiv> sorted_wrt (\<lambda>t u. rank u < rank t)"

lemma rank_top: "rank t \<le> 3"
  by (cases t) simp_all

lemma ranked_length: "ranked ts \<Longrightarrow> \<forall>t\<in>set ts. rank t < n \<Longrightarrow> length ts \<le> n"
proof (induction ts arbitrary: n)
  case (Cons t ts)
  from Cons.prems have "length ts \<le> rank t" by (intro Cons.IH) auto
  with Cons.prems show ?case by simp
qed simp

lemma handover_rank: "Some t = handover E c r \<Longrightarrow> rank t = 0"
  by (auto simp: handover_def split: next_task.splits)

lemma task_then_rank: "task_then E t a = Some (a', Inr (Some t')) \<Longrightarrow> rank t' < rank t"
  by (cases t)
    (auto simp: detect_then_def handshake_then_def rmap_eq_Inr dest: handover_rank
      split: if_splits prod.splits option.splits)

definition session_rank :: "('s, 't, 'f, 'j) session \<Rightarrow> nat" where
  "session_rank ss = (case ss_task ss of None \<Rightarrow> 0 | Some t \<Rightarrow> Suc (rank t))"

text \<open>What a run promises from its check number \<open>k\<close> on.\<close>

definition run_ok ::
  "('s, 'f, 'j, 'p, 'z, 'a, 't, 'e, 'cr, 'cw, 'pr, 'pw) session_env \<Rightarrow> (nat \<Rightarrow> bool) \<Rightarrow> nat \<Rightarrow> nat \<Rightarrow>
   (('s, 't, 'f, 'j) session \<times> 'a \<times> fault option \<times> ('s, 't, 'f, 'j) task list) option \<Rightarrow> bool" where
  "run_ok E ab k n r =
     (case r of
        None \<Rightarrow> \<exists>t a. task_then E t a = None
      | Some (ss, a, e, ts) \<Rightarrow>
          ranked ts \<and> (\<forall>t\<in>set ts. rank t < n) \<and> (\<forall>i<length ts. \<not> ab (k + i)) \<and>
          (e = None \<longrightarrow> ss_task ss = None \<or> ss_abort ss))"

lemma session_abort_task [simp]:
  "session_rank (session_abort E ss) = session_rank ss \<and> ss_abort (session_abort E ss)"
proof -
  have "rank (task_abort E t) = rank t" for t by (cases t) simp_all
  then show ?thesis by (auto simp: session_abort_def session_rank_def split: option.split)
qed

lemma session_run_ok: "run_ok E ab k (session_rank ss) (session_run E ab k ss a)"
proof (induction "session_rank ss" arbitrary: k ss a rule: less_induct)
  case less
  show ?case
  proof (cases "ab k \<or> ss_abort ss \<or> ss_task ss = None")
    case True
    then show ?thesis by (subst session_run.simps) (auto simp: run_ok_def Let_def)
  next
    case False
    then obtain t where t: "ss_task ss = Some t" "\<not> ab k" "\<not> ss_abort ss" by auto
    show ?thesis
    proof (cases "task_then E t a")
      case None
      with t show ?thesis by (subst session_run.simps) (auto simp: run_ok_def)
    next
      case (Some ar)
      then obtain a' r where r: "task_then E t a = Some (a', r)" by (cases ar) auto
      show ?thesis
      proof (cases r)
        case (Inl e)
        with t r show ?thesis by (subst session_run.simps) (simp add: run_ok_def session_rank_def)
      next
        case (Inr nxt)
        let ?ss = "ss\<lparr>ss_task := nxt\<rparr>"
        have n: "session_rank ?ss \<le> rank t"
          using r Inr by (cases nxt) (auto simp: session_rank_def Suc_le_eq dest: task_then_rank)
        have rest: "run_ok E ab (Suc k) (session_rank ?ss) (session_run E ab (Suc k) ?ss a')"
          by (rule less) (use n t in \<open>simp add: session_rank_def\<close>)
        have run: "session_run E ab k ss a = Option.bind (session_run E ab (Suc k) ?ss a')
            (\<lambda>(ss2, a2, e, ts). Some (ss2, a2, e, t # ts))"
          using t r Inr by (subst session_run.simps) simp
        show ?thesis
        proof (cases "session_run E ab (Suc k) ?ss a'")
          case None
          with rest run show ?thesis by (simp add: run_ok_def)
        next
          case (Some q)
          then obtain ss2 a2 e ts where q: "session_run E ab (Suc k) ?ss a' = Some (ss2, a2, e, ts)"
            by (cases q) auto
          from rest have ts: "ranked ts" "\<forall>u\<in>set ts. rank u < rank t" "\<forall>i<length ts. \<not> ab (Suc k + i)"
              "e = None \<longrightarrow> ss_task ss2 = None \<or> ss_abort ss2"
            using n by (auto simp: run_ok_def q)
          have "\<forall>i<length (t # ts). \<not> ab (k + i)"
            using ts(3) t(2) by (auto simp: less_Suc_eq_0_disj)
          moreover have "session_rank ss = Suc (rank t)" using t(1) by (simp add: session_rank_def)
          moreover have "\<forall>u\<in>set (t # ts). rank u < Suc (rank t)" using ts(2) by auto
          ultimately show ?thesis using ts run q by (simp add: run_ok_def)
        qed
      qed
    qed
  qed
qed

section \<open>What goes through a tunnel\<close>

text \<open>A half that delivers the pieces \<open>bs\<close> and then fails, maybe with a last piece.\<close>

fun delivers_bytes :: "('r, 'w) pipe_api \<Rightarrow> 'r \<Rightarrow> string list \<Rightarrow> string \<Rightarrow> bool" where
  "delivers_bytes P r [] fin \<longleftrightarrow> snd (pi_read P r) = (fin, True)"
| "delivers_bytes P r (b # bs) fin \<longleftrightarrow>
     snd (pi_read P r) = (b, False) \<and> delivers_bytes P (fst (pi_read P r)) bs fin"

definition takes_bytes :: "('r, 'w) pipe_api \<Rightarrow> bool" where
  "takes_bytes P \<longleftrightarrow> (\<forall>w b. \<not> snd (pi_write P w b))"

text \<open>What a half is left with when the pieces have been written and it is shut down.\<close>

definition relayed :: "('r, 'w) pipe_api \<Rightarrow> 'w \<Rightarrow> string list \<Rightarrow> string \<Rightarrow> 'w" where
  "relayed P w bs fin =
     pi_shutdown_send P (foldl (\<lambda>w b. fst (pi_write P w b)) w (bs @ (if fin = [] then [] else [fin])))"

lemma transfer_relays:
  assumes "takes_bytes P"
  shows "delivers_bytes P r bs fin \<Longrightarrow>
    \<exists>r'. transfer P r w n = Some (r', relayed P w bs fin, n + sum_list (map length bs))"
proof (induction bs arbitrary: r w n)
  case Nil
  then obtain r' where "pi_read P r = (r', fin, True)" by (cases "pi_read P r") auto
  then show ?case by (subst transfer.simps) (simp add: relayed_def)
next
  case (Cons b bs)
  then obtain r' where r: "pi_read P r = (r', b, False)" "delivers_bytes P r' bs fin"
    by (cases "pi_read P r") auto
  obtain w' where w: "pi_write P w b = (w', False)"
    using assms by (cases "pi_write P w b") (auto simp: takes_bytes_def dest!: spec [of _ w] spec [of _ b])
  from Cons.IH [OF r(2), of w' "n + length b"] r(1) w show ?case
    by (subst transfer.simps) (simp add: relayed_def add.assoc)
qed

section \<open>Properties\<close>

text \<open>
  C18. The life of a session: its tasks are run in their order, detection, handshake, HTTP and then a
  tunnel or a WebSocket connection, each at most once and so four at most, none after somebody has
  aborted the session; and a session that never ends has a task that never does.
\<close>

theorem session_task_chain:
  "case session_run E ab 0 (session_new s) a of
     None \<Rightarrow> \<exists>t a'. task_then E t a' = None
   | Some (ss, a', e, ts) \<Rightarrow>
       length ts \<le> 4 \<and> ranked ts \<and> list_all (\<lambda>i. \<not> ab i) [0..<length ts] \<and>
       (case e of None \<Rightarrow> ss_task ss = None \<or> ss_abort ss | Some _ \<Rightarrow> True)"
proof -
  have "session_rank (session_new s :: ('a, 'b, 'c, 'd) session) = 4"
    by (simp add: session_rank_def session_new_def)
  then show ?thesis
    using session_run_ok [of E ab 0 "session_new s" a] ranked_length [of _ 4]
    by (auto simp: run_ok_def list_all_iff split: option.split prod.split)
qed

text \<open>
  C24. A tunnel relays: when the client asks to be connected to a host and port and everything works,
  what the client sends until its half ends reaches the host whole and in order, then the end of the
  stream, and the other way round; the counts are those of the bytes before the end.
\<close>

theorem proxy_tunnel_relays:
  assumes "rq_target req = host @ '':'' @ port" and "CHR '':'' \<notin> set host"
    and "px_resolve X host port = Some e" and "px_connect X e = Some (server_rx, server_tx)"
    and "serialize S s (sa_serializer S (proxy_response A E req)) = Some (s', True)"
    and "px_halves X s' = (client_rx, client_tx)"
    and "takes_bytes (px_up X)" and "delivers_bytes (px_up X) client_rx ups up_last"
    and "takes_bytes (px_down X)" and "delivers_bytes (px_down X) server_rx downs down_last"
  shows "\<exists>client_rx' server_rx'. proxy_then S A E X s req = Some (Some
    \<lparr>tn_up = (client_rx', relayed (px_up X) server_tx ups up_last, sum_list (map length ups)),
     tn_down = (server_rx', relayed (px_down X) client_tx downs down_last, sum_list (map length downs))\<rparr>)"
proof -
  have "proxy_endpoint (rq_target req) = Some (host, port)"
    using assms(1,2) by (simp add: proxy_endpoint_def find_sub_char_append substr_def)
  with transfer_relays [OF assms(7,8), of server_tx 0] transfer_relays [OF assms(9,10), of client_tx 0]
    assms(3-6)
  show ?thesis by (auto simp: proxy_then_def)
qed

text \<open>A tunnel between two scripts, whose written halves are lists of what was written.\<close>

definition list_pipe :: "(string list, string list) pipe_api" where
  "list_pipe =
     \<lparr>pi_read = (\<lambda>r. case r of [] \<Rightarrow> ([], [], True) | b # bs \<Rightarrow> (bs, b, False)),
      pi_write = (\<lambda>w b. (w @ [b], False)), pi_shutdown_send = (\<lambda>w. w @ [[]]), pi_shutdown_receive = (\<lambda>r. r)\<rparr>"

definition list_proxy :: "(script, string, string list, string list, string list, string list) proxy_api" where
  "list_proxy =
     \<lparr>px_resolve = (\<lambda>host port. if host = ''db'' then Some port else None),
      px_connect = (\<lambda>e. Some ([''welcome''], [])),
      px_halves = (\<lambda>s. ([''a'', ''bc''], sc_sent s)), px_up = list_pipe, px_down = list_pipe\<rparr>"

definition connect_request :: "string \<Rightarrow> (plain_fields, string) request" where
  "connect_request target =
     \<lparr>rq_method = V_connect, rq_target = target, rq_version = 11, rq_fields = fa_empty plain_api,
      rq_body = V_Empty, rq_decoded_path = target, rq_query_params = [], rq_remote_address = ''::1'',
      rq_path_params = Map.empty\<rparr>"

theorem proxy_tunnel_relays_witness:
  "\<exists>client_rx' server_rx'. proxy_then script_api plain_api example_env list_proxy
      \<lparr>sc_headers = [], sc_sent = []\<rparr> (connect_request ''db:5432'') = Some (Some
    \<lparr>tn_up = (client_rx', [''a'', ''bc'', []], 3),
     tn_down = (server_rx', [''200'', ''welcome'', []], 7)\<rparr>)"
proof -
  have "dec_nat 200 = ''200''" by code_simp
  then have ser: "serialize script_api \<lparr>sc_headers = [], sc_sent = []\<rparr> (sa_serializer script_api
      (proxy_response plain_api example_env (connect_request ''db:5432''))) =
    Some (\<lparr>sc_headers = [], sc_sent = [''200'']\<rparr>, True)"
    by (subst serialize.simps, subst serialize.simps)
      (simp add: script_api_def proxy_response_def script_send_def)
  have takes: "takes_bytes (px_up list_proxy)" "takes_bytes (px_down list_proxy)"
    by (simp_all add: takes_bytes_def list_proxy_def list_pipe_def)
  have up: "delivers_bytes (px_up list_proxy) [''a'', ''bc''] [''a'', ''bc''] []" by code_simp
  have down: "delivers_bytes (px_down list_proxy) [''welcome''] [''welcome''] []" by code_simp
  have rel: "relayed (px_up list_proxy) [] [''a'', ''bc''] [] = [''a'', ''bc'', []]"
    "relayed (px_down list_proxy) [''200''] [''welcome''] [] = [''200'', ''welcome'', []]"
    by code_simp+
  show ?thesis
    using proxy_tunnel_relays [of "connect_request ''db:5432''" "''db''" "''5432''" list_proxy "''5432''"
        "[''welcome'']" "[]", OF _ _ _ _ ser _ takes(1) up takes(2) down] rel
    by (simp add: connect_request_def list_proxy_def numeral_eq_Suc)
qed

text \<open>
  The target of CONNECT is taken apart at its first colon, so no host with a colon of its own, as
  a literal IPv6 address in brackets, is ever resolved.
\<close>

theorem proxy_endpoint_first_colon:
  "(proxy_endpoint target = Some (host, port) \<longleftrightarrow> target = host @ '':'' @ port \<and> CHR '':'' \<notin> set host) \<and>
   proxy_endpoint ''[::1]:443'' = Some (''['', '':1]:443'')"
proof
  show "proxy_endpoint target = Some (host, port) \<longleftrightarrow> target = host @ '':'' @ port \<and> CHR '':'' \<notin> set host"
  proof
    assume p: "proxy_endpoint target = Some (host, port)"
    then have c: "CHR '':'' \<in> set target"
      by (auto simp: proxy_endpoint_def find_sub_char split: if_splits)
    from split_list_first [OF this] obtain a b where "target = a @ CHR '':'' # b" "CHR '':'' \<notin> set a"
      by blast
    with p show "target = host @ '':'' @ port \<and> CHR '':'' \<notin> set host"
      by (auto simp: proxy_endpoint_def find_sub_char_append substr_def)
  qed (auto simp: proxy_endpoint_def find_sub_char_append substr_def)
  show "proxy_endpoint ''[::1]:443'' = Some (''['', '':1]:443'')" by code_simp
qed

end
