(* ===== verification/Action_Queue_Spec.thy ===== *)
theory Action_Queue_Spec
  imports Action_Queue
begin

text \<open>
  What the action queue promises: it behaves as a first-in first-out server that works on one action
  at a time (a refinement), and as long as the coroutine goes on and nobody clears the queue or cancels
  it, every action that waits is started (a liveness property over infinite executions).
\<close>

section \<open>The abstract queue\<close>

record 'h fifo =
  ff_waiting :: "'h list"
  ff_current :: "'h option"
  ff_log :: "'h list"
  ff_open :: bool

definition fifo_empty :: "'h fifo" where
  "fifo_empty = \<lparr>ff_waiting = [], ff_current = None, ff_log = [], ff_open = True\<rparr>"

inductive fifo_step :: "'h fifo \<Rightarrow> 'h fifo \<Rightarrow> bool" where
  submit: "ff_open q \<Longrightarrow> fifo_step q (q\<lparr>ff_waiting := ff_waiting q @ [h]\<rparr>)"
| drop_all: "fifo_step q (q\<lparr>ff_waiting := []\<rparr>)"
| close: "fifo_step q (q\<lparr>ff_open := False\<rparr>)"
| take_next: "ff_current q = None \<Longrightarrow> ff_waiting q = h # hs \<Longrightarrow>
    fifo_step q (q\<lparr>ff_waiting := hs, ff_current := Some h, ff_log := ff_log q @ [h]\<rparr>)"
| complete: "ff_current q = Some h \<Longrightarrow> fifo_step q (q\<lparr>ff_current := None\<rparr>)"

definition aq_abs :: "'h action_queue \<Rightarrow> 'h fifo" where
  "aq_abs s =
     \<lparr>ff_waiting = aq_que s,
      ff_current = (case aq_perform s of P_Handler h \<Rightarrow> Some h | _ \<Rightarrow> None),
      ff_log = aq_started s, ff_open = (\<not> aq_shutdowning s)\<rparr>"

section \<open>The simulation\<close>

lemma aq_abs_push: "aq_inv s \<Longrightarrow> fifo_step\<^sup>=\<^sup>= (aq_abs s) (aq_abs (aq_push h s))"
  using fifo_step.submit [of "aq_abs s" h]
  by (auto simp: aq_abs_def aq_push_def Let_def aq_inv_def)

lemma aq_abs_shutdown: "fifo_step\<^sup>=\<^sup>= (aq_abs s) (aq_abs (aq_shutdown b s))"
  using fifo_step.close [of "aq_abs s"]
  by (auto simp: aq_abs_def aq_shutdown_def Let_def split: timer.split)

lemma aq_abs_turn: "aq_perform s = P_Loop \<Longrightarrow> fifo_step\<^sup>=\<^sup>= (aq_abs s) (aq_abs (aq_perform_turn s))"
  using fifo_step.take_next [of "aq_abs s" "hd (aq_que s)" "tl (aq_que s)"]
  by (auto simp: aq_abs_def aq_perform_turn_def emit_shutdown_timer_def Let_def)

lemma aq_step_abs: "aq_step s t \<Longrightarrow> aq_inv s \<Longrightarrow> fifo_step\<^sup>=\<^sup>= (aq_abs s) (aq_abs t)"
proof (induction rule: aq_step.induct)
  case (clear s)
  then show ?case using fifo_step.drop_all [of "aq_abs s"] by (simp add: aq_abs_def aq_clear_def)
next
  case (return s h)
  then show ?case using fifo_step.complete [of "aq_abs s" h] by (simp add: aq_abs_def)
qed (rule aq_abs_push aq_abs_shutdown aq_abs_turn; assumption)+

section \<open>Executions\<close>

text \<open>The steps that neither drop a waiting action nor cancel the coroutine, and those it makes itself.\<close>

inductive aq_work :: "'h action_queue \<Rightarrow> 'h action_queue \<Rightarrow> bool" where
  turn: "aq_perform s = P_Loop \<Longrightarrow> aq_work s (aq_perform_turn s)"
| return: "aq_perform s = P_Handler h \<Longrightarrow> aq_work s (s\<lparr>aq_perform := P_Loop\<rparr>)"

inductive aq_request :: "'h action_queue \<Rightarrow> 'h action_queue \<Rightarrow> bool" where
  push: "aq_request s (aq_push h s)"
| shutdown: "aq_request s (aq_shutdown False s)"
| idle: "aq_request s s"

inductive_simps aq_work_iff: "aq_work s t"
inductive_simps aq_request_iff: "aq_request s t"

definition aq_execution :: "(nat \<Rightarrow> 'h action_queue) \<Rightarrow> bool" where
  "aq_execution w \<longleftrightarrow>
     w 0 = aq_new \<and> (\<forall>n. aq_work (w n) (w (Suc n)) \<or> aq_request (w n) (w (Suc n)))"

text \<open>The coroutine is resumed and what it runs returns: while it exists it makes a step some day.\<close>

definition aq_fair :: "(nat \<Rightarrow> 'h action_queue) \<Rightarrow> bool" where
  "aq_fair w \<longleftrightarrow> (\<forall>n. aq_perform (w n) \<noteq> P_None \<longrightarrow> (\<exists>m\<ge>n. aq_work (w m) (w (Suc m))))"

definition aq_live :: "'h action_queue \<Rightarrow> bool" where
  "aq_live s \<longleftrightarrow>
     \<not> aq_cancelled s \<and> (aq_running s \<longleftrightarrow> aq_perform s \<noteq> P_None) \<and>
     (aq_perform s = P_None \<longrightarrow> aq_que s = [])"

lemma aq_live_turn: "aq_perform s = P_Loop \<Longrightarrow> aq_live s \<Longrightarrow> aq_live (aq_perform_turn s)"
  by (simp add: aq_live_def aq_perform_turn_def emit_shutdown_timer_def Let_def)

lemma aq_live_work: "aq_work s t \<Longrightarrow> aq_live s \<Longrightarrow> aq_live t"
  by (auto simp: aq_work_iff intro: aq_live_turn) (simp add: aq_live_def)

lemma aq_live_push: "aq_live s \<Longrightarrow> aq_live (aq_push h s)"
  by (simp add: aq_live_def aq_push_def Let_def)

lemma aq_live_shutdown: "aq_live s \<Longrightarrow> aq_live (aq_shutdown False s)"
  by (simp add: aq_live_def aq_shutdown_def Let_def split: timer.split)

lemma aq_live_request: "aq_request s t \<Longrightarrow> aq_live s \<Longrightarrow> aq_live t"
  by (auto simp: aq_request_iff intro: aq_live_push aq_live_shutdown)

lemma aq_execution_live: "aq_execution w \<Longrightarrow> aq_live (w n)"
proof (induction n)
  case 0
  then show ?case by (simp add: aq_execution_def aq_live_def aq_new_def)
next
  case (Suc n)
  then have "aq_work (w n) (w (Suc n)) \<or> aq_request (w n) (w (Suc n))" by (simp add: aq_execution_def)
  with Suc.IH [OF Suc.prems] show ?case using aq_live_work aq_live_request by blast
qed

text \<open>What was started and what waits only ever grows at the end.\<close>

lemma push_content [simp]:
  "aq_started (aq_push h s) = aq_started s"
  "aq_que (aq_push h s) = (if aq_shutdowning s then aq_que s else aq_que s @ [h])"
  "aq_running s \<Longrightarrow> aq_perform (aq_push h s) = aq_perform s"
  by (simp_all add: aq_push_def Let_def)

lemma shutdown_content [simp]:
  "aq_started (aq_shutdown b s) = aq_started s" "aq_que (aq_shutdown b s) = aq_que s"
  "aq_perform (aq_shutdown b s) = aq_perform s"
  by (simp_all add: aq_shutdown_def Let_def split: timer.split)

lemma turn_content [simp]:
  "\<not> aq_cancelled s \<Longrightarrow> aq_started (aq_perform_turn s) @ aq_que (aq_perform_turn s) = aq_started s @ aq_que s"
  "prefix (aq_started s) (aq_started (aq_perform_turn s))"
  by (simp_all add: aq_perform_turn_def emit_shutdown_timer_def Let_def)

lemma content_grows:
  assumes "aq_live s" and "aq_work s t \<or> aq_request s t"
  shows "prefix (aq_started s) (aq_started t)"
    and "prefix (aq_started s @ aq_que s) (aq_started t @ aq_que t)"
  using assms by (auto simp: aq_work_iff aq_request_iff aq_live_def simp flip: append_assoc)

lemma execution_grows:
  assumes "aq_execution w" and "n \<le> m"
  shows "prefix (aq_started (w n)) (aq_started (w m)) \<and>
    prefix (aq_started (w n) @ aq_que (w n)) (aq_started (w m) @ aq_que (w m))"
  using assms(2)
proof (induction rule: dec_induct)
  case (step k)
  have "aq_work (w k) (w (Suc k)) \<or> aq_request (w k) (w (Suc k))"
    using assms(1) by (simp add: aq_execution_def)
  from content_grows [OF aq_execution_live [OF assms(1)] this] step show ?case
    by (meson prefix_order.order_trans)
qed simp

text \<open>A request leaves the coroutine where it is, and what waits waiting.\<close>

lemma request_keeps:
  "aq_live s \<Longrightarrow> aq_request s t \<Longrightarrow> aq_que s \<noteq> [] \<Longrightarrow>
   aq_perform t = aq_perform s \<and> aq_que t \<noteq> [] \<and> aq_started t = aq_started s"
  by (auto simp: aq_request_iff aq_live_def split: if_splits)

lemma first_work:
  assumes "aq_execution w" and "aq_que (w n) \<noteq> []" and "aq_work (w m) (w (Suc m))" and "n \<le> m"
  shows "\<exists>m\<ge>n. aq_work (w m) (w (Suc m)) \<and> aq_perform (w m) = aq_perform (w n) \<and> aq_que (w m) \<noteq> []"
  using assms(4,2,3)
proof (induction n rule: inc_induct)
  case base
  then show ?case by blast
next
  case (step n)
  show ?case
  proof (cases "aq_work (w n) (w (Suc n))")
    case False
    then have "aq_request (w n) (w (Suc n))" using assms(1) by (auto simp: aq_execution_def)
    from request_keeps [OF aq_execution_live [OF assms(1)] this step.prems(1)] step.IH step.prems(2)
    show ?thesis by (metis Suc_leD)
  qed (use step.prems in blast)
qed

lemma next_started:
  assumes "aq_execution w" and "aq_fair w" and "aq_que (w n) \<noteq> []"
  shows "\<exists>m\<ge>n. length (aq_started (w n)) < length (aq_started (w m))"
proof -
  note live = aq_execution_live [OF assms(1)]
  have go: "\<exists>m\<ge>k. aq_work (w m) (w (Suc m)) \<and> aq_perform (w m) = aq_perform (w k) \<and> aq_que (w m) \<noteq> []"
    if "aq_que (w k) \<noteq> []" for k
    using first_work [OF assms(1) that] that live [of k] assms(2) by (auto simp: aq_live_def aq_fair_def)
  have loop: "\<exists>m\<ge>k. length (aq_started (w k)) < length (aq_started (w m))"
    if k: "aq_que (w k) \<noteq> []" "aq_perform (w k) = P_Loop" for k
  proof -
    from go [OF k(1)] k(2) obtain m where m: "m \<ge> k" "aq_work (w m) (w (Suc m))"
      "aq_perform (w m) = P_Loop" "aq_que (w m) \<noteq> []" by auto
    then have "length (aq_started (w m)) < length (aq_started (w (Suc m)))"
      using live [of m] by (auto simp: aq_work_iff aq_perform_turn_def aq_live_def)
    moreover have "length (aq_started (w k)) \<le> length (aq_started (w m))"
      using execution_grows [OF assms(1) m(1)] by (auto dest: prefix_length_le)
    ultimately show ?thesis using m(1) by (intro exI [of _ "Suc m"]) auto
  qed
  from go [OF assms(3)] obtain m where m: "m \<ge> n" "aq_work (w m) (w (Suc m))"
    "aq_perform (w m) = aq_perform (w n)" "aq_que (w m) \<noteq> []" by auto
  have grow: "length (aq_started (w n)) \<le> length (aq_started (w k))" if "n \<le> k" for k
    using execution_grows [OF assms(1) that] by (auto dest: prefix_length_le)
  show ?thesis
  proof (cases "aq_perform (w m)")
    case P_None
    then show ?thesis using live [of m] m(4) by (simp add: aq_live_def)
  next
    case P_Loop
    then show ?thesis using loop [OF m(4)] grow [OF m(1)] m(1) by (meson le_less_trans order_trans)
  next
    case (P_Handler h)
    with m(2) have "aq_perform (w (Suc m)) = P_Loop" "aq_que (w (Suc m)) \<noteq> []"
      using m(4) by (auto simp: aq_work_iff)
    from loop [OF this(2,1)] obtain k where "k \<ge> Suc m"
      "length (aq_started (w (Suc m))) < length (aq_started (w k))" by auto
    then show ?thesis using grow [of "Suc m"] m(1) by (intro exI [of _ k]) auto
  qed
qed

lemma started_by:
  assumes "aq_execution w" and "aq_fair w"
  shows "k \<le> length (aq_que (w n)) \<Longrightarrow> \<exists>m\<ge>n. length (aq_started (w n)) + k \<le> length (aq_started (w m))"
proof (induction k)
  case (Suc k)
  then obtain m where m: "m \<ge> n" "length (aq_started (w n)) + k \<le> length (aq_started (w m))" by auto
  show ?case
  proof (cases "length (aq_started (w n)) + k = length (aq_started (w m))")
    case True
    have "length (aq_started (w n) @ aq_que (w n)) \<le> length (aq_started (w m) @ aq_que (w m))"
      using execution_grows [OF assms(1) m(1)] by (blast dest: prefix_length_le)
    then have "aq_que (w m) \<noteq> []" using True Suc.prems by auto
    from next_started [OF assms this] True m(1) show ?thesis by (metis Suc_leI add_Suc_right le_trans)
  qed (use m in auto)
qed auto

section \<open>Properties\<close>

text \<open>
  C17. The action queue refines a first-in first-out queue with one action at work: from the new queue
  on, each of its steps, also a handler that throws, is a step of the abstract queue or none at all,
  where starting the coroutine, its flag, the shutdown timer and the waiters are invisible.
\<close>

theorem action_queue_refines_fifo:
  "aq_abs aq_new = fifo_empty \<and>
   (aq_reach s \<longrightarrow> aq_step s t \<longrightarrow> fifo_step\<^sup>=\<^sup>= (aq_abs s) (aq_abs t)) \<and>
   (aq_throw s t \<longrightarrow> fifo_step (aq_abs s) (aq_abs t))"
proof (intro conjI impI)
  show "aq_abs aq_new = fifo_empty" by (simp add: aq_abs_def aq_new_def fifo_empty_def)
  show "aq_reach s \<Longrightarrow> aq_step s t \<Longrightarrow> fifo_step\<^sup>=\<^sup>= (aq_abs s) (aq_abs t)"
    by (rule aq_step_abs [OF _ aq_reach_inv])
  show "fifo_step (aq_abs s) (aq_abs t)" if "aq_throw s t"
  proof -
    from that obtain h where "aq_perform s = P_Handler h" "t = s\<lparr>aq_perform := P_None\<rparr>"
      by (auto simp: aq_throw_iff)
    then show ?thesis using fifo_step.complete [of "aq_abs s" h] by (simp add: aq_abs_def)
  qed
qed

text \<open>
  C16. Every action that waits is started: in an execution without cancellation and without clear, in
  which the coroutine goes on while there is one and the handlers return, at every moment all that
  waits will have been started some day, in its order, after all that was started before.
\<close>

theorem queued_action_starts:
  assumes "aq_execution w" and "aq_fair w"
  shows "\<exists>m\<ge>n. prefix (aq_started (w n) @ aq_que (w n)) (aq_started (w m))"
proof -
  from started_by [OF assms, of "length (aq_que (w n))" n] obtain m where
    m: "m \<ge> n" "length (aq_started (w n) @ aq_que (w n)) \<le> length (aq_started (w m))" by auto
  have "prefix (aq_started (w n) @ aq_que (w n)) (aq_started (w m) @ aq_que (w m))"
    using execution_grows [OF assms(1) m(1)] by blast
  then have "prefix (aq_started (w n) @ aq_que (w n)) (aq_started (w m))"
    using prefix_length_prefix [OF _ _ m(2), of "aq_started (w m) @ aq_que (w m)"] by simp
  with m(1) show ?thesis by blast
qed

text \<open>A run: an action is pushed, started and returns, and the coroutine ends.\<close>

definition example_run :: "nat \<Rightarrow> nat action_queue" where
  "example_run n =
     (let pushed = aq_push 7 aq_new; begun = aq_perform_turn pushed; over = begun\<lparr>aq_perform := P_Loop\<rparr>
      in if n = 0 then aq_new else if n = 1 then pushed else if n = 2 then begun
         else if n = 3 then over else aq_perform_turn over)"

lemma example_execution: "aq_execution example_run"
  unfolding aq_execution_def
proof
  show "example_run 0 = aq_new" by (simp add: example_run_def Let_def)
  have "aq_work (example_run n) (example_run (Suc n)) \<or> aq_request (example_run n) (example_run (Suc n))" for n
  proof -
    consider "n = 0" | "n = 1" | "n = 2" | "n = 3" | "n \<ge> 4" by linarith
    then show ?thesis
    proof cases
      case 1
      then show ?thesis using aq_request.push [of "aq_new :: nat action_queue" 7] by (simp add: example_run_def)
    next
      case 2
      then have "aq_perform (example_run n) = P_Loop"
        by (simp add: example_run_def aq_push_def aq_new_def)
      then show ?thesis using 2 by (simp add: example_run_def aq_work_iff)
    next
      case 3
      then have "aq_perform (example_run n) = P_Handler 7"
        by (simp add: example_run_def Let_def aq_perform_turn_def aq_push_def aq_new_def)
      then show ?thesis using 3 by (simp add: example_run_def Let_def aq_work_iff)
    next
      case 4
      then show ?thesis by (simp add: example_run_def Let_def aq_work_iff)
    next
      case 5
      then show ?thesis by (simp add: example_run_def aq_request.idle)
    qed
  qed
  then show "\<forall>n. aq_work (example_run n) (example_run (Suc n)) \<or>
      aq_request (example_run n) (example_run (Suc n))" by blast
qed

lemma example_fair: "aq_fair example_run"
proof -
  have work: "aq_work (example_run 3) (example_run (Suc 3))"
    by (simp add: example_run_def Let_def aq_work_iff)
  have "aq_perform (example_run n) = P_None" if "n > 3" for n
    using that by (simp add: example_run_def Let_def aq_new_def aq_perform_turn_def aq_push_def)
  then have "n \<le> 3" if "aq_perform (example_run n) \<noteq> P_None" for n
    using that by (meson not_le)
  with work show ?thesis unfolding aq_fair_def by blast
qed

theorem queued_action_starts_witness:
  "\<exists>m\<ge>1. prefix (aq_started (example_run 1) @ aq_que (example_run 1)) (aq_started (example_run m))"
  by (rule queued_action_starts [OF example_execution example_fair])

theorem action_queue_refines_fifo_witness:
  "fifo_step\<^sup>=\<^sup>= (aq_abs aq_new) (aq_abs (aq_push (7 :: nat) aq_new)) \<and>
   fifo_step (aq_abs (aq_perform_turn (aq_push (7 :: nat) aq_new)))
     (aq_abs (aq_perform_turn (aq_push 7 aq_new)\<lparr>aq_perform := P_None\<rparr>))"
proof
  show "fifo_step\<^sup>=\<^sup>= (aq_abs aq_new) (aq_abs (aq_push (7 :: nat) aq_new))"
    by (rule action_queue_refines_fifo [THEN conjunct2, THEN conjunct1, rule_format, OF aq_reach.start aq_step.push])
  have "aq_throw (aq_perform_turn (aq_push (7 :: nat) aq_new))
      (aq_perform_turn (aq_push 7 aq_new)\<lparr>aq_perform := P_None\<rparr>)"
    by (rule aq_throw.throw [of _ 7]) (simp add: aq_perform_turn_def aq_push_def aq_new_def)
  then show "fifo_step (aq_abs (aq_perform_turn (aq_push (7 :: nat) aq_new)))
     (aq_abs (aq_perform_turn (aq_push 7 aq_new)\<lparr>aq_perform := P_None\<rparr>))"
    by (rule action_queue_refines_fifo [THEN conjunct2, THEN conjunct2, rule_format])
qed

end
