(* ===== verification/When_All.thy ===== *)
theory When_All
  imports Prelude
begin

text \<open>
  \<open>util::when\_all\<close> (\<open>include/httplib/util/when_all.hpp\<close>): operations are wrapped, each
  in a coroutine of its own that hands the result to the token of the parallel group, and the caller
  waits for the group. A token is called when its operation has returned; an operation that throws
  leaves the executor instead, and its token is never called. The group of Boost.Asio is modelled as
  documented: it is complete when every token has been called, and gives the order of completion and
  the results in the order of the operations.
\<close>

section \<open>The state\<close>

datatype 'r operation = Op_Running | Op_Token 'r | Op_Thrown

record 'r when_all =
  wa_ops :: "'r operation list"
  wa_orders :: "nat list"
  wa_thrown :: nat
  wa_result :: "'r list option"

text \<open>An empty list of operations is answered at once; otherwise all are spawned.\<close>

definition when_all_start :: "nat \<Rightarrow> 'r when_all" where
  "when_all_start n =
     \<lparr>wa_ops = replicate n Op_Running, wa_orders = [], wa_thrown = 0,
      wa_result = (if n = 0 then Some [] else None)\<rparr>"

text \<open>The wrapped operation returns: its token is called.\<close>

definition wrap_awaitable_returns :: "nat \<Rightarrow> 'r \<Rightarrow> 'r when_all \<Rightarrow> 'r when_all" where
  "wrap_awaitable_returns i r s = s\<lparr>wa_ops := (wa_ops s)[i := Op_Token r], wa_orders := wa_orders s @ [i]\<rparr>"

text \<open>The wrapped operation throws: the completion handler throws again, out of the executor.\<close>

definition wrap_awaitable_throws :: "nat \<Rightarrow> 'r when_all \<Rightarrow> 'r when_all" where
  "wrap_awaitable_throws i s = s\<lparr>wa_ops := (wa_ops s)[i := Op_Thrown], wa_thrown := Suc (wa_thrown s)\<rparr>"

fun token_result :: "'r operation \<Rightarrow> 'r option" where
  "token_result (Op_Token r) = Some r"
| "token_result _ = None"

definition when_all_returns :: "'r when_all \<Rightarrow> 'r when_all" where
  "when_all_returns s = s\<lparr>wa_result := Some (map (\<lambda>p. the (token_result p)) (wa_ops s))\<rparr>"

text \<open>What the operations do is given: \<open>out ! i\<close> is the result of operation \<open>i\<close>, or that it throws.\<close>

inductive wa_step :: "'r option list \<Rightarrow> 'r when_all \<Rightarrow> 'r when_all \<Rightarrow> bool" for out where
  returns: "i < length (wa_ops s) \<Longrightarrow> wa_ops s ! i = Op_Running \<Longrightarrow> out ! i = Some r \<Longrightarrow>
    wa_step out s (wrap_awaitable_returns i r s)"
| throws: "i < length (wa_ops s) \<Longrightarrow> wa_ops s ! i = Op_Running \<Longrightarrow> out ! i = None \<Longrightarrow>
    wa_step out s (wrap_awaitable_throws i s)"
| complete: "wa_result s = None \<Longrightarrow> \<forall>p\<in>set (wa_ops s). token_result p \<noteq> None \<Longrightarrow>
    wa_step out s (when_all_returns s)"

inductive_cases wa_stepE: "wa_step out s t"

abbreviation wa_reach :: "'r option list \<Rightarrow> 'r when_all \<Rightarrow> bool" where
  "wa_reach out s \<equiv> (wa_step out)\<^sup>*\<^sup>* (when_all_start (length out)) s"

section \<open>Invariants\<close>

definition wa_ok :: "'r option list \<Rightarrow> 'r when_all \<Rightarrow> bool" where
  "wa_ok out s \<longleftrightarrow>
     length (wa_ops s) = length out \<and>
     (\<forall>i<length out. wa_ops s ! i = Op_Running \<or>
        wa_ops s ! i = (case out ! i of Some r \<Rightarrow> Op_Token r | None \<Rightarrow> Op_Thrown)) \<and>
     distinct (wa_orders s) \<and> (\<forall>i. i \<in> set (wa_orders s) \<longleftrightarrow> i < length out \<and> token_result (wa_ops s ! i) \<noteq> None) \<and>
     (case wa_result s of None \<Rightarrow> True
      | Some rs \<Rightarrow> map Some rs = out \<and> (\<forall>p\<in>set (wa_ops s). token_result p \<noteq> None))"

lemma wa_ok_start: "wa_ok out (when_all_start (length out))"
  by (simp add: wa_ok_def when_all_start_def)

lemma tokens_are_results:
  assumes "wa_ok out s" and "\<forall>p\<in>set (wa_ops s). token_result p \<noteq> None"
  shows "map Some (map (\<lambda>p. the (token_result p)) (wa_ops s)) = out"
proof (rule nth_equalityI)
  show len: "length (map Some (map (\<lambda>p. the (token_result p)) (wa_ops s))) = length out"
    using assms(1) by (simp add: wa_ok_def)
  fix i assume "i < length (map Some (map (\<lambda>p. the (token_result p)) (wa_ops s)))"
  then have i: "i < length out" "i < length (wa_ops s)" using len by simp_all
  then have "token_result (wa_ops s ! i) \<noteq> None" using assms(2) by simp
  moreover have "wa_ops s ! i = Op_Running \<or> wa_ops s ! i = (case out ! i of Some r \<Rightarrow> Op_Token r | None \<Rightarrow> Op_Thrown)"
    using assms(1) i(1) by (simp add: wa_ok_def)
  ultimately show "map Some (map (\<lambda>p. the (token_result p)) (wa_ops s)) ! i = out ! i"
    using i by (auto split: option.splits)
qed

lemma running_unreturned:
  "wa_ok out s \<Longrightarrow> i < length (wa_ops s) \<Longrightarrow> wa_ops s ! i = Op_Running \<Longrightarrow> wa_result s = None"
  using nth_mem [of i "wa_ops s"] by (cases "wa_result s") (auto simp: wa_ok_def)

lemma wa_ok_step: "wa_step out s t \<Longrightarrow> wa_ok out s \<Longrightarrow> wa_ok out t"
proof (induction rule: wa_step.induct)
  case (returns i s r)
  then show ?case using running_unreturned [OF returns(4,1,2)]
    by (auto simp: wa_ok_def wrap_awaitable_returns_def nth_list_update)
next
  case (throws i s)
  then show ?case using running_unreturned [OF throws(4,1,2)]
    by (auto simp: wa_ok_def wrap_awaitable_throws_def nth_list_update)
next
  case (complete s)
  with tokens_are_results [OF complete(3,2)] show ?case by (simp add: wa_ok_def when_all_returns_def)
qed

lemma wa_reach_ok: "wa_reach out s \<Longrightarrow> wa_ok out s"
  by (induction rule: rtranclp_induct) (auto intro: wa_ok_start wa_ok_step)

text \<open>Every step uses something up: an operation that runs, or the wait.\<close>

definition wa_work :: "'r when_all \<Rightarrow> nat" where
  "wa_work s = length (filter (\<lambda>p. p = Op_Running) (wa_ops s)) + (if wa_result s = None then 1 else 0)"

lemma running_update:
  "i < length ps \<Longrightarrow> ps ! i = Op_Running \<Longrightarrow> p \<noteq> Op_Running \<Longrightarrow>
   length (filter (\<lambda>p. p = Op_Running) (ps[i := p])) < length (filter (\<lambda>p. p = Op_Running) ps)"
proof (induction ps arbitrary: i)
  case (Cons q ps)
  then show ?case by (cases i) auto
qed simp

lemma wa_step_works: "wa_step out s t \<Longrightarrow> wa_work t < wa_work s"
  by (erule wa_stepE)
    (auto simp: wa_work_def wrap_awaitable_returns_def wrap_awaitable_throws_def when_all_returns_def
      dest: running_update)

lemma wa_runs_end: "(wa_step out ^^ n) s t \<Longrightarrow> n + wa_work t \<le> wa_work s"
proof (induction n arbitrary: t)
  case (Suc n)
  then obtain u where "(wa_step out ^^ n) s u" "wa_step out u t" by auto
  with Suc.IH [of u] wa_step_works [of out u t] show ?case by linarith
qed simp

lemma wa_stuck:
  assumes "wa_ok out s" and "\<And>t. \<not> wa_step out s t"
  shows "if None \<in> set out then wa_result s = None else map_option (map Some) (wa_result s) = Some out"
proof (cases "wa_result s")
  case None
  have settled: "wa_ops s ! i = (case out ! i of Some r \<Rightarrow> Op_Token r | None \<Rightarrow> Op_Thrown)"
    if "i < length out" for i
  proof (rule ccontr)
    assume "wa_ops s ! i \<noteq> (case out ! i of Some r \<Rightarrow> Op_Token r | None \<Rightarrow> Op_Thrown)"
    then have "i < length (wa_ops s)" "wa_ops s ! i = Op_Running" using assms(1) that by (auto simp: wa_ok_def)
    then show False
      using assms(2) wa_step.returns [of i s out] wa_step.throws [of i s out] by (cases "out ! i") auto
  qed
  have "None \<in> set out"
  proof (rule ccontr)
    assume "None \<notin> set out"
    then have "token_result (wa_ops s ! i) \<noteq> None" if "i < length out" for i
      using settled [OF that] nth_mem [OF that] by (auto split: option.splits)
    then have "\<forall>p\<in>set (wa_ops s). token_result p \<noteq> None"
      using assms(1) by (auto simp: wa_ok_def in_set_conv_nth)
    with None assms(2) wa_step.complete show False by blast
  qed
  with None show ?thesis by simp
next
  case (Some rs)
  then have "map Some rs = out" using assms(1) by (simp add: wa_ok_def)
  with Some show ?thesis by auto
qed

lemma wa_returned_stuck: "wa_ok out s \<Longrightarrow> wa_step out s t \<Longrightarrow> wa_result s = None"
  by (erule wa_stepE) (auto dest: running_unreturned)

section \<open>Properties\<close>

text \<open>
  C35. However the operations overtake one another, \<open>when\_all\<close> ends: it makes at most one step more
  than there are operations; while it can go on it has not returned; and where it cannot, it has returned
  the results in the order of the operations if none of them threw. If one threw, it never returns.
\<close>

theorem when_all_ends:
  assumes "(wa_step out ^^ k) (when_all_start (length out)) s"
  shows "k \<le> Suc (length out) \<and>
    (if \<exists>t. wa_step out s t then wa_result s = None
     else if None \<in> set out then wa_result s = None
     else map_option (map Some) (wa_result s) = Some out)"
proof
  show "k \<le> Suc (length out)"
    using wa_runs_end [OF assms] by (simp add: wa_work_def when_all_start_def split: if_splits)
  have ok: "wa_ok out s" by (rule wa_reach_ok [OF relpowp_imp_rtranclp [OF assms]])
  show "if \<exists>t. wa_step out s t then wa_result s = None
     else if None \<in> set out then wa_result s = None
     else map_option (map Some) (wa_result s) = Some out"
  proof (cases "\<exists>t. wa_step out s t")
    case True
    with wa_returned_stuck [OF ok] show ?thesis by auto
  next
    case False
    then show ?thesis unfolding if_not_P [OF False] using wa_stuck [OF ok] by blast
  qed
qed

text \<open>Two operations, the second one returns first.\<close>

theorem when_all_ends_witness:
  "let s = when_all_returns (wrap_awaitable_returns 0 5 (wrap_awaitable_returns 1 (7 :: nat)
      (when_all_start (length [Some 5, Some (7 :: nat)]))))
   in wa_result s = Some [5, 7] \<and> wa_orders s = [1, 0] \<and>
      (if \<exists>t. wa_step [Some 5, Some 7] s t then wa_result s = None
       else if None \<in> set [Some 5, Some (7 :: nat)] then wa_result s = None
       else map_option (map Some) (wa_result s) = Some [Some 5, Some 7])"
proof -
  let ?out = "[Some 5, Some (7 :: nat)]" and ?a = "when_all_start (length [Some 5, Some (7 :: nat)])"
  let ?b = "wrap_awaitable_returns 1 7 ?a"
  let ?c = "wrap_awaitable_returns 0 5 ?b"
  note defs = when_all_start_def wrap_awaitable_returns_def eval_nat_numeral
  have "wa_step ?out ?a ?b" "wa_step ?out ?b ?c" "wa_step ?out ?c (when_all_returns ?c)"
    by (rule wa_step.returns wa_step.complete; simp add: defs)+
  then have "(wa_step ?out ^^ 3) ?a (when_all_returns ?c)" by (auto simp: eval_nat_numeral)
  note run = when_all_ends [OF this, THEN conjunct2]
  show ?thesis unfolding Let_def
  proof (intro conjI)
    show "wa_result (when_all_returns ?c) = Some [5, 7]" "wa_orders (when_all_returns ?c) = [1, 0]"
      by (simp_all add: when_all_returns_def defs)
  qed (rule run)
qed

end
