(* ===== verification/Client.thy ===== *)
theory Client
  imports Http_Message
begin

text \<open>
  The HTTP client (\<open>lib/client/client_impl.cpp\<close>, \<open>client.cpp\<close>): how it makes a request,
  sends it over a connection it opens or reuses, reads the response, and tries once more when the
  connection turns out to be lost. Sockets, resolver, parsers and serializers are the parameter
  \<open>client\_api\<close>; an operation of it that fails throws.
\<close>

section \<open>The client\<close>

datatype ec =
    Connection_Aborted
  | Connection_Reset
  | End_Of_Stream
  | Invalid_Argument
  | Not_Connected
  | Protocol_Not_Supported
  | Other_Error nat

datatype thrown = System_Error ec | Other_Exception

datatype timeout_policy = Overall | Step | Never

text \<open>
  A chunk handler is given the rest of a chunk as far as it is there, and may set an error. The
  callback that the parser is given says how much of the chunk it has taken.
\<close>

type_synonym chunk_handler = "string \<Rightarrow> ec option"

type_synonym chunk_callback = "nat \<Rightarrow> string \<Rightarrow> nat \<times> ec option"

record ('f, 'j) client_request =
  cr_method :: verb
  cr_target :: string
  cr_version :: nat
  cr_fields :: 'f
  cr_body :: "'j any_value"

record ('s, 'e, 'q, 'z, 'h, 'p, 'r) client_api =
  ca_new_stream :: "string \<Rightarrow> bool \<Rightarrow> thrown + 's"
  ca_literal :: "string \<Rightarrow> nat \<Rightarrow> 'e option"
  ca_resolve :: "string \<Rightarrow> string \<Rightarrow> thrown + 'e list"
  ca_connect :: "'s \<Rightarrow> 'e list \<Rightarrow> 's \<times> thrown option"
  ca_is_open :: "'s \<Rightarrow> bool"
  ca_close :: "'s \<Rightarrow> 's"
  ca_expires_after :: "nat \<Rightarrow> 's \<Rightarrow> 's"
  ca_expires_never :: "'s \<Rightarrow> 's"
  ca_serializer :: "'q \<Rightarrow> 'z"
  ca_serializer_done :: "'z \<Rightarrow> bool"
  ca_write_some :: "'s \<Rightarrow> 'z \<Rightarrow> 's \<times> 'z \<times> thrown option"
  ca_header_parser :: 'h
  ca_header_done :: "'h \<Rightarrow> bool"
  ca_read_header :: "'s \<Rightarrow> string \<Rightarrow> 'h \<Rightarrow> 's \<times> string \<times> 'h \<times> thrown option"
  ca_body_parser :: "'h \<Rightarrow> 'p"
  ca_on_chunk_body :: "chunk_callback \<Rightarrow> 'p \<Rightarrow> 'p"
  ca_body_done :: "'p \<Rightarrow> bool"
  ca_read_body :: "'s \<Rightarrow> string \<Rightarrow> 'p \<Rightarrow> 's \<times> string \<times> 'p \<times> thrown option"
  ca_keep_alive :: "'p \<Rightarrow> bool"
  ca_release :: "'p \<Rightarrow> 'r"

record 's http_client =
  cl_host :: string
  cl_port :: nat
  cl_use_ssl :: bool
  cl_policy :: timeout_policy
  cl_timeout :: nat
  cl_stream :: "'s option"
  cl_buffer :: string
  cl_chunk_handler :: "chunk_callback option"

definition client_new :: "string \<Rightarrow> nat \<Rightarrow> bool \<Rightarrow> 's http_client" where
  "client_new host port ssl =
     \<lparr>cl_host = host, cl_port = port, cl_use_ssl = ssl, cl_policy = Overall, cl_timeout = 30,
      cl_stream = None, cl_buffer = [], cl_chunk_handler = None\<rparr>"

definition set_timeout_policy :: "timeout_policy \<Rightarrow> 's http_client \<Rightarrow> 's http_client" where
  "set_timeout_policy policy cl = cl\<lparr>cl_policy := policy\<rparr>"

definition set_timeout :: "nat \<Rightarrow> 's http_client \<Rightarrow> 's http_client" where
  "set_timeout duration cl = cl\<lparr>cl_timeout := duration\<rparr>"

text \<open>The callback takes all that remains of the chunk, not just what it was given.\<close>

definition set_chunk_handler :: "chunk_handler option \<Rightarrow> 's http_client \<Rightarrow> 's http_client" where
  "set_chunk_handler handler cl =
     cl\<lparr>cl_chunk_handler :=
       (case handler of None \<Rightarrow> None | Some h \<Rightarrow> Some (\<lambda>remain body. (remain, h body)))\<rparr>"

section \<open>Requests\<close>

text \<open>The headers given are the entries of the container in its order.\<close>

definition make_http_request ::
  "'f fields_api \<Rightarrow> string \<Rightarrow> creators \<Rightarrow> 's http_client \<Rightarrow> verb \<Rightarrow> string \<Rightarrow> (field \<times> string) list \<Rightarrow>
   ('f, 'j) client_request" where
  "make_http_request A version cs cl m path headers =
     (let host = (if (cl_use_ssl cl \<and> cl_port cl \<noteq> 443) \<or> (\<not> cl_use_ssl cl \<and> cl_port cl \<noteq> 80)
                  then cl_host cl @ '':'' @ dec_nat (cl_port cl) else cl_host cl);
          f0 = fa_set A F_accept ''*/*''
                 (fa_set A F_user_agent version (fa_set A F_host host (fa_empty A)));
          encoding = supported_encoding cs;
          f1 = (if cl_chunk_handler cl = None \<and> encoding \<noteq> []
                then fa_set A F_accept_encoding (join '','' encoding) f0 else f0);
          f2 = foldl (\<lambda>f (n, v). fa_set A n v f) f1 headers
      in \<lparr>cr_method = m, cr_target = path, cr_version = 11,
          cr_fields = fa_set_keep_alive A 11 True f2, cr_body = V_Empty\<rparr>)"

definition get_target :: "string \<Rightarrow> query_params \<Rightarrow> string" where
  "get_target path params = (if qp_empty params then path else path @ ''?'' @ qp_encoded params)"

definition get_request ::
  "'f fields_api \<Rightarrow> string \<Rightarrow> creators \<Rightarrow> 's http_client \<Rightarrow> string \<Rightarrow> query_params \<Rightarrow>
   (field \<times> string) list \<Rightarrow> ('f, 'j) client_request" where
  "get_request A version cs cl path params headers =
     make_http_request A version cs cl V_get (get_target path params) headers"

definition head_request ::
  "'f fields_api \<Rightarrow> string \<Rightarrow> creators \<Rightarrow> 's http_client \<Rightarrow> string \<Rightarrow> (field \<times> string) list \<Rightarrow>
   ('f, 'j) client_request" where
  "head_request A version cs cl path headers = make_http_request A version cs cl V_head path headers"

definition post_request ::
  "'f fields_api \<Rightarrow> string \<Rightarrow> creators \<Rightarrow> 's http_client \<Rightarrow> string \<Rightarrow> string \<Rightarrow>
   (field \<times> string) list \<Rightarrow> ('f, 'j) client_request" where
  "post_request A version cs cl path body headers =
     (let req = make_http_request A version cs cl V_post path headers
      in req\<lparr>cr_fields := fa_set_content_length A (length body) (cr_fields req), cr_body := V_String body\<rparr>)"

text \<open>\<open>prepare\_payload\<close> of Beast is a parameter.\<close>

definition post_json_request ::
  "'f fields_api \<Rightarrow> (('f, 'j) client_request \<Rightarrow> 'f) \<Rightarrow> string \<Rightarrow> creators \<Rightarrow> 's http_client \<Rightarrow> string \<Rightarrow> 'j \<Rightarrow>
   (field \<times> string) list \<Rightarrow> ('f, 'j) client_request" where
  "post_json_request A prepare_payload version cs cl path body headers =
     (let req = make_http_request A version cs cl V_post path headers;
          req1 = req\<lparr>cr_fields := fa_set A F_content_type ''application/json'' (cr_fields req),
                     cr_body := V_Json body\<rparr>
      in req1\<lparr>cr_fields := prepare_payload req1\<rparr>)"

section \<open>The connection\<close>

definition client_is_open :: "('s, 'e, 'q, 'z, 'h, 'p, 'r) client_api \<Rightarrow> 's http_client \<Rightarrow> bool" where
  "client_is_open C cl = (case cl_stream cl of None \<Rightarrow> False | Some s \<Rightarrow> ca_is_open C s)"

definition client_close ::
  "('s, 'e, 'q, 'z, 'h, 'p, 'r) client_api \<Rightarrow> 's http_client \<Rightarrow> 's http_client" where
  "client_close C cl =
     cl\<lparr>cl_stream := map_option (\<lambda>s. ca_close C (ca_expires_never C s)) (cl_stream cl)\<rparr>"

definition expires_after ::
  "('s, 'e, 'q, 'z, 'h, 'p, 'r) client_api \<Rightarrow> timeout_policy \<Rightarrow> nat \<Rightarrow> bool \<Rightarrow> 's \<Rightarrow> 's" where
  "expires_after C policy timeout first s =
     (case policy of
        Step \<Rightarrow> ca_expires_after C timeout s
      | Never \<Rightarrow> ca_expires_never C s
      | Overall \<Rightarrow> if \<not> first then s else ca_expires_after C timeout s)"

definition client_expires ::
  "('s, 'e, 'q, 'z, 'h, 'p, 'r) client_api \<Rightarrow> 's http_client \<Rightarrow> bool \<Rightarrow> 's \<Rightarrow> 's" where
  "client_expires C cl first = expires_after C (cl_policy cl) (cl_timeout cl) first"

definition client_connect ::
  "('s, 'e, 'q, 'z, 'h, 'p, 'r) client_api \<Rightarrow> 's http_client \<Rightarrow> 's http_client \<times> (thrown + 's)" where
  "client_connect C cl =
     (case ca_new_stream C (cl_host cl) (cl_use_ssl cl) of
        Inl e \<Rightarrow> (cl, Inl e)
      | Inr s \<Rightarrow>
          let connect = (\<lambda>endpoints.
            case ca_connect C (client_expires C cl True s) endpoints of
              (s', Some e) \<Rightarrow> (cl\<lparr>cl_stream := Some s'\<rparr>, Inl e)
            | (s', None) \<Rightarrow> (cl\<lparr>cl_stream := Some s'\<rparr>, Inr s'))
          in case ca_literal C (cl_host cl) (cl_port cl) of
               Some endpoint \<Rightarrow> connect [endpoint]
             | None \<Rightarrow>
                 (case ca_resolve C (cl_host cl) (dec_nat (cl_port cl)) of
                    Inl e \<Rightarrow> (cl\<lparr>cl_stream := Some s\<rparr>, Inl e)
                  | Inr endpoints \<Rightarrow> connect endpoints))"

section \<open>Sending a request\<close>

text \<open>The loops; \<open>ex\<close> is what \<open>expires\_after\<close> does to the stream before each step.\<close>

partial_function (option) write_request ::
  "('s, 'e, 'q, 'z, 'h, 'p, 'r) client_api \<Rightarrow> ('s \<Rightarrow> 's) \<Rightarrow> 's \<Rightarrow> 'z \<Rightarrow> ('s \<times> thrown option) option" where
  "write_request C ex s z =
     (if ca_serializer_done C z then Some (s, None)
      else
        (case ca_write_some C (ex s) z of
           (s', z', e) \<Rightarrow> if e \<noteq> None then Some (s', e) else write_request C ex s' z'))"

partial_function (option) read_header ::
  "('s, 'e, 'q, 'z, 'h, 'p, 'r) client_api \<Rightarrow> ('s \<Rightarrow> 's) \<Rightarrow> 's \<Rightarrow> string \<Rightarrow> 'h \<Rightarrow>
   ('s \<times> string \<times> 'h \<times> thrown option) option" where
  "read_header C ex s buf h =
     (if ca_header_done C h then Some (s, buf, h, None)
      else
        (case ca_read_header C (ex s) buf h of
           (s', buf', h', e) \<Rightarrow> if e \<noteq> None then Some (s', buf', h', e) else read_header C ex s' buf' h'))"

partial_function (option) read_response ::
  "('s, 'e, 'q, 'z, 'h, 'p, 'r) client_api \<Rightarrow> ('s \<Rightarrow> 's) \<Rightarrow> 's \<Rightarrow> string \<Rightarrow> 'p \<Rightarrow>
   ('s \<times> string \<times> 'p \<times> thrown option) option" where
  "read_response C ex s buf p =
     (if ca_body_done C p then Some (s, buf, p, None)
      else
        (case ca_read_body C (ex s) buf p of
           (s', buf', p', e) \<Rightarrow> if e \<noteq> None then Some (s', buf', p', e) else read_response C ex s' buf' p'))"

declare write_request.simps [code] read_header.simps [code] read_response.simps [code]

definition install_chunk_handler ::
  "('s, 'e, 'q, 'z, 'h, 'p, 'r) client_api \<Rightarrow> 's http_client \<Rightarrow> 'p \<Rightarrow> 'p" where
  "install_chunk_handler C cl p =
     (case cl_chunk_handler cl of None \<Rightarrow> p | Some cb \<Rightarrow> ca_on_chunk_body C cb p)"

definition finish_exchange ::
  "('s, 'e, 'q, 'z, 'h, 'p, 'r) client_api \<Rightarrow> 's http_client \<Rightarrow> 's \<Rightarrow> string \<Rightarrow> 'p \<Rightarrow>
   's http_client \<times> (thrown + 'r)" where
  "finish_exchange C cl s buf p =
     (let cl' = cl\<lparr>cl_stream := Some (ca_expires_never C s), cl_buffer := buf\<rparr>
      in (if \<not> ca_keep_alive C p then client_close C cl' else cl', Inr (ca_release C p)))"

text \<open>What happens on the stream once it is connected.\<close>

definition exchange_on ::
  "('s, 'e, ('f, 'j) client_request, 'z, 'h, 'p, 'r) client_api \<Rightarrow> ('f, 'j) client_request \<Rightarrow>
   's http_client \<Rightarrow> 's \<Rightarrow> ('s http_client \<times> (thrown + 'r)) option" where
  "exchange_on C req cl s =
     (let ex = client_expires C cl False
      in Option.bind (write_request C ex s (ca_serializer C req)) (\<lambda>(s1, e1).
           case e1 of
             Some e \<Rightarrow> Some (cl\<lparr>cl_stream := Some s1\<rparr>, Inl e)
           | None \<Rightarrow>
               Option.bind (read_header C ex s1 (cl_buffer cl) (ca_header_parser C)) (\<lambda>(s2, b2, h, e2).
                 case e2 of
                   Some e \<Rightarrow> Some (cl\<lparr>cl_stream := Some s2, cl_buffer := b2\<rparr>, Inl e)
                 | None \<Rightarrow>
                     let p = install_chunk_handler C cl (ca_body_parser C h)
                     in Option.bind
                          (if cr_method req \<noteq> V_head then read_response C ex s2 b2 p
                           else Some (s2, b2, p, None)) (\<lambda>(s3, b3, p', e3).
                          case e3 of
                            Some e \<Rightarrow> Some (cl\<lparr>cl_stream := Some s3, cl_buffer := b3\<rparr>, Inl e)
                          | None \<Rightarrow> Some (finish_exchange C cl s3 b3 p')))))"

definition async_send_request_impl ::
  "('s, 'e, ('f, 'j) client_request, 'z, 'h, 'p, 'r) client_api \<Rightarrow> ('f, 'j) client_request \<Rightarrow>
   's http_client \<Rightarrow> ('s http_client \<times> (thrown + 'r)) option" where
  "async_send_request_impl C req cl =
     (case (case cl_stream cl of
              Some s \<Rightarrow> if ca_is_open C s then (cl, Inr s) else client_connect C cl
            | None \<Rightarrow> client_connect C cl) of
        (cl1, Inl e) \<Rightarrow> Some (cl1, Inl e)
      | (cl1, Inr s) \<Rightarrow> exchange_on C req cl1 s)"

definition thrown_code :: "thrown \<Rightarrow> ec" where
  "thrown_code t = (case t of System_Error e \<Rightarrow> e | Other_Exception \<Rightarrow> Invalid_Argument)"

definition connection_lost :: "ec \<Rightarrow> bool" where
  "connection_lost e \<longleftrightarrow> e \<in> {Connection_Aborted, Connection_Reset, End_Of_Stream}"

function async_send_request ::
  "('s, 'e, ('f, 'j) client_request, 'z, 'h, 'p, 'r) client_api \<Rightarrow> ('f, 'j) client_request \<Rightarrow>
   's http_client \<Rightarrow> bool \<Rightarrow> ('s http_client \<times> (ec + 'r)) option" where
  "async_send_request C req cl retry =
     Option.bind (async_send_request_impl C req cl) (\<lambda>(cl1, r).
       case r of
         Inr resp \<Rightarrow> Some (cl1, Inr resp)
       | Inl t \<Rightarrow>
           let e = thrown_code t; cl2 = client_close C cl1
           in if connection_lost e \<and> retry then async_send_request C req cl2 False
              else Some (cl2, Inl e))"
  by pat_completeness auto
termination by (relation "measure (\<lambda>(C, req, cl, retry). if retry then 1 else 0)") auto

declare async_send_request.simps [simp del]

end
