(* ===== verification/Client_Props.thy ===== *)
theory Client_Props
  imports Client
begin

text \<open>
  What the client promises: requests that the server takes apart into what was asked for, headers that
  are those given, and a connection that is left open only after a whole response that allows it. And
  where it does not do what it means to: a timeout for the whole request is not set on a connection
  that is reused, and bytes left over from one connection are taken for the response of the next.
\<close>

section \<open>Sending\<close>

lemma client_close_closed:
  "(\<And>s. \<not> ca_is_open C (ca_close C s)) \<Longrightarrow> \<not> client_is_open C (client_close C cl)"
  by (simp add: client_close_def client_is_open_def split: option.split)

lemma read_response_done_all:
  "read_response C ex s buf p = Some r \<Longrightarrow>
   (case r of (_, _, p', e) \<Rightarrow> e = None \<longrightarrow> ca_body_done C p')"
  by (erule read_response.raw_induct [rotated]) (auto split: if_splits prod.splits)

lemma read_response_done: "read_response C ex s buf p = Some (s', buf', p', None) \<Longrightarrow> ca_body_done C p'"
  by (drule read_response_done_all) simp

text \<open>What a response says of the connection it leaves.\<close>

definition settled ::
  "('s, 'e, ('f, 'j) client_request, 'z, 'h, 'p, 'r) client_api \<Rightarrow> ('f, 'j) client_request \<Rightarrow>
   's http_client \<Rightarrow> 'r \<Rightarrow> bool" where
  "settled C req cl resp \<longleftrightarrow>
     (\<exists>p. resp = ca_release C p \<and> (cr_method req = V_head \<or> ca_body_done C p) \<and>
          (ca_keep_alive C p \<or> \<not> client_is_open C cl))"

lemma finish_exchange_settled:
  assumes "\<And>s. \<not> ca_is_open C (ca_close C s)" and "cr_method req = V_head \<or> ca_body_done C p"
    and "finish_exchange C cl s b p = (cl', Inr resp)"
  shows "settled C req cl' resp"
  using assms(2,3) client_close_closed [OF assms(1)] unfolding settled_def
  by (intro exI [of _ p]) (auto simp: finish_exchange_def Let_def split: if_splits)

lemma exchange_on_settled:
  assumes "\<And>s. \<not> ca_is_open C (ca_close C s)" and "exchange_on C req cl s = Some (cl', Inr resp)"
  shows "settled C req cl' resp"
  using assms(2) unfolding exchange_on_def Let_def
  by (auto simp: bind_eq_Some_conv dest!: read_response_done
      dest: finish_exchange_settled [OF assms(1) disjI1] finish_exchange_settled [OF assms(1) disjI2]
      split: option.splits if_splits)

lemma impl_settled:
  assumes "\<And>s. \<not> ca_is_open C (ca_close C s)"
    and "async_send_request_impl C req cl = Some (cl', Inr resp)"
  shows "settled C req cl' resp"
  using assms(2) exchange_on_settled [OF assms(1)]
  by (auto simp: async_send_request_impl_def split: option.splits if_splits prod.splits sum.splits)

definition send_settled ::
  "('s, 'e, ('f, 'j) client_request, 'z, 'h, 'p, 'r) client_api \<Rightarrow> ('f, 'j) client_request \<Rightarrow>
   ('s http_client \<times> (ec + 'r)) option \<Rightarrow> bool" where
  "send_settled C req res =
     (case res of
        None \<Rightarrow> True
      | Some (cl, Inl e) \<Rightarrow> \<not> client_is_open C cl
      | Some (cl, Inr resp) \<Rightarrow> settled C req cl resp)"

lemma send_settled_step:
  assumes "\<And>s. \<not> ca_is_open C (ca_close C s)"
    and "\<And>cl. retry \<Longrightarrow> send_settled C req (async_send_request C req cl False)"
  shows "send_settled C req (async_send_request C req cl retry)"
proof (cases "async_send_request_impl C req cl")
  case None
  then show ?thesis by (simp add: async_send_request.simps send_settled_def)
next
  case (Some q)
  then obtain cl1 r where r: "async_send_request_impl C req cl = Some (cl1, r)" by (cases q) auto
  show ?thesis
  proof (cases r)
    case (Inl t)
    with r assms(2) client_close_closed [OF assms(1)] show ?thesis
      by (subst async_send_request.simps) (simp add: Let_def, simp add: send_settled_def)
  next
    case (Inr resp)
    with r impl_settled [OF assms(1)] show ?thesis
      by (subst async_send_request.simps) (simp add: send_settled_def)
  qed
qed

section \<open>The target\<close>

lemma url_decode_nonempty: "url_decode s = Inr t \<Longrightarrow> s \<noteq> [] \<Longrightarrow> t \<noteq> []"
  by (cases s) (auto simp: url_decode_text rmap_def split: if_splits list.splits sum.splits)

text \<open>What the server finds in the target of a GET.\<close>

lemma get_request_seen_by_server:
  assumes "path \<noteq> []" and "CHR ''?'' \<notin> set path" and "url_decode path = Inr path'"
  shows "\<exists>r. request_new remote (cr_method (get_request A version cs cl path params headers))
        (cr_target (get_request A version cs cl path params headers)) 11 f body = Inr r \<and>
      rq_method r = V_get \<and> rq_fields r = f \<and> request_path r = path' \<and>
      rq_query_params r = map arrived params"
proof (cases "params = []")
  case True
  with assms url_decode_nonempty [OF assms(3,1)] show ?thesis
    by (simp add: find_sub_char get_request_def make_http_request_def Let_def get_target_def qp_empty_def
        request_new_def request_path_def)
next
  case False
  have "find_sub ''?'' (path @ ''?'' @ qp_encoded params) = Some (length path)"
    using find_sub_char_append [OF assms(2)] by simp
  with assms False url_decode_nonempty [OF assms(3,1)] show ?thesis
    by (simp add: get_request_def make_http_request_def Let_def get_target_def qp_empty_def
        request_new_def request_path_def qp_decode_arrived)
qed

section \<open>Properties\<close>

text \<open>
  C21. A connection is left open only after a response that has been read to its end, but for HEAD, and
  that allows keeping it; after a failure, of the first attempt or of the second, it is closed.
\<close>

theorem client_connection_settled:
  assumes "\<And>s. \<not> ca_is_open C (ca_close C s)"
  shows "case async_send_request C req cl retry of
      None \<Rightarrow> True
    | Some (cl', Inl e) \<Rightarrow> \<not> client_is_open C cl'
    | Some (cl', Inr resp) \<Rightarrow>
        \<exists>p. resp = ca_release C p \<and> (cr_method req = V_head \<or> ca_body_done C p) \<and>
            (ca_keep_alive C p \<or> \<not> client_is_open C cl')"
proof -
  have "send_settled C req (async_send_request C req cl False)" for cl
    by (rule send_settled_step [OF assms]) simp_all
  then have "send_settled C req (async_send_request C req cl retry)"
    by (rule send_settled_step [OF assms])
  then show ?thesis by (simp only: send_settled_def settled_def)
qed

text \<open>A connection as a script: what it will deliver, what was sent on it, and its timer.\<close>

record wire =
  wi_open :: bool
  wi_in :: string
  wi_out :: "string list"
  wi_timer :: "nat option"

text \<open>A response is one letter; \<open>k\<close> keeps the connection.\<close>

definition wire_api ::
  "string \<Rightarrow> (wire, unit, (plain_fields, string) client_request, string option, char option, char, char) client_api"
where
  "wire_api input =
     \<lparr>ca_new_stream = (\<lambda>host ssl. Inr \<lparr>wi_open = False, wi_in = input, wi_out = [], wi_timer = None\<rparr>),
      ca_literal = (\<lambda>host port. if host = ''::1'' then Some () else None),
      ca_resolve = (\<lambda>host port. Inr [()]),
      ca_connect = (\<lambda>s eps. (s\<lparr>wi_open := True\<rparr>, None)),
      ca_is_open = wi_open, ca_close = (\<lambda>s. s\<lparr>wi_open := False\<rparr>),
      ca_expires_after = (\<lambda>t s. s\<lparr>wi_timer := Some t\<rparr>), ca_expires_never = (\<lambda>s. s\<lparr>wi_timer := None\<rparr>),
      ca_serializer = (\<lambda>q. Some (cr_target q)), ca_serializer_done = (\<lambda>z. z = None),
      ca_write_some = (\<lambda>s z. (case z of None \<Rightarrow> s | Some t \<Rightarrow> s\<lparr>wi_out := wi_out s @ [t]\<rparr>, None, None)),
      ca_header_parser = None, ca_header_done = (\<lambda>h. h \<noteq> None),
      ca_read_header = (\<lambda>s buf h.
        case buf of
          c # cs \<Rightarrow> (s, cs, Some c, None)
        | [] \<Rightarrow> (case wi_in s of
                  [] \<Rightarrow> (s, [], None, Some (System_Error End_Of_Stream))
                | c # cs \<Rightarrow> (s\<lparr>wi_in := []\<rparr>, cs, Some c, None))),
      ca_body_parser = (\<lambda>h. case h of None \<Rightarrow> CHR ''?'' | Some c \<Rightarrow> c),
      ca_on_chunk_body = (\<lambda>cb p. p), ca_body_done = (\<lambda>p. True),
      ca_read_body = (\<lambda>s buf p. (s, buf, p, None)),
      ca_keep_alive = (\<lambda>p. p = CHR ''k''), ca_release = (\<lambda>p. p)\<rparr>"

definition wire_request :: "(plain_fields, string) client_request" where
  "wire_request = get_request plain_api ''httplib'' (compressor_factory True) (client_new ''::1'' 81 False :: wire http_client)
     ''/a'' [(''k'', ''v'')] []"

lemma wire_closes: "\<not> ca_is_open (wire_api input) (ca_close (wire_api input) s)"
  by (simp add: wire_api_def)

theorem client_connection_settled_witness:
  "map_option snd (async_send_request (wire_api ''k'') wire_request (client_new ''::1'' 81 False) True) =
     Some (Inr CHR ''k'') \<and>
   (case async_send_request (wire_api ''k'') wire_request (client_new ''::1'' 81 False) True of
      None \<Rightarrow> True
    | Some (cl', Inl e) \<Rightarrow> \<not> client_is_open (wire_api ''k'') cl'
    | Some (cl', Inr resp) \<Rightarrow>
        \<exists>p. resp = ca_release (wire_api ''k'') p \<and>
            (cr_method wire_request = V_head \<or> ca_body_done (wire_api ''k'') p) \<and>
            (ca_keep_alive (wire_api ''k'') p \<or> \<not> client_is_open (wire_api ''k'') cl'))"
proof
  show "map_option snd (async_send_request (wire_api ''k'') wire_request (client_new ''::1'' 81 False) True) =
      Some (Inr CHR ''k'')"
    by code_simp
qed (rule client_connection_settled [OF wire_closes])

text \<open>
  The headers of a request: the last value given for a field, or else the default one, where Host
  names the port unless it is the default port of the scheme, and Accept-Encoding is sent unless the
  caller takes the chunks itself; and the connection is to be kept.
\<close>

theorem request_headers:
  assumes "fields_laws A"
  shows "fa_keep_alive A 11 (cr_fields (make_http_request A version cs cl m path headers)) \<and>
    fa_find A (cr_fields (make_http_request A version cs cl m path headers)) n =
      (case map_of (rev headers) n of
         Some v \<Rightarrow> Some v
       | None \<Rightarrow>
           if n = F_host
           then Some (if cl_port cl = (if cl_use_ssl cl then 443 else 80) then cl_host cl
                      else cl_host cl @ '':'' @ dec_nat (cl_port cl))
           else if n = F_user_agent then Some version
           else if n = F_accept then Some ''*/*''
           else if n = F_accept_encoding \<and> cl_chunk_handler cl = None \<and> supported_encoding cs \<noteq> []
           then Some (join '','' (supported_encoding cs))
           else None)"
proof -
  note laws = fields_laws_simps [OF assms]
  have given: "fa_find A (foldl (\<lambda>f (n, v). fa_set A n v f) f hs) n =
      (case map_of (rev hs) n of Some v \<Rightarrow> Some v | None \<Rightarrow> fa_find A f n)" for f hs
  proof (induction hs rule: rev_induct)
    case (snoc h hs)
    then show ?case by (cases h) (simp add: laws)
  qed simp
  show ?thesis
    unfolding make_http_request_def Let_def
    by (simp add: given laws split: option.split)
qed

theorem request_headers_witness:
  "fa_keep_alive plain_api 11 (cr_fields wire_request) \<and>
   fa_find plain_api (cr_fields wire_request) F_host = Some ''::1:81''"
proof -
  have "dec_nat 81 = ''81''" by code_simp
  then show ?thesis
    using request_headers [OF plain_laws, of "''httplib''" "compressor_factory True"
        "client_new ''::1'' 81 False :: wire http_client" V_get "get_target ''/a'' [(''k'', ''v'')]" "[]" F_host]
    by (simp add: wire_request_def get_request_def client_new_def)
qed

text \<open>
  The timeout of a client has no effect on a request that goes over a connection left open by the
  one before, when it is meant for the request as a whole: everything is the same for any other value,
  since the timer is set only when a connection is made.
\<close>

theorem overall_timeout_not_set_on_reuse:
  assumes "client_is_open C cl" and "cl_policy cl = Overall"
  shows "async_send_request_impl C req (cl\<lparr>cl_timeout := d\<rparr>) =
    map_option (\<lambda>(cl', r). (cl'\<lparr>cl_timeout := d\<rparr>, r)) (async_send_request_impl C req cl)"
proof -
  obtain s where s: "cl_stream cl = Some s" "ca_is_open C s"
    using assms(1) by (auto simp: client_is_open_def split: option.splits)
  have ex: "client_expires C (cl\<lparr>cl_timeout := d\<rparr>) False = client_expires C cl False"
    using assms(2) by (simp add: fun_eq_iff client_expires_def expires_after_def)
  have chunk: "install_chunk_handler C (cl\<lparr>cl_timeout := d\<rparr>) = install_chunk_handler C cl"
    by (simp add: fun_eq_iff install_chunk_handler_def)
  let ?g = "\<lambda>cl'. cl'\<lparr>cl_timeout := d\<rparr>"
  have fin: "finish_exchange C (?g cl) s b p = (\<lambda>(cl', r). (?g cl', r)) (finish_exchange C cl s b p)" for s b p
    by (simp add: finish_exchange_def client_close_def Let_def)
  have "exchange_on C req (?g cl) s = map_option (\<lambda>(cl', r). (?g cl', r)) (exchange_on C req cl s)"
    unfolding exchange_on_def ex chunk Let_def
    by (auto simp: fin map_option_bind fun_eq_iff intro!: Option.bind_cong split: option.split prod.split)
  with s show ?thesis by (simp add: async_send_request_impl_def)
qed

theorem overall_timeout_not_set_on_reuse_witness:
  "let cl = (client_new ''::1'' 81 False)\<lparr>cl_stream :=
      Some \<lparr>wi_open = True, wi_in = ''k'', wi_out = [], wi_timer = None\<rparr>\<rparr>
   in async_send_request_impl (wire_api []) wire_request (cl\<lparr>cl_timeout := 1\<rparr>) =
      map_option (\<lambda>(cl', r). (cl'\<lparr>cl_timeout := 1\<rparr>, r)) (async_send_request_impl (wire_api []) wire_request cl)"
  unfolding Let_def
  by (rule overall_timeout_not_set_on_reuse) (simp_all add: client_is_open_def client_new_def wire_api_def)

lemma client_connect_frame:
  assumes "client_connect C cl = (cl1, r)"
  shows "cl_buffer cl1 = cl_buffer cl" and "cl_chunk_handler cl1 = cl_chunk_handler cl"
  using assms
  by (auto simp: client_connect_def Let_def split: sum.splits option.splits prod.splits)

text \<open>
  C38. The buffer of a client outlives its connections: when bytes left over from an old connection
  are a whole response, the request sent over the new one is answered by them, whatever the server
  says.
\<close>

theorem stale_bytes_answer_new_connection:
  assumes "\<not> client_is_open C cl" and "client_connect C cl = (cl1, Inr s)"
    and "write_request C (client_expires C cl1 False) s (ca_serializer C req) = Some (s1, None)"
    and "\<not> ca_header_done C (ca_header_parser C)"
    and "\<And>s. ca_read_header C s (cl_buffer cl) (ca_header_parser C) = (s, rest, h, None)"
    and "ca_header_done C h" and "p = install_chunk_handler C cl (ca_body_parser C h)" and "ca_body_done C p"
  shows "map_option snd (async_send_request_impl C req cl) = Some (Inr (ca_release C p))"
proof -
  have frame: "cl_buffer cl1 = cl_buffer cl" "install_chunk_handler C cl1 = install_chunk_handler C cl"
    using client_connect_frame [OF assms(2)] by (simp_all add: fun_eq_iff install_chunk_handler_def)
  let ?ex = "client_expires C cl1 False"
  have "read_header C ?ex s1 (cl_buffer cl) (ca_header_parser C) = Some (?ex s1, rest, h, None)"
    using assms(4-6) by (subst read_header.simps, subst read_header.simps) simp
  moreover have "read_response C ?ex (?ex s1) rest p = Some (?ex s1, rest, p, None)"
    using assms(8) by (subst read_response.simps) simp
  moreover have "async_send_request_impl C req cl = exchange_on C req cl1 s"
    using assms(1,2) by (auto simp: async_send_request_impl_def client_is_open_def split: option.splits)
  ultimately show ?thesis using assms(3,7)
    by (simp add: exchange_on_def Let_def frame finish_exchange_def)
qed

theorem stale_bytes_answer_new_connection_witness:
  "map_option snd (async_send_request_impl (wire_api ''k'') wire_request
     ((client_new ''::1'' 81 False)\<lparr>cl_buffer := ''z''\<rparr>)) = Some (Inr CHR ''z'')"
proof -
  let ?cl = "(client_new ''::1'' 81 False)\<lparr>cl_buffer := ''z''\<rparr>" and ?C = "wire_api ''k''"
  let ?s = "\<lparr>wi_open = True, wi_in = ''k'', wi_out = [], wi_timer = Some 30\<rparr>"
  let ?cl1 = "?cl\<lparr>cl_stream := Some ?s\<rparr>"
  have connect: "client_connect ?C ?cl = (?cl1, Inr ?s)"
    by (simp add: client_connect_def wire_api_def client_new_def client_expires_def expires_after_def)
  have sent: "write_request ?C (client_expires ?C ?cl1 False) ?s (ca_serializer ?C wire_request) =
      Some (?s\<lparr>wi_out := [cr_target wire_request]\<rparr>, None)"
    by (subst write_request.simps, subst write_request.simps)
      (simp add: wire_api_def client_expires_def expires_after_def client_new_def)
  show ?thesis
    using stale_bytes_answer_new_connection [OF _ connect sent, of "[]" "Some CHR ''z''" "CHR ''z''"]
    by (simp add: client_is_open_def wire_api_def client_new_def install_chunk_handler_def)
qed

end
