(* ===== verification/Streams.thy ===== *)
theory Streams
  imports Client_Props
begin

text \<open>
  The streams (\<open>lib/stream/http_stream.hpp\<close>, \<open>websocket_stream.hpp\<close>): a variant of a
  plain TCP stream and a TLS stream over one, with the operations the sessions and the client use. The
  TCP stream of Beast and the TLS stream of Asio are the parameter \<open>socket\_api\<close>. With it, the
  part of \<open>client\_api\<close> that deals with connections is no parameter any more.
\<close>

section \<open>The variant\<close>

datatype ('k, 't) http_stream = Plain_Stream 'k | Tls_Stream 't 'k

text \<open>
  The TCP stream has its timer and its socket; the TLS stream is a state over it. Creating that state
  fails when the name of the host cannot be set.
\<close>

datatype shutdown_type = Shutdown_Receive | Shutdown_Send | Shutdown_Both

record ('k, 't, 'e) socket_api =
  so_new :: 'k
  so_connect :: "'k \<Rightarrow> 'e list \<Rightarrow> 'k \<times> thrown option"
  so_reuse_address :: "'k \<Rightarrow> 'k \<times> thrown option"
  so_is_open :: "'k \<Rightarrow> bool"
  so_shutdown :: "shutdown_type \<Rightarrow> 'k \<Rightarrow> 'k \<times> ec option"
  so_read_some :: "nat \<Rightarrow> 'k \<Rightarrow> 'k \<times> string \<times> ec option"
  so_write_some :: "string \<Rightarrow> 'k \<Rightarrow> 'k \<times> nat \<times> ec option"
  so_expires_at :: "nat \<Rightarrow> 'k \<Rightarrow> 'k"
  so_close :: "'k \<Rightarrow> 'k"
  so_expires_after :: "nat \<Rightarrow> 'k \<Rightarrow> 'k"
  so_expires_never :: "'k \<Rightarrow> 'k"
  tls_supported :: bool
  tls_new :: "string \<Rightarrow> thrown + 't"
  tls_handshake :: "'t \<Rightarrow> 'k \<Rightarrow> 't \<times> 'k \<times> thrown option"
  tls_shutdown :: "'t \<Rightarrow> 'k \<Rightarrow> 't \<times> 'k"
  tls_read_some :: "nat \<Rightarrow> 't \<times> 'k \<Rightarrow> ('t \<times> 'k) \<times> string \<times> ec option"
  tls_write_some :: "string \<Rightarrow> 't \<times> 'k \<Rightarrow> ('t \<times> 'k) \<times> nat \<times> ec option"

fun lowest_layer :: "('k, 't) http_stream \<Rightarrow> 'k" where
  "lowest_layer (Plain_Stream k) = k"
| "lowest_layer (Tls_Stream t k) = k"

fun on_lowest_layer :: "('k \<Rightarrow> 'k) \<Rightarrow> ('k, 't) http_stream \<Rightarrow> ('k, 't) http_stream" where
  "on_lowest_layer f (Plain_Stream k) = Plain_Stream (f k)"
| "on_lowest_layer f (Tls_Stream t k) = Tls_Stream t (f k)"

section \<open>The operations\<close>

definition stream_is_open :: "('k, 't, 'e) socket_api \<Rightarrow> ('k, 't) http_stream \<Rightarrow> bool" where
  "stream_is_open N s = so_is_open N (lowest_layer s)"

definition stream_expires_after ::
  "('k, 't, 'e) socket_api \<Rightarrow> nat \<Rightarrow> ('k, 't) http_stream \<Rightarrow> ('k, 't) http_stream" where
  "stream_expires_after N d = on_lowest_layer (so_expires_after N d)"

definition stream_expires_never ::
  "('k, 't, 'e) socket_api \<Rightarrow> ('k, 't) http_stream \<Rightarrow> ('k, 't) http_stream" where
  "stream_expires_never N = on_lowest_layer (so_expires_never N)"

definition stream_expires_at ::
  "('k, 't, 'e) socket_api \<Rightarrow> nat \<Rightarrow> ('k, 't) http_stream \<Rightarrow> ('k, 't) http_stream" where
  "stream_expires_at N t = on_lowest_layer (so_expires_at N t)"

text \<open>Bytes go through the TLS stream where there is one; a shutdown only concerns the socket.\<close>

fun stream_read_some ::
  "('k, 't, 'e) socket_api \<Rightarrow> nat \<Rightarrow> ('k, 't) http_stream \<Rightarrow> ('k, 't) http_stream \<times> string \<times> ec option" where
  "stream_read_some N n (Plain_Stream k) = apfst Plain_Stream (so_read_some N n k)"
| "stream_read_some N n (Tls_Stream t k) = apfst (\<lambda>(t', k'). Tls_Stream t' k') (tls_read_some N n (t, k))"

fun stream_write_some ::
  "('k, 't, 'e) socket_api \<Rightarrow> string \<Rightarrow> ('k, 't) http_stream \<Rightarrow> ('k, 't) http_stream \<times> nat \<times> ec option" where
  "stream_write_some N bytes (Plain_Stream k) = apfst Plain_Stream (so_write_some N bytes k)"
| "stream_write_some N bytes (Tls_Stream t k) = apfst (\<lambda>(t', k'). Tls_Stream t' k') (tls_write_some N bytes (t, k))"

definition stream_shutdown ::
  "('k, 't, 'e) socket_api \<Rightarrow> shutdown_type \<Rightarrow> ('k, 't) http_stream \<Rightarrow> ('k, 't) http_stream \<times> ec option" where
  "stream_shutdown N what s =
     (case so_shutdown N what (lowest_layer s) of (k, e) \<Rightarrow> (on_lowest_layer (\<lambda>_. k) s, e))"

text \<open>A TLS stream says goodbye first; errors are dropped all along.\<close>

definition stream_close ::
  "('k, 't, 'e) socket_api \<Rightarrow> ('k, 't) http_stream \<Rightarrow> ('k, 't) http_stream" where
  "stream_close N s =
     on_lowest_layer (\<lambda>k. so_close N (fst (so_shutdown N Shutdown_Both k)))
       (case s of
          Plain_Stream k \<Rightarrow> Plain_Stream k
        | Tls_Stream t k \<Rightarrow> (case tls_shutdown N t k of (t', k') \<Rightarrow> Tls_Stream t' k'))"

fun connect_layers ::
  "('k, 't, 'e) socket_api \<Rightarrow> ('k, 't) http_stream \<Rightarrow> 'e list \<Rightarrow> ('k, 't) http_stream \<times> thrown option" where
  "connect_layers N (Plain_Stream k) endpoints =
     (case so_connect N k endpoints of (k', e) \<Rightarrow> (Plain_Stream k', e))"
| "connect_layers N (Tls_Stream t k) endpoints =
     (case so_connect N k endpoints of
        (k', Some e) \<Rightarrow> (Tls_Stream t k', Some e)
      | (k', None) \<Rightarrow> (case tls_handshake N t k' of (t', k'', e) \<Rightarrow> (Tls_Stream t' k'', e)))"

definition stream_connect ::
  "('k, 't, 'e) socket_api \<Rightarrow> ('k, 't) http_stream \<Rightarrow> 'e list \<Rightarrow> ('k, 't) http_stream \<times> thrown option" where
  "stream_connect N s endpoints =
     (case connect_layers N s endpoints of
        (s', Some e) \<Rightarrow> (s', Some e)
      | (s', None) \<Rightarrow>
          (case so_reuse_address N (lowest_layer s') of
             (k, e) \<Rightarrow> (on_lowest_layer (\<lambda>_. k) s', e)))"

definition create_stream ::
  "('k, 't, 'e) socket_api \<Rightarrow> string \<Rightarrow> bool \<Rightarrow> thrown + ('k, 't) http_stream" where
  "create_stream N host use_ssl =
     (if use_ssl
      then
        if tls_supported N
        then (case tls_new N host of Inl e \<Rightarrow> Inl e | Inr t \<Rightarrow> Inr (Tls_Stream t (so_new N)))
        else Inl (System_Error Protocol_Not_Supported)
      else Inr (Plain_Stream (so_new N)))"

text \<open>A WebSocket stream is made over the stream there is, of its kind.\<close>

datatype ('p, 'q) websocket_stream = Ws_Plain 'p | Ws_Tls 'q

definition websocket_of_stream ::
  "('k \<Rightarrow> 'p) \<Rightarrow> ('t \<Rightarrow> 'k \<Rightarrow> 'q) \<Rightarrow> ('k, 't) http_stream \<Rightarrow> ('p, 'q) websocket_stream" where
  "websocket_of_stream over_plain over_tls s =
     (case s of Plain_Stream k \<Rightarrow> Ws_Plain (over_plain k) | Tls_Stream t k \<Rightarrow> Ws_Tls (over_tls t k))"

section \<open>The client over streams\<close>

definition client_over_streams ::
  "('k, 't, 'e) socket_api \<Rightarrow> (('k, 't) http_stream, 'e, 'q, 'z, 'h, 'p, 'r) client_api \<Rightarrow>
   (('k, 't) http_stream, 'e, 'q, 'z, 'h, 'p, 'r) client_api" where
  "client_over_streams N C =
     C\<lparr>ca_new_stream := create_stream N, ca_connect := stream_connect N,
       ca_is_open := stream_is_open N, ca_close := stream_close N,
       ca_expires_after := stream_expires_after N, ca_expires_never := stream_expires_never N\<rparr>"

lemma client_over_streams_sel [simp]:
  "ca_new_stream (client_over_streams N C) = create_stream N"
  "ca_connect (client_over_streams N C) = stream_connect N"
  "ca_is_open (client_over_streams N C) = stream_is_open N"
  "ca_close (client_over_streams N C) = stream_close N"
  "ca_expires_after (client_over_streams N C) = stream_expires_after N"
  "ca_expires_never (client_over_streams N C) = stream_expires_never N"
  by (simp_all add: client_over_streams_def)

section \<open>Lemmas\<close>

lemma lowest_layer_on [simp]: "lowest_layer (on_lowest_layer f s) = f (lowest_layer s)"
  by (cases s) simp_all

fun is_tls :: "('k, 't) http_stream \<Rightarrow> bool" where
  "is_tls (Plain_Stream k) = False"
| "is_tls (Tls_Stream t k) = True"

lemma is_tls_on [simp]: "is_tls (on_lowest_layer f s) = is_tls s"
  by (cases s) simp_all

lemma is_tls_close [simp]: "is_tls (stream_close N s) = is_tls s"
  by (cases s) (simp_all add: stream_close_def split: prod.split)

lemma is_tls_io:
  "is_tls (fst (stream_read_some N n s)) = is_tls s" "is_tls (fst (stream_write_some N bytes s)) = is_tls s"
  "is_tls (fst (stream_shutdown N what s)) = is_tls s"
  by (cases s; simp add: stream_shutdown_def case_prod_unfold)+

lemma stream_close_closed: "(\<And>k. \<not> so_is_open N (so_close N k)) \<Longrightarrow> \<not> stream_is_open N (stream_close N s)"
  by (simp add: stream_is_open_def stream_close_def)

lemma is_tls_connect: "fst (stream_connect N s endpoints) = s' \<Longrightarrow> is_tls s' = is_tls s"
  by (cases s) (auto simp: stream_connect_def split: prod.splits option.splits)

lemma create_stream_tls: "create_stream N host use_ssl = Inr s \<Longrightarrow> is_tls s = use_ssl"
  by (auto simp: create_stream_def split: if_splits sum.splits)

section \<open>What every stream of a client keeps\<close>

text \<open>A predicate on streams that every operation of a client keeps.\<close>

definition stream_kept ::
  "('s, 'e, 'q, 'z, 'h, 'p, 'r) client_api \<Rightarrow> ('s \<Rightarrow> bool) \<Rightarrow> bool" where
  "stream_kept C P \<longleftrightarrow>
     (\<forall>s. P s \<longrightarrow> P (ca_close C s) \<and> P (ca_expires_never C s) \<and> (\<forall>d. P (ca_expires_after C d s)) \<and>
        (\<forall>eps. P (fst (ca_connect C s eps))) \<and> (\<forall>z. P (fst (ca_write_some C s z))) \<and>
        (\<forall>b h. P (fst (ca_read_header C s b h))) \<and> (\<forall>b p. P (fst (ca_read_body C s b p))))"

lemma stream_keptD:
  assumes "stream_kept C P" and "P s"
  shows "P (ca_close C s)" "P (ca_expires_never C s)" "P (ca_expires_after C d s)"
    "ca_connect C s eps = (s', e) \<Longrightarrow> P s'" "ca_write_some C s z = (s', z', e) \<Longrightarrow> P s'"
    "ca_read_header C s b h = (s', b', h', e) \<Longrightarrow> P s'" "ca_read_body C s b p = (s', b', p', e) \<Longrightarrow> P s'"
proof -
  show "P (ca_close C s)" "P (ca_expires_never C s)" "P (ca_expires_after C d s)"
    using assms by (simp_all add: stream_kept_def)
  have ops: "P (fst (ca_connect C s eps))" "P (fst (ca_write_some C s z))"
    "P (fst (ca_read_header C s b h))" "P (fst (ca_read_body C s b p))"
    using assms by (simp_all add: stream_kept_def)
  show "ca_connect C s eps = (s', e) \<Longrightarrow> P s'" using ops(1) by simp
  show "ca_write_some C s z = (s', z', e) \<Longrightarrow> P s'" using ops(2) by simp
  show "ca_read_header C s b h = (s', b', h', e) \<Longrightarrow> P s'" using ops(3) by simp
  show "ca_read_body C s b p = (s', b', p', e) \<Longrightarrow> P s'" using ops(4) by simp
qed

lemma client_expires_kept: "stream_kept C P \<Longrightarrow> P s \<Longrightarrow> P (client_expires C cl first s)"
  using stream_keptD(2,3) [of C P s]
  by (simp add: client_expires_def expires_after_def split: timeout_policy.split)

lemma write_request_kept:
  "write_request C ex s z = Some r \<Longrightarrow> stream_kept C P \<and> (\<forall>s. P s \<longrightarrow> P (ex s)) \<and> P s \<longrightarrow> P (fst r)"
  by (erule write_request.raw_induct [rotated])
    (auto split: if_splits prod.splits; blast dest: stream_keptD(5))

lemma read_header_kept:
  "read_header C ex s b h = Some r \<Longrightarrow> stream_kept C P \<and> (\<forall>s. P s \<longrightarrow> P (ex s)) \<and> P s \<longrightarrow> P (fst r)"
  by (erule read_header.raw_induct [rotated])
    (auto split: if_splits prod.splits; blast dest: stream_keptD(6))

lemma read_response_kept:
  "read_response C ex s b p = Some r \<Longrightarrow> stream_kept C P \<and> (\<forall>s. P s \<longrightarrow> P (ex s)) \<and> P s \<longrightarrow> P (fst r)"
  by (erule read_response.raw_induct [rotated])
    (auto split: if_splits prod.splits; blast dest: stream_keptD(7))

text \<open>A client whose streams, the one it has and those it will make, satisfy the predicate.\<close>

definition client_streams ::
  "('s, 'e, 'q, 'z, 'h, 'p, 'r) client_api \<Rightarrow> ('s \<Rightarrow> bool) \<Rightarrow> 's http_client \<Rightarrow> bool" where
  "client_streams C P cl \<longleftrightarrow>
     (\<forall>s. ca_new_stream C (cl_host cl) (cl_use_ssl cl) = Inr s \<longrightarrow> P s) \<and>
     (\<forall>s. cl_stream cl = Some s \<longrightarrow> P s)"

lemma client_streams_update:
  "client_streams C P cl \<Longrightarrow> P s \<Longrightarrow> client_streams C P (cl\<lparr>cl_stream := Some s\<rparr>)"
  "client_streams C P (cl\<lparr>cl_buffer := b\<rparr>) = client_streams C P cl"
  by (simp_all add: client_streams_def)

lemma client_close_streams:
  "stream_kept C P \<Longrightarrow> client_streams C P cl \<Longrightarrow> client_streams C P (client_close C cl)"
  by (auto simp: client_streams_def client_close_def intro: stream_keptD(1,2))

lemma client_connect_streams:
  assumes "stream_kept C P" and "client_streams C P cl" and "client_connect C cl = (cl1, r)"
  shows "client_streams C P cl1 \<and> (\<forall>s. r = Inr s \<longrightarrow> P s)"
proof (cases "ca_new_stream C (cl_host cl) (cl_use_ssl cl)")
  case (Inr s)
  then have s: "P s" using assms(2) by (simp add: client_streams_def)
  have conn: "P s'" if "ca_connect C (client_expires C cl True s) eps = (s', e)" for eps s' e
    by (rule stream_keptD(4) [OF assms(1) client_expires_kept [OF assms(1) s] that])
  show ?thesis
    using assms(2,3) Inr s conn
    by (auto simp: client_connect_def Let_def split: option.splits sum.splits prod.splits
        intro!: client_streams_update)
qed (use assms in \<open>auto simp: client_connect_def\<close>)

lemma exchange_on_streams:
  assumes kept: "stream_kept C P" and "client_streams C P cl" and "P s"
    and "exchange_on C req cl s = Some (cl', r)"
  shows "client_streams C P cl'"
proof -
  let ?ex = "client_expires C cl False"
  have ex: "\<forall>s. P s \<longrightarrow> P (?ex s)" using client_expires_kept [OF kept] by simp
  have fin: "client_streams C P cl'" if "P s" and "finish_exchange C cl s b p = (cl', r)" for s b p
    using client_close_streams [OF kept] client_streams_update(1) [OF assms(2)]
      stream_keptD(2) [OF kept that(1)] that(2)
    by (auto simp: finish_exchange_def Let_def client_streams_update(2) split: if_splits)
  have upd: "client_streams C P (cl\<lparr>cl_stream := Some s, cl_buffer := b\<rparr>)" if "P s" for s b
    using client_streams_update(1) [OF assms(2)] that by (simp add: client_streams_update(2))
  from assms(4) obtain s1 e1 where w: "write_request C ?ex s (ca_serializer C req) = Some (s1, e1)"
    by (auto simp: exchange_on_def Let_def bind_eq_Some_conv)
  have s1: "P s1" using write_request_kept [OF w, of P] kept ex assms(3) by simp
  show ?thesis
  proof (cases e1)
    case (Some e)
    with w assms(4) have "cl' = cl\<lparr>cl_stream := Some s1\<rparr>" by (simp add: exchange_on_def Let_def)
    then show ?thesis using client_streams_update(1) [OF assms(2) s1] by simp
  next
    case None
    with w assms(4) obtain s2 b2 h e2 where
      rh: "read_header C ?ex s1 (cl_buffer cl) (ca_header_parser C) = Some (s2, b2, h, e2)"
      by (auto simp: exchange_on_def Let_def bind_eq_Some_conv)
    have s2: "P s2" using read_header_kept [OF rh, of P] kept ex s1 by simp
    show ?thesis
    proof (cases e2)
      case (Some e)
      with w rh None assms(4) have "cl' = cl\<lparr>cl_stream := Some s2, cl_buffer := b2\<rparr>"
        by (simp add: exchange_on_def Let_def)
      then show ?thesis using upd [OF s2] by simp
    next
      case e2: None
      let ?p = "install_chunk_handler C cl (ca_body_parser C h)"
      obtain s3 b3 p e3 where
        rb: "(if cr_method req \<noteq> V_head then read_response C ?ex s2 b2 ?p else Some (s2, b2, ?p, None)) =
          Some (s3, b3, p, e3)" and
        fin3: "(case e3 of Some e \<Rightarrow> Some (cl\<lparr>cl_stream := Some s3, cl_buffer := b3\<rparr>, Inl e)
          | None \<Rightarrow> Some (finish_exchange C cl s3 b3 p)) = Some (cl', r)"
        using assms(4) w rh None e2
        by (simp add: exchange_on_def Let_def bind_eq_Some_conv del: if_split) auto
      have "P s3"
        using rb read_response_kept [of C ?ex s2 b2 ?p "(s3, b3, p, e3)" P] kept ex s2
        by (auto split: if_splits)
      with fin3 fin [of s3 b3 p] upd [of s3 b3] show ?thesis by (cases e3) auto
    qed
  qed
qed

lemma impl_streams:
  assumes "stream_kept C P" and "client_streams C P cl"
    and "async_send_request_impl C req cl = Some (cl', r)"
  shows "client_streams C P cl'"
proof -
  define conn where "conn = (case cl_stream cl of
      Some s \<Rightarrow> if ca_is_open C s then (cl, Inr s) else client_connect C cl
    | None \<Rightarrow> client_connect C cl)"
  obtain cl1 q where q: "conn = (cl1, q)" by (cases conn)
  then have s: "client_streams C P cl1 \<and> (\<forall>s. q = Inr s \<longrightarrow> P s)"
    using client_connect_streams [OF assms(1,2), of cl1 q] assms(2)
    by (auto simp: conn_def client_streams_def split: option.splits if_splits)
  have "(case q of Inl e \<Rightarrow> Some (cl1, Inl e) | Inr s \<Rightarrow> exchange_on C req cl1 s) = Some (cl', r)"
    using assms(3) q by (simp add: async_send_request_impl_def conn_def [symmetric])
  with s exchange_on_streams [OF assms(1), of cl1 _ req cl' r] show ?thesis
    by (cases q) auto
qed

lemma send_streams:
  "stream_kept C P \<Longrightarrow> client_streams C P cl \<Longrightarrow> async_send_request C req cl retry = Some (cl', r) \<Longrightarrow>
   client_streams C P cl'"
proof (induction C req cl retry rule: async_send_request.induct)
  case (1 C req cl retry)
  from 1(4) obtain cl1 q where q: "async_send_request_impl C req cl = Some (cl1, q)"
    and rest: "(case q of
         Inr resp \<Rightarrow> Some (cl1, Inr resp)
       | Inl t \<Rightarrow>
           let e = thrown_code t; cl2 = client_close C cl1
           in if connection_lost e \<and> retry then async_send_request C req cl2 False
              else Some (cl2, Inl e)) = Some (cl', r)"
    by (subst (asm) async_send_request.simps) (auto simp: bind_eq_Some_conv)
  have cl1: "client_streams C P cl1" by (rule impl_streams [OF 1(2,3) q])
  show ?case
  proof (cases q)
    case (Inl t)
    note closed = client_close_streams [OF 1(2) cl1]
    show ?thesis
    proof (cases "connection_lost (thrown_code t) \<and> retry")
      case True
      with rest Inl have "async_send_request C req (client_close C cl1) False = Some (cl', r)"
        by (simp add: Let_def)
      with 1(1) [OF q refl Inl refl refl True 1(2) closed] show ?thesis .
    qed (use rest Inl closed in \<open>auto simp: Let_def\<close>)
  qed (use rest cl1 in simp)
qed

section \<open>Properties\<close>

text \<open>Reading and writing a message leaves a stream of the kind it is.\<close>

definition keeps_layers ::
  "(('k, 't) http_stream, 'e, 'q, 'z, 'h, 'p, 'r) client_api \<Rightarrow> bool" where
  "keeps_layers C \<longleftrightarrow>
     (\<forall>s z. is_tls (fst (ca_write_some C s z)) = is_tls s) \<and>
     (\<forall>s b h. is_tls (fst (ca_read_header C s b h)) = is_tls s) \<and>
     (\<forall>s b p. is_tls (fst (ca_read_body C s b p)) = is_tls s)"

lemma client_over_streams_io [simp]:
  "ca_write_some (client_over_streams N C) = ca_write_some C"
  "ca_read_header (client_over_streams N C) = ca_read_header C"
  "ca_read_body (client_over_streams N C) = ca_read_body C"
  by (simp_all add: client_over_streams_def)

lemma tls_kept: "keeps_layers C \<Longrightarrow> stream_kept (client_over_streams N C) (\<lambda>s. is_tls s = b)"
  by (auto simp: keeps_layers_def stream_kept_def is_tls_connect [OF refl] stream_expires_after_def
      stream_expires_never_def)

text \<open>A client that sends one request after the other.\<close>

fun send_all ::
  "('s, 'e, ('f, 'j) client_request, 'z, 'h, 'p, 'r) client_api \<Rightarrow> ('f, 'j) client_request list \<Rightarrow>
   's http_client \<Rightarrow> 's http_client option" where
  "send_all C [] cl = Some cl"
| "send_all C (q # qs) cl = Option.bind (async_send_request C q cl True) (\<lambda>(cl', _). send_all C qs cl')"

lemma send_all_streams:
  "stream_kept C P \<Longrightarrow> client_streams C P cl \<Longrightarrow> send_all C qs cl = Some cl' \<Longrightarrow> client_streams C P cl'"
  by (induction qs arbitrary: cl) (auto simp: bind_eq_Some_conv dest: send_streams)

text \<open>
  C26. A client made for TLS never has a plain connection, and one made without never has TLS, however
  many requests it sends and however they fail and are tried again.
\<close>

theorem client_keeps_its_protocol:
  assumes "keeps_layers C"
    and "send_all (client_over_streams N C) reqs (client_new host port ssl) = Some cl"
    and "cl_stream cl = Some s"
  shows "is_tls s = ssl"
proof -
  have "client_streams (client_over_streams N C) (\<lambda>s. is_tls s = ssl) (client_new host port ssl)"
    by (auto simp: client_streams_def client_new_def dest: create_stream_tls)
  from send_all_streams [OF tls_kept [OF assms(1)] this assms(2)] assms(3) show ?thesis
    by (simp add: client_streams_def)
qed

text \<open>A network in which everything works; a socket is whether it is open.\<close>

definition loop_net :: "(bool, nat, unit) socket_api" where
  "loop_net =
     \<lparr>so_new = False, so_connect = (\<lambda>k eps. (True, None)), so_reuse_address = (\<lambda>k. (k, None)),
      so_is_open = (\<lambda>k. k), so_shutdown = (\<lambda>w k. (k, None)),
      so_read_some = (\<lambda>n k. (k, [], None)), so_write_some = (\<lambda>bytes k. (k, length bytes, None)),
      so_expires_at = (\<lambda>t k. k), so_close = (\<lambda>k. False),
      so_expires_after = (\<lambda>d k. k), so_expires_never = (\<lambda>k. k), tls_supported = True,
      tls_new = (\<lambda>host. Inr 0), tls_handshake = (\<lambda>t k. (1, k, None)), tls_shutdown = (\<lambda>t k. (2, k)),
      tls_read_some = (\<lambda>n s. (s, [], None)), tls_write_some = (\<lambda>bytes s. (s, length bytes, None))\<rparr>"

definition loop_api ::
  "((bool, nat) http_stream, unit, (plain_fields, string) client_request, string option, char option, char, char)
   client_api" where
  "loop_api =
     \<lparr>ca_new_stream = create_stream loop_net, ca_literal = (\<lambda>host port. Some ()),
      ca_resolve = (\<lambda>host port. Inr [()]), ca_connect = stream_connect loop_net,
      ca_is_open = stream_is_open loop_net, ca_close = stream_close loop_net,
      ca_expires_after = stream_expires_after loop_net, ca_expires_never = stream_expires_never loop_net,
      ca_serializer = (\<lambda>q. Some (cr_target q)), ca_serializer_done = (\<lambda>z. z = None),
      ca_write_some = (\<lambda>s z. (s, None, None)), ca_header_parser = None,
      ca_header_done = (\<lambda>h. h \<noteq> None), ca_read_header = (\<lambda>s buf h. (s, buf, Some CHR ''k'', None)),
      ca_body_parser = the, ca_on_chunk_body = (\<lambda>cb p. p), ca_body_done = (\<lambda>p. True),
      ca_read_body = (\<lambda>s buf p. (s, buf, p, None)), ca_keep_alive = (\<lambda>p. True), ca_release = (\<lambda>p. p)\<rparr>"

theorem client_keeps_its_protocol_witness:
  "\<exists>cl s. send_all (client_over_streams loop_net loop_api) [wire_request, wire_request]
       (client_new ''::1'' 81 True) = Some cl \<and> cl_stream cl = Some s \<and> is_tls s = True"
proof -
  have "case send_all (client_over_streams loop_net loop_api) [wire_request, wire_request]
      (client_new ''::1'' 81 True) of None \<Rightarrow> False | Some cl \<Rightarrow> cl_stream cl \<noteq> None"
    by code_simp
  then obtain cl s where cl: "send_all (client_over_streams loop_net loop_api) [wire_request, wire_request]
      (client_new ''::1'' 81 True) = Some cl" "cl_stream cl = Some s"
    by (auto split: option.splits)
  have "keeps_layers loop_api" by (simp add: keeps_layers_def loop_api_def)
  from client_keeps_its_protocol [OF this cl] cl show ?thesis by simp
qed

lemma client_over_streams_settled:
  assumes "\<And>k. \<not> so_is_open N (so_close N k)"
  shows "send_settled (client_over_streams N C) req
    (async_send_request (client_over_streams N C) req cl retry)"
proof -
  have closed: "\<not> ca_is_open (client_over_streams N C) (ca_close (client_over_streams N C) s)" for s
    by (simp add: stream_close_closed [OF assms])
  have "send_settled (client_over_streams N C) req
      (async_send_request (client_over_streams N C) req cl False)" for cl
    by (rule send_settled_step [OF closed]) simp_all
  then show ?thesis by (rule send_settled_step [OF closed])
qed

end
