(* ===== verification/Client_Pool.thy ===== *)
theory Client_Pool
  imports Client "HOL-Library.Word"
begin

text \<open>
  The pools of HTTP clients (\<open>include/httplib/client/client_pool.hpp\<close>,
  \<open>multi_client_pool.hpp\<close>). A handle gives its client back when it goes out of scope; in
  between its owner may do to the client whatever does not change its endpoint. What both kinds of
  pool owe their users is the interface \<open>client\_source\<close>. The mutexes make every operation one
  step.
\<close>

unbundle bit_operations_syntax

section \<open>The pool of one endpoint\<close>

record 's client_pool =
  cp_queue :: "'s http_client list"
  cp_host :: string
  cp_port :: nat
  cp_max_size :: nat
  cp_ssl :: bool

definition pool_new :: "string \<Rightarrow> nat \<Rightarrow> bool \<Rightarrow> nat \<Rightarrow> 's client_pool" where
  "pool_new host port ssl max_size =
     \<lparr>cp_queue = [], cp_host = host, cp_port = port, cp_max_size = max_size, cp_ssl = ssl\<rparr>"

definition pool_acquire :: "'s client_pool \<Rightarrow> 's http_client \<times> 's client_pool" where
  "pool_acquire p =
     (case cp_queue p of
        c # cs \<Rightarrow> (c, p\<lparr>cp_queue := cs\<rparr>)
      | [] \<Rightarrow> (client_new (cp_host p) (cp_port p) (cp_ssl p), p))"

definition pool_release :: "'s http_client \<Rightarrow> 's client_pool \<Rightarrow> 's client_pool" where
  "pool_release c p =
     (if length (cp_queue p) < cp_max_size p then p\<lparr>cp_queue := cp_queue p @ [c]\<rparr> else p)"

text \<open>The destructor closes what is idle.\<close>

definition pool_destroy ::
  "('s, 'e, 'q, 'z, 'h, 'p, 'r) client_api \<Rightarrow> 's client_pool \<Rightarrow> 's http_client list" where
  "pool_destroy C p = map (client_close C) (cp_queue p)"

section \<open>The pool of many endpoints\<close>

type_synonym connection_info = "string \<times> nat \<times> bool"

record 's multi_pool =
  mp_pools :: "connection_info \<rightharpoonup> 's http_client list"
  mp_max_size :: nat

definition multi_new :: "nat \<Rightarrow> 's multi_pool" where
  "multi_new max_size = \<lparr>mp_pools = Map.empty, mp_max_size = max_size\<rparr>"

definition multi_acquire ::
  "connection_info \<Rightarrow> 's multi_pool \<Rightarrow> 's http_client \<times> 's multi_pool" where
  "multi_acquire info m =
     (case mp_pools m info of
        Some (c # cs) \<Rightarrow> (c, m\<lparr>mp_pools := (mp_pools m)(info \<mapsto> cs)\<rparr>)
      | _ \<Rightarrow> (case info of (host, port, ssl) \<Rightarrow> (client_new host port ssl, m)))"

text \<open>
  The key is made of the host and the port of the client only; the third component of the aggregate is
  left to its default, false. Looking a queue up by subscript makes an empty one.
\<close>

definition multi_release :: "'s http_client \<Rightarrow> 's multi_pool \<Rightarrow> 's multi_pool" where
  "multi_release c m =
     (let info = (cl_host c, cl_port c, False);
          q = (case mp_pools m info of None \<Rightarrow> [] | Some q \<Rightarrow> q)
      in m\<lparr>mp_pools := (mp_pools m)(info \<mapsto> (if length q < mp_max_size m then q @ [c] else q))\<rparr>)"

section \<open>The hash of an endpoint\<close>

text \<open>
  \<open>ConnectionInfoHash\<close> on the 64-bit words of \<open>std::size\_t\<close>; the hashes of the standard
  library are the parameters.
\<close>

definition hash_combine :: "64 word \<Rightarrow> 64 word \<Rightarrow> 64 word" where
  "hash_combine seed h = seed XOR (h + 0x9e3779b97f4a7c15 + push_bit 6 seed + drop_bit 2 seed)"

definition connection_info_hash ::
  "(string \<Rightarrow> 64 word) \<Rightarrow> (nat \<Rightarrow> 64 word) \<Rightarrow> (bool \<Rightarrow> 64 word) \<Rightarrow> connection_info \<Rightarrow> 64 word" where
  "connection_info_hash hash_string hash_uint16 hash_bool info =
     (case info of (host, port, ssl) \<Rightarrow>
        hash_combine (hash_combine (hash_string host) (hash_uint16 port)) (hash_bool ssl))"

lemma hash_combine_inject: "hash_combine seed h = hash_combine seed h' \<longleftrightarrow> h = h'"
proof
  assume "hash_combine seed h = hash_combine seed h'"
  then have "seed XOR hash_combine seed h = seed XOR hash_combine seed h'" by simp
  then show "h = h'" by (simp add: hash_combine_def flip: xor.assoc)
qed simp

text \<open>
  The two endpoints of a host and port, with TLS and without, never share a hash.
\<close>

lemma connection_info_hash_tls:
  assumes "hash_bool True \<noteq> hash_bool False"
  shows "connection_info_hash hs hp hash_bool (host, port, ssl) \<noteq>
    connection_info_hash hs hp hash_bool (host, port, \<not> ssl)"
  using assms by (cases ssl) (simp_all add: connection_info_hash_def hash_combine_inject)

section \<open>Handles\<close>

text \<open>
  A pool with the clients its handles own. Dropping a handle releases its client, or, when the pool is
  gone, only ends it.
\<close>

inductive handles_step ::
  "('k \<Rightarrow> 'p \<Rightarrow> 'c \<times> 'p) \<Rightarrow> ('c \<Rightarrow> 'p \<Rightarrow> 'p) \<Rightarrow> ('c \<Rightarrow> 'c \<Rightarrow> bool) \<Rightarrow> 'p \<times> 'c list \<Rightarrow> 'p \<times> 'c list \<Rightarrow> bool"
  for acq :: "'k \<Rightarrow> 'p \<Rightarrow> 'c \<times> 'p" and rel :: "'c \<Rightarrow> 'p \<Rightarrow> 'p" and use :: "'c \<Rightarrow> 'c \<Rightarrow> bool"
where
  take_one: "acq k p = (c, p') \<Longrightarrow> handles_step acq rel use (p, cs) (p', c # cs)"
| use_one: "use c c' \<Longrightarrow> handles_step acq rel use (p, xs @ c # ys) (p, xs @ c' # ys)"
| drop_one: "handles_step acq rel use (p, xs @ c # ys) (rel c p, xs @ ys)"

inductive handles_reach ::
  "('k \<Rightarrow> 'p \<Rightarrow> 'c \<times> 'p) \<Rightarrow> ('c \<Rightarrow> 'p \<Rightarrow> 'p) \<Rightarrow> ('c \<Rightarrow> 'c \<Rightarrow> bool) \<Rightarrow> 'p \<Rightarrow> 'p \<times> 'c list \<Rightarrow> bool"
  for acq :: "'k \<Rightarrow> 'p \<Rightarrow> 'c \<times> 'p" and rel :: "'c \<Rightarrow> 'p \<Rightarrow> 'p" and use :: "'c \<Rightarrow> 'c \<Rightarrow> bool" and p0 :: 'p
where
  start: "handles_reach acq rel use p0 (p0, [])"
| step: "handles_reach acq rel use p0 st \<Longrightarrow> handles_step acq rel use st st' \<Longrightarrow>
     handles_reach acq rel use p0 st'"

section \<open>The interface\<close>

text \<open>
  A source of clients: it keeps its invariant, what it hands out fits the request, and what fits
  stays acceptable to it whatever its user does.
\<close>

locale client_source =
  fixes acq :: "'k \<Rightarrow> 'p \<Rightarrow> 'c \<times> 'p" and rel :: "'c \<Rightarrow> 'p \<Rightarrow> 'p" and use :: "'c \<Rightarrow> 'c \<Rightarrow> bool"
    and inv :: "'p \<Rightarrow> bool" and fits :: "'k \<Rightarrow> 'c \<Rightarrow> bool" and okay :: "'c \<Rightarrow> bool"
  assumes acquire_inv: "inv p \<Longrightarrow> acq k p = (c, p') \<Longrightarrow> inv p'"
    and acquire_fits: "inv p \<Longrightarrow> acq k p = (c, p') \<Longrightarrow> fits k c"
    and fits_okay: "fits k c \<Longrightarrow> okay c"
    and use_okay: "okay c \<Longrightarrow> use c c' \<Longrightarrow> okay c'"
    and release_inv: "inv p \<Longrightarrow> okay c \<Longrightarrow> inv (rel c p)"
begin

lemma step_inv:
  "handles_step acq rel use st st' \<Longrightarrow> inv (fst st) \<Longrightarrow> \<forall>c\<in>set (snd st). okay c \<Longrightarrow>
   inv (fst st') \<and> (\<forall>c\<in>set (snd st'). okay c)"
proof (induction rule: handles_step.induct)
  case (take_one k p c p' cs)
  then have "okay c" by (auto dest: acquire_fits fits_okay)
  with take_one show ?case by (auto dest: acquire_inv)
next
  case (use_one c c' p xs ys)
  then show ?case using use_okay by auto
next
  case (drop_one p xs c ys)
  then show ?case using release_inv by auto
qed

lemma reach_inv:
  "handles_reach acq rel use p0 st \<Longrightarrow> inv p0 \<Longrightarrow> inv (fst st) \<and> (\<forall>c\<in>set (snd st). okay c)"
  by (induction rule: handles_reach.induct) (auto dest: step_inv)

lemma handed_out_fits:
  assumes "handles_reach acq rel use p0 (p, cs)" and "inv p0"
  shows "fits k (fst (acq k p))"
  using reach_inv [OF assms] acquire_fits [of p k] by (cases "acq k p") auto

end

section \<open>The pools are sources\<close>

definition same_endpoint :: "'s http_client \<Rightarrow> 's http_client \<Rightarrow> bool" where
  "same_endpoint c c' \<longleftrightarrow>
     cl_host c' = cl_host c \<and> cl_port c' = cl_port c \<and> cl_use_ssl c' = cl_use_ssl c"

definition is_client_of :: "connection_info \<Rightarrow> 's http_client \<Rightarrow> bool" where
  "is_client_of info c \<longleftrightarrow> info = (cl_host c, cl_port c, cl_use_ssl c)"

definition pool_inv :: "connection_info \<Rightarrow> nat \<Rightarrow> 's client_pool \<Rightarrow> bool" where
  "pool_inv info max_size p \<longleftrightarrow>
     info = (cp_host p, cp_port p, cp_ssl p) \<and> cp_max_size p = max_size \<and>
     length (cp_queue p) \<le> max_size \<and> (\<forall>c\<in>set (cp_queue p). is_client_of info c)"

lemma new_client_endpoint [simp]: "is_client_of info (client_new host port ssl) \<longleftrightarrow> info = (host, port, ssl)"
  by (simp add: is_client_of_def client_new_def)

lemma pool_acquire_inv:
  "pool_inv info n p \<Longrightarrow> pool_acquire p = (c, p') \<Longrightarrow> pool_inv info n p' \<and> is_client_of info c"
  by (auto simp: pool_acquire_def pool_inv_def split: list.splits)

lemma pool_release_inv: "pool_inv info n p \<Longrightarrow> is_client_of info c \<Longrightarrow> pool_inv info n (pool_release c p)"
  by (auto simp: pool_release_def pool_inv_def)

lemma same_endpoint_client: "same_endpoint c c' \<Longrightarrow> is_client_of info c' = is_client_of info c"
  by (simp add: same_endpoint_def is_client_of_def)

interpretation one: client_source "\<lambda>_. pool_acquire" pool_release same_endpoint "pool_inv info n"
  "\<lambda>_. is_client_of info" "is_client_of info" for info and n
  by unfold_locales (auto simp: same_endpoint_client dest: pool_acquire_inv pool_release_inv)

text \<open>The queues of the multi-pool, and what its keys say of the clients in them.\<close>

definition multi_fits :: "bool \<Rightarrow> connection_info \<Rightarrow> 's http_client \<Rightarrow> bool" where
  "multi_fits plain info c \<longleftrightarrow>
     cl_host c = fst info \<and> cl_port c = fst (snd info) \<and> (plain \<longrightarrow> \<not> cl_use_ssl c)"

definition queue_ok :: "nat \<Rightarrow> bool \<Rightarrow> connection_info \<Rightarrow> 's http_client list \<Rightarrow> bool" where
  "queue_ok n plain info q \<longleftrightarrow> \<not> snd (snd info) \<and> length q \<le> n \<and> (\<forall>c\<in>set q. multi_fits plain info c)"

definition multi_inv :: "nat \<Rightarrow> bool \<Rightarrow> 's multi_pool \<Rightarrow> bool" where
  "multi_inv n plain m \<longleftrightarrow>
     mp_max_size m = n \<and> (\<forall>info q. mp_pools m info = Some q \<longrightarrow> queue_ok n plain info q)"

lemma multi_inv_queue: "multi_inv n plain m \<Longrightarrow> mp_pools m info = Some q \<Longrightarrow> queue_ok n plain info q"
  unfolding multi_inv_def by blast

lemma multi_inv_update:
  "multi_inv n plain m \<Longrightarrow> queue_ok n plain info q \<Longrightarrow>
   multi_inv n plain (m\<lparr>mp_pools := (mp_pools m)(info \<mapsto> q)\<rparr>)"
  by (simp add: multi_inv_def)

lemma multi_new_fits [simp]:
  "multi_fits plain info (client_new host port ssl) \<longleftrightarrow>
     host = fst info \<and> port = fst (snd info) \<and> (plain \<longrightarrow> \<not> ssl)"
  by (auto simp: multi_fits_def client_new_def)

lemma multi_acquire_inv:
  assumes "multi_inv n plain m" and "multi_acquire info m = (c, m')" and "plain \<longrightarrow> \<not> snd (snd info)"
  shows "multi_inv n plain m' \<and> multi_fits plain info c"
proof (cases "\<exists>cs. mp_pools m info = Some (c # cs) \<and> m' = m\<lparr>mp_pools := (mp_pools m)(info \<mapsto> cs)\<rparr>")
  case True
  then obtain cs where cs: "mp_pools m info = Some (c # cs)" "m' = m\<lparr>mp_pools := (mp_pools m)(info \<mapsto> cs)\<rparr>"
    by blast
  with multi_inv_queue [OF assms(1) cs(1)] multi_inv_update [OF assms(1), of info cs] show ?thesis
    by (simp add: queue_ok_def)
next
  case False
  then have "c = client_new (fst info) (fst (snd info)) (snd (snd info))" "m' = m"
    using assms(2) by (auto simp: multi_acquire_def split: option.splits list.splits prod.splits)
  with assms(1,3) show ?thesis by simp
qed

lemma multi_release_inv:
  assumes "multi_inv n plain m" and "plain \<longrightarrow> \<not> cl_use_ssl c"
  shows "multi_inv n plain (multi_release c m)"
proof -
  let ?info = "(cl_host c, cl_port c, False)"
  define q where "q = (case mp_pools m ?info of None \<Rightarrow> [] | Some q \<Rightarrow> q)"
  have "queue_ok n plain ?info q"
    using multi_inv_queue [OF assms(1), of ?info] by (auto simp: q_def queue_ok_def split: option.split)
  then have "queue_ok n plain ?info (if length q < mp_max_size m then q @ [c] else q)"
    using assms by (simp add: queue_ok_def multi_fits_def multi_inv_def)
  from multi_inv_update [OF assms(1) this] show ?thesis
    by (simp only: multi_release_def Let_def q_def [symmetric])
qed

interpretation many: client_source multi_acquire multi_release same_endpoint "multi_inv n False"
  "multi_fits False" "\<lambda>_. True" for n
  by unfold_locales (auto dest: multi_acquire_inv multi_release_inv)

interpretation plain: client_source "\<lambda>k. multi_acquire (fst k, snd k, False)" multi_release
  same_endpoint "multi_inv n True" "\<lambda>k. multi_fits True (fst k, snd k, False)" "\<lambda>c. \<not> cl_use_ssl c" for n
  by unfold_locales
    (auto simp: same_endpoint_def multi_fits_def dest: multi_acquire_inv multi_release_inv)

section \<open>Properties\<close>

lemma pool_new_inv: "pool_inv (host, port, ssl) n (pool_new host port ssl n)"
  by (simp add: pool_inv_def pool_new_def)

lemma multi_new_inv: "multi_inv n plain (multi_new n)"
  by (simp add: multi_inv_def multi_new_def)

text \<open>
  C27. A pool of one endpoint never keeps more idle clients than its maximal size, and whatever was
  acquired, used and dropped before, the client it hands out is one of its endpoint.
\<close>

theorem pool_hands_out_its_endpoint:
  assumes "handles_reach (\<lambda>(_ :: unit). pool_acquire) pool_release same_endpoint
      (pool_new host port ssl n) (p, cs)"
  shows "length (cp_queue p) \<le> n \<and> is_client_of (host, port, ssl) (fst (pool_acquire p))"
proof
  from one.reach_inv [OF assms pool_new_inv] have "pool_inv (host, port, ssl) n p" by simp
  then show "length (cp_queue p) \<le> n" unfolding pool_inv_def by blast
  show "is_client_of (host, port, ssl) (fst (pool_acquire p))"
    by (rule one.handed_out_fits [OF assms pool_new_inv])
qed

text \<open>A handle that has been taken and dropped.\<close>

lemma one_handle:
  assumes "acq k p = (c, p')"
  shows "handles_reach acq rel use p (rel c p', [])"
proof -
  have "handles_step acq rel use (p, []) (p', [c])" using assms by (rule handles_step.take_one)
  with handles_reach.start have one: "handles_reach acq rel use p (p', [c])" by (rule handles_reach.step)
  have "handles_step acq rel use (p', [c]) (rel c p', [])"
    using handles_step.drop_one [of acq rel use p' "[]" c "[]"] by simp
  with one show ?thesis by (rule handles_reach.step)
qed

theorem pool_hands_out_its_endpoint_witness:
  "let p = pool_release (client_new ''h'' 80 False :: nat http_client) (pool_new ''h'' 80 False 1)
   in length (cp_queue p) \<le> 1 \<and> is_client_of (''h'', 80, False) (fst (pool_acquire p))"
  unfolding Let_def
  by (rule pool_hands_out_its_endpoint [OF one_handle]) (simp add: pool_acquire_def pool_new_def)

text \<open>
  A pool of many endpoints keeps at most its maximal number of idle clients for each, and hands
  out a client of the host and port asked for, whatever its handles did before.
\<close>

theorem multi_pool_hands_out_host_and_port:
  assumes "handles_reach multi_acquire multi_release same_endpoint (multi_new n) (m, cs)"
  shows "(case mp_pools m info of None \<Rightarrow> True | Some q \<Rightarrow> length q \<le> n) \<and>
    cl_host (fst (multi_acquire (host, port, ssl) m)) = host \<and>
    cl_port (fst (multi_acquire (host, port, ssl) m)) = port"
proof -
  from many.reach_inv [OF assms multi_new_inv] have "multi_inv n False m" by simp
  note queue = multi_inv_queue [OF this, of info]
  have "multi_fits False (host, port, ssl) (fst (multi_acquire (host, port, ssl) m))"
    by (rule many.handed_out_fits [OF assms multi_new_inv])
  with queue show ?thesis by (auto simp: queue_ok_def multi_fits_def split: option.split)
qed

lemma multi_first: "multi_acquire (host, port, ssl) (multi_new n) = (client_new host port ssl, multi_new n)"
  by (simp add: multi_acquire_def multi_new_def)

theorem multi_pool_hands_out_host_and_port_witness:
  "let m = multi_release (client_new ''h'' 80 True :: nat http_client) (multi_new 1)
   in (case mp_pools m (''h'', 80, False) of None \<Rightarrow> True | Some q \<Rightarrow> length q \<le> 1) \<and>
      cl_host (fst (multi_acquire (''h'', 80, False) m)) = ''h'' \<and>
      cl_port (fst (multi_acquire (''h'', 80, False) m)) = 80"
  unfolding Let_def
  by (rule multi_pool_hands_out_host_and_port [OF one_handle [of multi_acquire, OF multi_first]])

text \<open>
  C37. It does not keep TLS apart, unless TLS is never asked for: a client with TLS that is released is
  the one handed out to the next who asks for a connection without TLS, and who asks for one with TLS
  is given a new client, since no client with TLS is ever found again.
\<close>

theorem multi_pool_forgets_tls:
  assumes "handles_reach multi_acquire multi_release same_endpoint (multi_new n) (m, cs)" and "0 < n"
    and "mp_pools m (cl_host c, cl_port c, False) \<in> {None, Some []}" and "cl_use_ssl c"
  shows "fst (multi_acquire (cl_host c, cl_port c, False) (multi_release c m)) = c \<and>
    fst (multi_acquire (cl_host c, cl_port c, True) (multi_release c m)) =
      client_new (cl_host c) (cl_port c) True"
proof -
  from many.reach_inv [OF assms(1) multi_new_inv] have inv: "multi_inv n False m" by simp
  have "mp_pools m (cl_host c, cl_port c, True) = None"
    using multi_inv_queue [OF inv, of "(cl_host c, cl_port c, True)"]
    by (cases "mp_pools m (cl_host c, cl_port c, True)") (auto simp: queue_ok_def)
  moreover have "mp_max_size m = n" using inv by (simp add: multi_inv_def)
  ultimately show ?thesis using assms(2,3)
    by (auto simp: multi_release_def multi_acquire_def Let_def)
qed

theorem multi_pool_forgets_tls_witness:
  "let c = client_new ''h'' 443 True :: nat http_client; m = multi_release c (multi_new 1)
   in cl_use_ssl (fst (multi_acquire (''h'', 443, False) m))"
proof -
  have "fst (multi_acquire (''h'', 443, False) (multi_release (client_new ''h'' 443 True) (multi_new 1))) =
      (client_new ''h'' 443 True :: nat http_client)"
    using multi_pool_forgets_tls [OF handles_reach.start, of 1 "client_new ''h'' 443 True :: nat http_client"]
    by (simp add: client_new_def multi_new_def)
  then show ?thesis by (simp add: client_new_def)
qed

lemma multi_pool_without_tls:
  assumes "handles_reach (\<lambda>k. multi_acquire (fst k, snd k, False)) multi_release same_endpoint (multi_new n) (m, cs)"
  shows "is_client_of (host, port, False) (fst (multi_acquire (host, port, False) m))"
  using plain.handed_out_fits [OF assms multi_new_inv, of "(host, port)"]
  by (simp add: multi_fits_def is_client_of_def)

end
