(* ===== verification/Server.thy ===== *)
theory Server
  imports Prelude
begin

text \<open>
  The life of a server (\<open>lib/server/server_impl.cpp\<close>): the 32 coroutines that accept
  connections, the coroutine that handles each, the set of sessions, and \<open>stop\<close>. Every stretch
  of a coroutine between two suspensions, and every stretch under a mutex, is one step; which
  coroutine is next is open. An accept that was begun on an open acceptor may still succeed after the
  acceptor has been closed, when its completion was queued before; one begun on a closed acceptor
  fails.
\<close>

section \<open>The state\<close>

datatype accept_ec =
    Too_Many_Files_Open
  | Too_Many_Files_Open_In_System
  | Accept_Error nat

text \<open>Where a coroutine of \<open>co\_accept\<close> stands; the flag tells of the acceptor when it began.\<close>

datatype acceptor =
    Accepting bool
  | Backing_Off
  | Accept_Returned "accept_ec option"

text \<open>Where the coroutine \<open>handle\_accept\<close> of a connection stands.\<close>

datatype handling = Spawned | Running | Finished

record server =
  sr_acceptor_open :: bool
  sr_acceptors :: "acceptor list"
  sr_handling :: "handling list"
  sr_session_map :: "nat set"
  sr_aborted :: "nat set"
  sr_run :: "accept_ec option option"

text \<open>A server that listens, when \<open>co\_run\<close> has started its acceptors.\<close>

definition server_running :: server where
  "server_running =
     \<lparr>sr_acceptor_open = True, sr_acceptors = replicate 32 (Accepting True), sr_handling = [],
      sr_session_map = {}, sr_aborted = {}, sr_run = None\<rparr>"

section \<open>The steps\<close>

text \<open>The completion of \<open>async\_accept\<close> in acceptor \<open>i\<close>.\<close>

definition accept_completes :: "nat \<Rightarrow> accept_ec option \<Rightarrow> server \<Rightarrow> server" where
  "accept_completes i ec s =
     (case ec of
        None \<Rightarrow>
          s\<lparr>sr_acceptors := (sr_acceptors s)[i := Accepting (sr_acceptor_open s)],
            sr_handling := sr_handling s @ [Spawned]\<rparr>
      | Some e \<Rightarrow>
          s\<lparr>sr_acceptors := (sr_acceptors s)[i :=
            (if e = Too_Many_Files_Open \<or> e = Too_Many_Files_Open_In_System
             then Backing_Off else Accept_Returned ec)]\<rparr>)"

text \<open>The timer before the next attempt has expired, or failed.\<close>

definition backoff_ends :: "nat \<Rightarrow> accept_ec option \<Rightarrow> server \<Rightarrow> server" where
  "backoff_ends i ec s =
     s\<lparr>sr_acceptors := (sr_acceptors s)[i :=
       (if ec = None then Accepting (sr_acceptor_open s) else Accept_Returned ec)]\<rparr>"

text \<open>Asking the socket for its endpoints throws when the peer is gone, which ends the coroutine.\<close>

definition handle_begins :: "nat \<Rightarrow> bool \<Rightarrow> server \<Rightarrow> server" where
  "handle_begins j endpoint_throws s =
     (if endpoint_throws then s\<lparr>sr_handling := (sr_handling s)[j := Finished]\<rparr>
      else s\<lparr>sr_handling := (sr_handling s)[j := Running], sr_session_map := insert j (sr_session_map s)\<rparr>)"

text \<open>The session has run to its end, with an exception or without.\<close>

definition handle_ends :: "nat \<Rightarrow> server \<Rightarrow> server" where
  "handle_ends j s =
     s\<lparr>sr_handling := (sr_handling s)[j := Finished], sr_session_map := sr_session_map s - {j}\<rparr>"

definition abort_sessions :: "server \<Rightarrow> server" where
  "abort_sessions s = s\<lparr>sr_aborted := sr_aborted s \<union> sr_session_map s\<rparr>"

definition server_stop :: "server \<Rightarrow> server" where
  "server_stop s = abort_sessions (s\<lparr>sr_acceptor_open := False\<rparr>)"

text \<open>The results of the acceptors in their order, once all have returned; the first error counts.\<close>

fun returned :: "acceptor \<Rightarrow> accept_ec option option" where
  "returned (Accept_Returned ec) = Some ec"
| "returned _ = None"

definition run_result :: "acceptor list \<Rightarrow> accept_ec option" where
  "run_result accs =
     (case List.find (\<lambda>a. returned a \<noteq> Some None) accs of
        None \<Rightarrow> None
      | Some a \<Rightarrow> the (returned a))"

definition run_ends :: "server \<Rightarrow> server" where
  "run_ends s = (abort_sessions s)\<lparr>sr_run := Some (run_result (sr_acceptors s))\<rparr>"

inductive server_step :: "server \<Rightarrow> server \<Rightarrow> bool" where
  accepted: "i < length (sr_acceptors s) \<Longrightarrow> sr_acceptors s ! i = Accepting True \<Longrightarrow>
    server_step s (accept_completes i None s)"
| accept_failed: "i < length (sr_acceptors s) \<Longrightarrow> sr_acceptors s ! i = Accepting b \<Longrightarrow>
    server_step s (accept_completes i (Some e) s)"
| backed_off: "i < length (sr_acceptors s) \<Longrightarrow> sr_acceptors s ! i = Backing_Off \<Longrightarrow>
    server_step s (backoff_ends i ec s)"
| handle_start: "j < length (sr_handling s) \<Longrightarrow> sr_handling s ! j = Spawned \<Longrightarrow>
    server_step s (handle_begins j b s)"
| handle_end: "j < length (sr_handling s) \<Longrightarrow> sr_handling s ! j = Running \<Longrightarrow>
    server_step s (handle_ends j s)"
| stop: "server_step s (server_stop s)"
| run_end: "\<forall>a\<in>set (sr_acceptors s). returned a \<noteq> None \<Longrightarrow> sr_run s = None \<Longrightarrow>
    server_step s (run_ends s)"

inductive server_reach :: "server \<Rightarrow> server \<Rightarrow> bool" for s0 :: server where
  start: "server_reach s0 s0"
| step: "server_reach s0 s \<Longrightarrow> server_step s t \<Longrightarrow> server_reach s0 t"

inductive_cases server_stepE: "server_step s t"

lemmas server_ops = accept_completes_def backoff_ends_def handle_begins_def handle_ends_def
  abort_sessions_def server_stop_def run_ends_def

section \<open>The invariant\<close>

definition run_sound :: "accept_ec option option \<Rightarrow> acceptor list \<Rightarrow> bool" where
  "run_sound r accs \<longleftrightarrow> r = None \<or> r \<noteq> Some None \<and> (\<forall>a\<in>set accs. returned a \<noteq> None)"

definition server_inv :: "server \<Rightarrow> bool" where
  "server_inv s \<longleftrightarrow>
     length (sr_acceptors s) = 32 \<and>
     Accept_Returned None \<notin> set (sr_acceptors s) \<and>
     sr_session_map s = {j. j < length (sr_handling s) \<and> sr_handling s ! j = Running} \<and>
     sr_aborted s \<subseteq> {j. j < length (sr_handling s) \<and> sr_handling s ! j \<noteq> Spawned} \<and>
     run_sound (sr_run s) (sr_acceptors s)"

lemma server_inv_start: "server_inv server_running"
  by (simp add: server_inv_def server_running_def run_sound_def)

lemma set_update_notin: "x \<notin> set xs \<Longrightarrow> y \<noteq> x \<Longrightarrow> x \<notin> set (xs[i := y])"
  using set_update_subset_insert [of xs i y] by auto

lemma run_result_error:
  assumes "length accs = 32" and "Accept_Returned None \<notin> set accs" and "\<forall>a\<in>set accs. returned a \<noteq> None"
  shows "run_result accs \<noteq> None"
proof -
  from assms(1) obtain a as where accs: "accs = a # as" by (cases accs) auto
  with assms(2,3) show ?thesis by (cases a) (auto simp: run_result_def)
qed

lemma server_inv_not_ended:
  assumes "server_inv s" and "i < length (sr_acceptors s)" and "returned (sr_acceptors s ! i) = None"
  shows "sr_run s = None"
proof (rule ccontr)
  assume "sr_run s \<noteq> None"
  with assms(1) have "\<forall>a\<in>set (sr_acceptors s). returned a \<noteq> None"
    by (auto simp: server_inv_def run_sound_def)
  with assms(2,3) show False by (metis nth_mem)
qed

lemma server_inv_step: "server_step s t \<Longrightarrow> server_inv s \<Longrightarrow> server_inv t"
proof (induction rule: server_step.induct)
  case (accepted i s)
  then have "sr_run s = None" using server_inv_not_ended [of s i] by simp
  with accepted show ?case
    by (auto simp: server_inv_def server_ops nth_append less_Suc_eq set_update_notin run_sound_def)
next
  case (accept_failed i s b e)
  then have "sr_run s = None" using server_inv_not_ended [of s i] by simp
  with accept_failed show ?case
    by (auto simp: server_inv_def server_ops set_update_notin run_sound_def)
next
  case (backed_off i s ec)
  then have "sr_run s = None" using server_inv_not_ended [of s i] by simp
  with backed_off show ?case
    by (auto simp: server_inv_def server_ops set_update_notin run_sound_def)
next
  case (handle_start j s b)
  then show ?case
    by (auto simp: server_inv_def server_ops nth_list_update split: if_splits)
next
  case (handle_end j s)
  then show ?case
    by (auto simp: server_inv_def server_ops nth_list_update split: if_splits)
next
  case (stop s)
  then show ?case by (auto simp: server_inv_def server_ops)
next
  case (run_end s)
  then have "run_result (sr_acceptors s) \<noteq> None"
    by (intro run_result_error) (auto simp: server_inv_def)
  with run_end show ?case by (auto simp: server_inv_def server_ops run_sound_def)
qed

lemma server_reach_inv: "server_reach s0 s \<Longrightarrow> server_inv s0 \<Longrightarrow> server_inv s"
  by (induction rule: server_reach.induct) (auto dest: server_inv_step)

section \<open>After stop\<close>

text \<open>How many connections the acceptors may still be given once the acceptor is closed.\<close>

definition may_accept :: "acceptor \<Rightarrow> nat" where
  "may_accept a = (if a = Accepting True then 1 else 0)"

definition pending :: "server \<Rightarrow> nat" where
  "pending s = sum_list (map may_accept (sr_acceptors s))"

text \<open>And what each of them may still do.\<close>

fun acceptor_steps :: "acceptor \<Rightarrow> nat" where
  "acceptor_steps (Accepting True) = 3"
| "acceptor_steps Backing_Off = 2"
| "acceptor_steps (Accepting False) = 1"
| "acceptor_steps (Accept_Returned ec) = 0"

lemma sum_list_map_update:
  fixes f :: "'a \<Rightarrow> nat"
  assumes "i < length xs"
  shows "sum_list (map f (xs[i := x])) + f (xs ! i) = sum_list (map f xs) + f x"
  using assms
proof (induction xs arbitrary: i)
  case (Cons y ys)
  show ?case
  proof (cases i)
    case (Suc k)
    with Cons.IH [of k] Cons.prems show ?thesis by simp
  qed simp
qed simp

lemma pending_bound: "pending s \<le> length (sr_acceptors s)"
proof -
  have "sum_list (map may_accept xs) \<le> length xs" for xs
    by (induction xs) (simp_all add: may_accept_def)
  then show ?thesis by (simp add: pending_def)
qed

lemma pending_update:
  assumes "i < length xs" and "may_accept x \<le> may_accept (xs ! i)"
  shows "sum_list (map may_accept (xs[i := x])) \<le> sum_list (map may_accept xs)"
  using sum_list_map_update [OF assms(1), of may_accept x] assms(2) by linarith

lemma pending_step:
  "server_step s t \<Longrightarrow> \<not> sr_acceptor_open s \<Longrightarrow>
   \<not> sr_acceptor_open t \<and> length (sr_handling t) + pending t \<le> length (sr_handling s) + pending s"
proof (induction rule: server_step.induct)
  case (accepted i s)
  with sum_list_map_update [of i "sr_acceptors s" may_accept "Accepting False"]
  show ?case by (simp add: server_ops pending_def may_accept_def)
next
  case (accept_failed i s b e)
  have "sum_list (map may_accept ((sr_acceptors s)[i :=
      (if e = Too_Many_Files_Open \<or> e = Too_Many_Files_Open_In_System then Backing_Off
       else Accept_Returned (Some e))])) \<le> sum_list (map may_accept (sr_acceptors s))"
    by (rule pending_update [OF accept_failed(1)]) (simp add: may_accept_def)
  with accept_failed(3) show ?case by (auto simp: server_ops pending_def split: if_splits)
next
  case (backed_off i s ec)
  have "sum_list (map may_accept ((sr_acceptors s)[i :=
      (if ec = None then Accepting False else Accept_Returned ec)])) \<le> sum_list (map may_accept (sr_acceptors s))"
    by (rule pending_update [OF backed_off(1)]) (simp add: may_accept_def)
  with backed_off(3) show ?case by (auto simp: server_ops pending_def split: if_splits)
qed (auto simp: server_ops pending_def)

lemma pending_reach:
  "server_reach s t \<Longrightarrow> \<not> sr_acceptor_open s \<Longrightarrow>
   \<not> sr_acceptor_open t \<and> length (sr_handling t) + pending t \<le> length (sr_handling s) + pending s"
  by (induction rule: server_reach.induct) (auto dest: pending_step)

section \<open>Properties\<close>

text \<open>A run in which a connection is accepted, the server stopped, and every acceptor fails.\<close>

lemma acceptors_fail:
  "server_reach s0 s \<Longrightarrow>
   sr_acceptors s = replicate n (Accept_Returned (Some (Accept_Error e))) @ replicate m (Accepting True) \<Longrightarrow>
   server_reach s0 (s\<lparr>sr_acceptors := replicate (n + m) (Accept_Returned (Some (Accept_Error e)))\<rparr>)"
proof (induction m arbitrary: n s)
  case 0
  then have "s\<lparr>sr_acceptors := replicate (n + 0) (Accept_Returned (Some (Accept_Error e)))\<rparr> = s" by simp
  with 0(1) show ?case by simp
next
  case (Suc m)
  let ?t = "accept_completes n (Some (Accept_Error e)) s"
  have "server_step s ?t"
    by (rule server_step.accept_failed [of _ _ True]) (simp_all add: Suc.prems(2) nth_append)
  with Suc.prems(1) have "server_reach s0 ?t" by (rule server_reach.step)
  moreover have "sr_acceptors ?t =
      replicate (Suc n) (Accept_Returned (Some (Accept_Error e))) @ replicate m (Accepting True)"
    by (simp add: accept_completes_def Suc.prems(2) list_update_append replicate_app_Cons_same)
  ultimately have "server_reach s0
      (?t\<lparr>sr_acceptors := replicate (Suc n + m) (Accept_Returned (Some (Accept_Error e)))\<rparr>)"
    by (rule Suc.IH)
  then show ?case by (simp add: accept_completes_def)
qed

definition example_accepted :: server where
  "example_accepted = accept_completes 0 None server_running"

definition example_ended :: server where
  "example_ended = run_ends ((server_stop example_accepted)
     \<lparr>sr_acceptors := replicate 32 (Accept_Returned (Some (Accept_Error 125)))\<rparr>)"

lemma example_accepted_reach: "server_reach server_running example_accepted"
  unfolding example_accepted_def
  by (rule server_reach.step [OF server_reach.start server_step.accepted]) (simp_all add: server_running_def)

lemma example_accepted_acceptors: "sr_acceptors (server_stop example_accepted) = replicate 32 (Accepting True)"
  by (simp add: example_accepted_def server_ops server_running_def list_update_same_conv)

lemma example_ended_reach: "server_reach (server_stop example_accepted) example_ended"
  unfolding example_ended_def
proof (rule server_reach.step [OF _ server_step.run_end])
  show "server_reach (server_stop example_accepted) ((server_stop example_accepted)
      \<lparr>sr_acceptors := replicate 32 (Accept_Returned (Some (Accept_Error 125)))\<rparr>)"
    using acceptors_fail [OF server_reach.start, of "server_stop example_accepted" 0 125 32]
    by (simp add: example_accepted_acceptors)
qed (auto simp: server_ops example_accepted_def server_running_def)

lemma server_reach_trans: "server_reach s t \<Longrightarrow> server_reach r s \<Longrightarrow> server_reach r t"
  by (induction rule: server_reach.induct) (auto intro: server_reach.step)

lemma example_ended_reachable: "server_reach server_running example_ended"
  by (rule server_reach_trans [OF example_ended_reach])
    (rule server_reach.step [OF example_accepted_reach server_step.stop])

text \<open>
  C22. The set of sessions holds exactly those that are running, so none is lost or kept after its end;
  and a run that has ended, after all acceptors have, always reports an error, even when the server
  was merely stopped.
\<close>

theorem server_sessions_are_running:
  assumes "server_reach server_running s"
  shows "sr_session_map s = {j. j < length (sr_handling s) \<and> sr_handling s ! j = Running} \<and>
    (sr_run s = None \<or> (\<exists>e. sr_run s = Some (Some e)) \<and> (\<forall>a\<in>set (sr_acceptors s). returned a \<noteq> None))"
  using server_reach_inv [OF assms server_inv_start] by (auto simp: server_inv_def run_sound_def)

theorem server_sessions_are_running_witness:
  "sr_session_map example_ended = {j. j < length (sr_handling example_ended) \<and> sr_handling example_ended ! j = Running} \<and>
    (sr_run example_ended = None \<or>
     (\<exists>e. sr_run example_ended = Some (Some e)) \<and> (\<forall>a\<in>set (sr_acceptors example_ended). returned a \<noteq> None))"
  by (rule server_sessions_are_running [OF example_ended_reachable])

text \<open>
  C23. Once the server has been stopped, at most as many connections are taken on as acceptors were
  waiting, 32, and the acceptor stays closed, whatever else happens.
\<close>

theorem stopped_server_takes_at_most_32:
  assumes "server_reach server_running s" and "server_reach (server_stop s) t"
  shows "\<not> sr_acceptor_open t \<and> length (sr_handling t) \<le> length (sr_handling s) + 32"
proof -
  have "pending (server_stop s) \<le> 32"
    using server_reach_inv [OF assms(1) server_inv_start] pending_bound [of "server_stop s"]
    by (simp add: server_inv_def server_ops)
  with pending_reach [OF assms(2)] show ?thesis by (simp add: server_ops)
qed

theorem stopped_server_takes_at_most_32_witness:
  "\<not> sr_acceptor_open example_ended \<and>
   length (sr_handling example_ended) \<le> length (sr_handling example_accepted) + 32"
  by (rule stopped_server_takes_at_most_32 [OF example_accepted_reach example_ended_reach])

text \<open>
  C39. A connection that has been accepted, but whose coroutine has not begun when the server is
  stopped and its run ends, is not aborted by either: it becomes a session of the stopped server and
  runs on.
\<close>

theorem stop_misses_accepted_connection:
  assumes "server_reach server_running s" and "sr_run s \<noteq> None" and "j < length (sr_handling s)"
    and "sr_handling s ! j = Spawned"
  shows "\<exists>t. server_step s t \<and> j \<in> sr_session_map t \<and> j \<notin> sr_aborted t \<and> sr_run t \<noteq> None"
proof (intro exI conjI)
  show "server_step s (handle_begins j False s)" using assms(3,4) by (rule server_step.handle_start)
  show "j \<notin> sr_aborted (handle_begins j False s)"
    using server_reach_inv [OF assms(1) server_inv_start] assms(4)
    by (auto simp: server_inv_def server_ops)
qed (use assms(2) in \<open>simp_all add: server_ops\<close>)

theorem stop_misses_accepted_connection_witness:
  "\<exists>t. server_step example_ended t \<and> 0 \<in> sr_session_map t \<and> 0 \<notin> sr_aborted t \<and> sr_run t \<noteq> None"
  by (rule stop_misses_accepted_connection [OF example_ended_reachable])
    (simp_all add: example_ended_def example_accepted_def server_ops server_running_def)

end
