(* ===== verification/Server_Config.thy ===== *)
theory Server_Config
  imports Client Html_Listing
begin

text \<open>
  Setting a server up (\<open>lib/server/server_impl.cpp\<close>, \<open>server.cpp\<close>): the socket it
  listens on, its timeouts, its logger and its TLS context. The acceptor and the resolver of
  Boost.Asio are the parameter \<open>acceptor\_api\<close>, the TLS context is \<open>tls\_context\_api\<close>; a
  logger is left abstract. Each of these operations may throw, and what was done before stays done.
\<close>

section \<open>The state\<close>

record ('a, 'e) acceptor_api =
  aa_resolve :: "string \<Rightarrow> string \<Rightarrow> thrown + 'e list"
  aa_open :: "'e \<Rightarrow> 'a \<Rightarrow> 'a \<times> thrown option"
  aa_reuse_address :: "'a \<Rightarrow> 'a \<times> thrown option"
  aa_bind :: "'e \<Rightarrow> 'a \<Rightarrow> 'a \<times> thrown option"
  aa_listen :: "nat \<Rightarrow> 'a \<Rightarrow> 'a \<times> thrown option"
  aa_is_open :: "'a \<Rightarrow> bool"
  aa_local_endpoint :: "'a \<Rightarrow> 'e"

record 'c tls_context_api =
  tc_enabled :: bool
  tc_new :: "'c"
  tc_set_password :: "string \<Rightarrow> 'c \<Rightarrow> 'c"
  tc_use_certificate :: "string \<Rightarrow> 'c \<Rightarrow> thrown + 'c"
  tc_use_rsa_private_key :: "string \<Rightarrow> 'c \<Rightarrow> thrown + 'c"

record ('a, 'c, 'l) http_server_conf =
  hs_acceptor :: 'a
  hs_read_timeout :: nat
  hs_write_timeout :: nat
  hs_default_logger :: 'l
  hs_custom_logger :: "'l option"
  hs_ssl_context :: "'c option"

definition http_server_new :: "'a \<Rightarrow> 'l \<Rightarrow> ('a, 'c, 'l) http_server_conf" where
  "http_server_new acceptor console =
     \<lparr>hs_acceptor = acceptor, hs_read_timeout = 30, hs_write_timeout = 30,
      hs_default_logger = console, hs_custom_logger = None, hs_ssl_context = None\<rparr>"

section \<open>Listening\<close>

text \<open>One operation after the other, until one throws.\<close>

fun run_all :: "('a \<Rightarrow> 'a \<times> thrown option) list \<Rightarrow> 'a \<Rightarrow> 'a \<times> thrown option" where
  "run_all [] a = (a, None)"
| "run_all (f # fs) a = (case f a of (a', Some e) \<Rightarrow> (a', Some e) | (a', None) \<Rightarrow> run_all fs a')"

definition server_listen ::
  "('a, 'e) acceptor_api \<Rightarrow> string \<Rightarrow> nat \<Rightarrow> nat \<Rightarrow> ('a, 'c, 'l) http_server_conf \<Rightarrow>
   ('a, 'c, 'l) http_server_conf \<times> thrown option" where
  "server_listen N host port backlog s =
     (case aa_resolve N host (dec_nat port) of
        Inl e \<Rightarrow> (s, Some e)
      | Inr results \<Rightarrow>
          let endp = hd results
          in case run_all [aa_open N endp, aa_reuse_address N, aa_bind N endp, aa_listen N backlog]
                 (hs_acceptor s) of
               (a, e) \<Rightarrow> (s\<lparr>hs_acceptor := a\<rparr>, e))"

definition server_listen_any ::
  "('a, 'e) acceptor_api \<Rightarrow> nat \<Rightarrow> nat \<Rightarrow> ('a, 'c, 'l) http_server_conf \<Rightarrow>
   ('a, 'c, 'l) http_server_conf \<times> thrown option" where
  "server_listen_any N port backlog = server_listen N ''0.0.0.0'' port backlog"

section \<open>Timeouts and the logger\<close>

definition set_read_timeout :: "nat \<Rightarrow> ('a, 'c, 'l) http_server_conf \<Rightarrow> ('a, 'c, 'l) http_server_conf" where
  "set_read_timeout d s = s\<lparr>hs_read_timeout := d\<rparr>"

definition set_write_timeout :: "nat \<Rightarrow> ('a, 'c, 'l) http_server_conf \<Rightarrow> ('a, 'c, 'l) http_server_conf" where
  "set_write_timeout d s = s\<lparr>hs_write_timeout := d\<rparr>"

definition get_logger :: "('a, 'c, 'l) http_server_conf \<Rightarrow> 'l" where
  "get_logger s = (case hs_custom_logger s of Some l \<Rightarrow> l | None \<Rightarrow> hs_default_logger s)"

definition set_logger :: "'l option \<Rightarrow> ('a, 'c, 'l) http_server_conf \<Rightarrow> ('a, 'c, 'l) http_server_conf" where
  "set_logger l s = s\<lparr>hs_custom_logger := l\<rparr>"

section \<open>TLS\<close>

definition use_ssl ::
  "'c tls_context_api \<Rightarrow> string \<Rightarrow> string \<Rightarrow> string \<Rightarrow> ('a, 'c, 'l) http_server_conf \<Rightarrow>
   ('a, 'c, 'l) http_server_conf \<times> thrown option" where
  "use_ssl T cert key passwd s =
     (if \<not> tc_enabled T then (s, Some (System_Error Protocol_Not_Supported))
      else
        let ctx = (if passwd = [] then tc_new T else tc_set_password T passwd (tc_new T))
        in case tc_use_certificate T cert ctx of
             Inl e \<Rightarrow> (s, Some e)
           | Inr ctx1 \<Rightarrow>
               (case tc_use_rsa_private_key T key ctx1 of
                  Inl e \<Rightarrow> (s, Some e)
                | Inr ctx2 \<Rightarrow> (s\<lparr>hs_ssl_context := Some ctx2\<rparr>, None)))"

definition read_file_fast :: "fs_api \<Rightarrow> string \<Rightarrow> string result" where
  "read_file_fast FS path =
     (case fsys_read FS path of
        None \<Rightarrow> Inl (Runtime_Error (''Cannot open file: '' @ path))
      | Some data \<Rightarrow> Inr data)"

text \<open>
  Which of the two files is read first is up to the compiler; it shows only in the exception. An
  exception of either kind leaves the server as it was.
\<close>

definition use_ssl_file ::
  "'c tls_context_api \<Rightarrow> fs_api \<Rightarrow> bool \<Rightarrow> string \<Rightarrow> string \<Rightarrow> string \<Rightarrow> ('a, 'c, 'l) http_server_conf \<Rightarrow>
   ('a, 'c, 'l) http_server_conf \<times> (fault + thrown option)" where
  "use_ssl_file T FS key_first cert_file key_file passwd s =
     (case (read_file_fast FS cert_file, read_file_fast FS key_file) of
        (Inl e, Inl e') \<Rightarrow> (s, Inl (if key_first then e' else e))
      | (Inl e, Inr key) \<Rightarrow> (s, Inl e)
      | (Inr cert, Inl e) \<Rightarrow> (s, Inl e)
      | (Inr cert, Inr key) \<Rightarrow> (case use_ssl T cert key passwd s of (s', e) \<Rightarrow> (s', Inr e)))"

section \<open>Lemmas\<close>

text \<open>What Boost.Asio documents of an acceptor: an open one cannot be opened again and stays open.\<close>

definition acceptor_laws :: "('a, 'e) acceptor_api \<Rightarrow> bool" where
  "acceptor_laws N \<longleftrightarrow>
     (\<forall>p a. aa_is_open N a \<longrightarrow> (\<exists>e. aa_open N p a = (a, Some e))) \<and>
     (\<forall>p a a'. aa_open N p a = (a', None) \<longrightarrow> aa_is_open N a') \<and>
     (\<forall>a. aa_is_open N a \<longrightarrow> aa_is_open N (fst (aa_reuse_address N a))) \<and>
     (\<forall>p a. aa_is_open N a \<longrightarrow> aa_is_open N (fst (aa_bind N p a))) \<and>
     (\<forall>b a. aa_is_open N a \<longrightarrow> aa_is_open N (fst (aa_listen N b a)))"

lemma run_all_open:
  "\<forall>f\<in>set fs. \<forall>a. aa_is_open N a \<longrightarrow> aa_is_open N (fst (f a)) \<Longrightarrow> aa_is_open N a \<Longrightarrow>
   aa_is_open N (fst (run_all fs a))"
proof (induction fs arbitrary: a)
  case (Cons f fs)
  obtain a' e where f: "f a = (a', e)" by (cases "f a")
  with Cons.prems have "aa_is_open N a'" by (metis fst_conv list.set_intros(1))
  with f Cons.IH [of a'] Cons.prems(1) show ?case by (cases e) simp_all
qed simp

lemma listen_stays_open:
  assumes "acceptor_laws N" and "aa_resolve N host (dec_nat port) = Inr endps"
    and "aa_open N (hd endps) (hs_acceptor s) = (a, None)"
  shows "aa_is_open N (hs_acceptor (fst (server_listen N host port backlog s)))"
proof -
  have a: "aa_is_open N a" using assms(1,3) unfolding acceptor_laws_def by blast
  have "\<forall>f\<in>set [aa_reuse_address N, aa_bind N (hd endps), aa_listen N backlog]. \<forall>a. aa_is_open N a \<longrightarrow> aa_is_open N (fst (f a))"
    using assms(1) unfolding acceptor_laws_def by simp
  from run_all_open [OF this a] have "aa_is_open N
      (fst (run_all [aa_open N (hd endps), aa_reuse_address N, aa_bind N (hd endps), aa_listen N backlog] (hs_acceptor s)))"
    using assms(3) by simp
  then show ?thesis
    using assms(2) by (simp add: server_listen_def Let_def case_prod_beta del: run_all.simps)
qed

lemma use_ssl_failed: "use_ssl T cert key passwd s = (s', Some e) \<Longrightarrow> s' = s"
  by (auto simp: use_ssl_def Let_def split: if_splits sum.splits)

section \<open>Properties\<close>

text \<open>
  A server whose address was in use cannot be told to listen elsewhere: once the socket has been opened,
  whatever fails after that, the acceptor stays open, and every later call of listen throws because
  it tries to open it again.
\<close>

theorem listen_cannot_be_retried:
  assumes "acceptor_laws N" and "aa_resolve N host (dec_nat port) = Inr endps"
    and "aa_open N (hd endps) (hs_acceptor s) = (a, None)"
    and "server_listen N host port backlog s = (s1, e)"
    and "aa_resolve N host' (dec_nat port') = Inr endps'"
  shows "\<exists>e'. server_listen N host' port' backlog' s1 = (s1, Some e')"
proof -
  have "aa_is_open N (hs_acceptor s1)"
    using listen_stays_open [OF assms(1-3), of backlog] assms(4) by simp
  then obtain e' where "aa_open N (hd endps') (hs_acceptor s1) = (hs_acceptor s1, Some e')"
    using assms(1) unfolding acceptor_laws_def by blast
  with assms(5) show ?thesis by (simp add: server_listen_def Let_def)
qed

text \<open>An acceptor that is open, bound and listening to a port; port 80 is taken.\<close>

definition small_acceptor :: "(bool \<times> nat option, nat) acceptor_api" where
  "small_acceptor =
     \<lparr>aa_resolve = (\<lambda>host port. Inr [if port = ''80'' then 80 else 81]),
      aa_open = (\<lambda>p (is_open, b). if is_open then ((is_open, b), Some Other_Exception) else ((True, None), None)),
      aa_reuse_address = (\<lambda>a. (a, None)),
      aa_bind = (\<lambda>p (is_open, b). if p = 80 then ((is_open, b), Some Other_Exception) else ((is_open, Some p), None)),
      aa_listen = (\<lambda>n a. (a, None)), aa_is_open = fst, aa_local_endpoint = (\<lambda>a. the (snd a))\<rparr>"

lemma small_acceptor_laws: "acceptor_laws small_acceptor"
  by (auto simp: acceptor_laws_def small_acceptor_def)

theorem listen_cannot_be_retried_witness:
  "let s = http_server_new (False, None) () :: (bool \<times> nat option, unit, unit) http_server_conf;
       s1 = fst (server_listen small_acceptor ''::1'' 80 5 s)
   in snd (server_listen small_acceptor ''::1'' 80 5 s) = Some Other_Exception \<and>
      snd (server_listen small_acceptor ''::1'' 81 5 s) = None \<and>
      (\<exists>e'. server_listen small_acceptor ''::1'' 81 5 s1 = (s1, Some e'))"
proof -
  let ?s = "http_server_new (False, None) () :: (bool \<times> nat option, unit, unit) http_server_conf"
  have "dec_nat 80 = ''80''" "dec_nat 81 = ''81''" by code_simp+
  note simps = this server_listen_def small_acceptor_def http_server_new_def
  have "\<exists>e'. server_listen small_acceptor ''::1'' 81 5 (fst (server_listen small_acceptor ''::1'' 80 5 ?s)) =
      (fst (server_listen small_acceptor ''::1'' 80 5 ?s), Some e')"
    by (rule listen_cannot_be_retried [OF small_acceptor_laws _ _ surjective_pairing, where endps = "[80]" and endps' = "[81]"])
      (simp_all add: simps)
  then show ?thesis unfolding Let_def by (intro conjI) (simp_all add: simps)
qed

text \<open>
  Setting TLS up is all or nothing: when a file cannot be read, or the certificate or the key is refused,
  or the library was built without TLS, the server is as it was before.
\<close>

theorem use_ssl_file_all_or_nothing:
  "case use_ssl_file T FS key_first cert_file key_file passwd s of
     (s', Inl e) \<Rightarrow> s' = s
   | (s', Inr (Some e)) \<Rightarrow> s' = s
   | (s', Inr None) \<Rightarrow> \<exists>ctx. s' = s\<lparr>hs_ssl_context := Some ctx\<rparr>"
proof -
  have ok: "use_ssl T cert key passwd s = (s', None) \<Longrightarrow> \<exists>ctx. s' = s\<lparr>hs_ssl_context := Some ctx\<rparr>" for cert key s'
    by (auto simp: use_ssl_def Let_def split: if_splits sum.splits)
  show ?thesis
    using ok use_ssl_failed by (auto simp: use_ssl_file_def split: sum.splits prod.splits option.splits)
qed

end
