(* ===== verification/Ws_Client.thy ===== *)
theory Ws_Client
  imports Client Action_Queue
begin

text \<open>
  The WebSocket client (\<open>lib/client/ws_client_impl.cpp\<close>, \<open>ws_client.cpp\<close>): connecting,
  the operations on an open connection, the actions it queues, and the coroutine that hands what it
  reads to its callbacks. The streams, of HTTP until it is connected and of WebSocket from then on,
  are the parameter \<open>ws\_client\_api\<close>. An outcome is \<open>None\<close> for success,
  \<open>System\_Error\<close> for an error code that is returned, and \<open>Other\_Exception\<close> for an
  exception that leaves the operation.
\<close>

section \<open>The client\<close>

record ('h, 's, 'e) ws_client_api =
  wa_new_stream :: "string \<Rightarrow> bool \<Rightarrow> thrown + 'h"
  wa_resolve :: "string \<Rightarrow> string \<Rightarrow> thrown + 'e"
  wa_connect :: "'h \<Rightarrow> 'e \<Rightarrow> thrown + 's"
  wa_stream_open :: "'s \<Rightarrow> bool"
  wa_handshake :: "'s \<Rightarrow> string \<Rightarrow> string \<Rightarrow> (field \<times> string) list \<Rightarrow> 's \<times> thrown option"
  wa_set_binary :: "bool \<Rightarrow> 's \<Rightarrow> 's"
  wa_send :: "'s \<Rightarrow> string \<Rightarrow> 's \<times> thrown option"
  wa_receive :: "'s \<Rightarrow> 's \<times> string \<times> thrown option"
  wa_got_binary :: "'s \<Rightarrow> bool"
  wa_got_text :: "'s \<Rightarrow> bool"
  wa_send_ping :: "'s \<Rightarrow> string \<Rightarrow> 's \<times> thrown option"
  wa_send_pong :: "'s \<Rightarrow> string \<Rightarrow> 's \<times> thrown option"
  wa_close_or_timeout :: "'s \<Rightarrow> 's \<times> bool"
  wa_shutdown_socket :: "'s \<Rightarrow> 's \<times> ec option"

datatype ws_client_action = Queue_Send string bool | Queue_Close

text \<open>Callbacks share the state of the application and may throw; any of them may be unset.\<close>

record ('s, 'a) ws_client =
  wk_host :: string
  wk_port :: nat
  wk_use_ssl :: bool
  wk_stream :: "'s option"
  wk_buffer :: string
  wk_queue :: "ws_client_action action_queue"
  wk_open_handler :: "(thrown option \<Rightarrow> 'a \<Rightarrow> 'a \<times> bool) option"
  wk_message_handler :: "(string \<Rightarrow> bool \<Rightarrow> 'a \<Rightarrow> 'a \<times> bool) option"
  wk_close_handler :: "('a \<Rightarrow> 'a \<times> bool) option"
  wk_app :: 'a

definition ws_client_new :: "string \<Rightarrow> nat \<Rightarrow> bool \<Rightarrow> 'a \<Rightarrow> ('s, 'a) ws_client" where
  "ws_client_new host port ssl a =
     \<lparr>wk_host = host, wk_port = port, wk_use_ssl = ssl, wk_stream = None, wk_buffer = [],
      wk_queue = aq_new, wk_open_handler = None, wk_message_handler = None, wk_close_handler = None,
      wk_app = a\<rparr>"

definition set_handler_impl ::
  "(thrown option \<Rightarrow> 'a \<Rightarrow> 'a \<times> bool) option \<Rightarrow> (string \<Rightarrow> bool \<Rightarrow> 'a \<Rightarrow> 'a \<times> bool) option \<Rightarrow>
   ('a \<Rightarrow> 'a \<times> bool) option \<Rightarrow> ('s, 'a) ws_client \<Rightarrow> ('s, 'a) ws_client" where
  "set_handler_impl op msg cls c =
     c\<lparr>wk_open_handler := op, wk_message_handler := msg, wk_close_handler := cls\<rparr>"

definition ws_is_open :: "('h, 's, 'e) ws_client_api \<Rightarrow> ('s, 'a) ws_client \<Rightarrow> bool" where
  "ws_is_open W c = (case wk_stream c of None \<Rightarrow> False | Some s \<Rightarrow> wa_stream_open W s)"

definition got_binary :: "('h, 's, 'e) ws_client_api \<Rightarrow> ('s, 'a) ws_client \<Rightarrow> bool" where
  "got_binary W c = (case wk_stream c of None \<Rightarrow> False | Some s \<Rightarrow> wa_got_binary W s)"

definition got_text :: "('h, 's, 'e) ws_client_api \<Rightarrow> ('s, 'a) ws_client \<Rightarrow> bool" where
  "got_text W c = (case wk_stream c of None \<Rightarrow> False | Some s \<Rightarrow> wa_got_text W s)"

definition got_data :: "('s, 'a) ws_client \<Rightarrow> string" where
  "got_data c = wk_buffer c"

section \<open>Connecting and the operations\<close>

definition ws_handshake ::
  "('h, 's, 'e) ws_client_api \<Rightarrow> string \<Rightarrow> string \<Rightarrow> (field \<times> string) list \<Rightarrow> 's \<Rightarrow> ('s, 'a) ws_client \<Rightarrow>
   ('s, 'a) ws_client \<times> thrown option" where
  "ws_handshake W version path headers s c =
     (case wa_handshake W s (wk_host c) path ((F_user_agent, version @ ''websocket-client-coro'') # headers) of
        (s', e) \<Rightarrow> (c\<lparr>wk_stream := Some s'\<rparr>, e))"

definition ws_async_connect ::
  "('h, 's, 'e) ws_client_api \<Rightarrow> string \<Rightarrow> string \<Rightarrow> (field \<times> string) list \<Rightarrow> ('s, 'a) ws_client \<Rightarrow>
   ('s, 'a) ws_client \<times> thrown option" where
  "ws_async_connect W version path headers c =
     (let new = (\<lambda>_. case wa_new_stream W (wk_host c) (wk_use_ssl c) of
            Inl e \<Rightarrow> (c, Some e)
          | Inr s0 \<Rightarrow>
              (case wa_resolve W (wk_host c) (dec_nat (wk_port c)) of
                 Inl e \<Rightarrow> (c, Some e)
               | Inr endpoints \<Rightarrow>
                   (case wa_connect W s0 endpoints of
                      Inl e \<Rightarrow> (c, Some e)
                    | Inr s \<Rightarrow> ws_handshake W version path headers s c)))
      in case wk_stream c of
           None \<Rightarrow> new ()
         | Some s \<Rightarrow> if wa_stream_open W s then ws_handshake W version path headers s c else new ())"

text \<open>An operation on the stream, which must be open.\<close>

definition on_open ::
  "('h, 's, 'e) ws_client_api \<Rightarrow> ('s \<Rightarrow> ('s, 'a) ws_client \<times> thrown option) \<Rightarrow> ('s, 'a) ws_client \<Rightarrow>
   ('s, 'a) ws_client \<times> thrown option" where
  "on_open W f c =
     (case wk_stream c of
        None \<Rightarrow> (c, Some (System_Error Not_Connected))
      | Some s \<Rightarrow> if wa_stream_open W s then f s else (c, Some (System_Error Not_Connected)))"

definition ws_async_send ::
  "('h, 's, 'e) ws_client_api \<Rightarrow> string \<Rightarrow> bool \<Rightarrow> ('s, 'a) ws_client \<Rightarrow> ('s, 'a) ws_client \<times> thrown option" where
  "ws_async_send W data binary c =
     on_open W (\<lambda>s. case wa_send W (wa_set_binary W binary s) data of
       (s', e) \<Rightarrow> (c\<lparr>wk_stream := Some s'\<rparr>, e)) c"

definition ws_async_read ::
  "('h, 's, 'e) ws_client_api \<Rightarrow> ('s, 'a) ws_client \<Rightarrow> ('s, 'a) ws_client \<times> thrown option" where
  "ws_async_read W c =
     on_open W (\<lambda>s. case wa_receive W s of
       (s', bytes, e) \<Rightarrow> (c\<lparr>wk_stream := Some s', wk_buffer := bytes\<rparr>, e)) c"

definition ws_async_ping ::
  "('h, 's, 'e) ws_client_api \<Rightarrow> string \<Rightarrow> ('s, 'a) ws_client \<Rightarrow> ('s, 'a) ws_client \<times> thrown option" where
  "ws_async_ping W msg c =
     on_open W (\<lambda>s. case wa_send_ping W s msg of (s', e) \<Rightarrow> (c\<lparr>wk_stream := Some s'\<rparr>, e)) c"

definition ws_async_pong ::
  "('h, 's, 'e) ws_client_api \<Rightarrow> string \<Rightarrow> ('s, 'a) ws_client \<Rightarrow> ('s, 'a) ws_client \<times> thrown option" where
  "ws_async_pong W msg c =
     on_open W (\<lambda>s. case wa_send_pong W s msg of (s', e) \<Rightarrow> (c\<lparr>wk_stream := Some s'\<rparr>, e)) c"

text \<open>
  The close handshake races with a timer; the two share one error code, and the flag tells whether it
  is set in the end. Only then is the socket shut down.
\<close>

definition ws_async_close ::
  "('h, 's, 'e) ws_client_api \<Rightarrow> ('s, 'a) ws_client \<Rightarrow> ('s, 'a) ws_client \<times> thrown option" where
  "ws_async_close W c =
     on_open W (\<lambda>s. case wa_close_or_timeout W s of
       (s', err) \<Rightarrow>
         if \<not> err then (c\<lparr>wk_stream := Some s'\<rparr>, None)
         else
           (case wa_shutdown_socket W s' of
              (s'', e) \<Rightarrow> (c\<lparr>wk_stream := Some s''\<rparr>, map_option System_Error e))) c"

section \<open>Queued actions\<close>

definition ws_send :: "string \<Rightarrow> bool \<Rightarrow> ('s, 'a) ws_client \<Rightarrow> ('s, 'a) ws_client" where
  "ws_send data binary c = c\<lparr>wk_queue := aq_push (Queue_Send data binary) (wk_queue c)\<rparr>"

definition ws_client_close :: "('s, 'a) ws_client \<Rightarrow> ('s, 'a) ws_client" where
  "ws_client_close c = c\<lparr>wk_queue := aq_push Queue_Close (aq_clear (wk_queue c))\<rparr>"

text \<open>What an action does when it is run; an error code is logged.\<close>

fun run_client_action ::
  "('h, 's, 'e) ws_client_api \<Rightarrow> ws_client_action \<Rightarrow> ('s, 'a) ws_client \<Rightarrow> ('s, 'a) ws_client \<times> thrown option" where
  "run_client_action W (Queue_Send data binary) c = ws_async_send W data binary c"
| "run_client_action W Queue_Close c = ws_async_close W c"

section \<open>async\_run\<close>

text \<open>How the coroutine ends: by itself, or by an exception, which nobody sees.\<close>

datatype run_outcome = Run_Returned | Run_Threw

definition call_close :: "('s, 'a) ws_client \<Rightarrow> ('s, 'a) ws_client \<times> run_outcome" where
  "call_close c =
     (case wk_close_handler c of
        None \<Rightarrow> (c, Run_Returned)
      | Some f \<Rightarrow>
          (case f (wk_app c) of
             (a, threw) \<Rightarrow> (c\<lparr>wk_app := a\<rparr>, if threw then Run_Threw else Run_Returned)))"

partial_function (option) ws_client_loop ::
  "('h, 's, 'e) ws_client_api \<Rightarrow> ('s, 'a) ws_client \<Rightarrow> (('s, 'a) ws_client \<times> run_outcome) option" where
  "ws_client_loop W c =
     (if \<not> ws_is_open W c then Some (call_close c)
      else
        (case ws_async_read W c of
           (c1, Some (System_Error e)) \<Rightarrow> Some (call_close c1)
         | (c1, Some Other_Exception) \<Rightarrow> Some (c1, Run_Threw)
         | (c1, None) \<Rightarrow>
             (case wk_message_handler c1 of
                None \<Rightarrow> ws_client_loop W c1
              | Some f \<Rightarrow>
                  (case f (got_data c1) (got_binary W c1) (wk_app c1) of
                     (a, threw) \<Rightarrow>
                       if threw then Some (c1\<lparr>wk_app := a\<rparr>, Run_Threw)
                       else ws_client_loop W (c1\<lparr>wk_app := a\<rparr>)))))"

declare ws_client_loop.simps [code]

text \<open>Calling the open handler when there is none throws.\<close>

definition ws_async_run ::
  "('h, 's, 'e) ws_client_api \<Rightarrow> string \<Rightarrow> string \<Rightarrow> (field \<times> string) list \<Rightarrow> ('s, 'a) ws_client \<Rightarrow>
   (('s, 'a) ws_client \<times> run_outcome) option" where
  "ws_async_run W version path headers c =
     (case ws_async_connect W version path headers c of
        (c1, Some Other_Exception) \<Rightarrow> Some (c1, Run_Threw)
      | (c1, e) \<Rightarrow>
          (case wk_open_handler c1 of
             None \<Rightarrow> Some (c1, Run_Threw)
           | Some f \<Rightarrow>
               (case f e (wk_app c1) of
                  (a, threw) \<Rightarrow>
                    if threw then Some (c1\<lparr>wk_app := a\<rparr>, Run_Threw)
                    else if e \<noteq> None then Some (c1\<lparr>wk_app := a\<rparr>, Run_Returned)
                    else ws_client_loop W (c1\<lparr>wk_app := a\<rparr>))))"

section \<open>What the loop hands out\<close>

text \<open>The messages a stream delivers, and where it is then.\<close>

fun receives :: "('h, 's, 'e) ws_client_api \<Rightarrow> 's \<Rightarrow> (string \<times> bool) list \<Rightarrow> 's \<Rightarrow> bool" where
  "receives W s [] s' \<longleftrightarrow> s' = s"
| "receives W s (m # ms) s' \<longleftrightarrow>
     wa_stream_open W s \<and> snd (wa_receive W s) = (fst m, None) \<and>
     wa_got_binary W (fst (wa_receive W s)) = snd m \<and> receives W (fst (wa_receive W s)) ms s'"

text \<open>A stream at its end: closed, or failing with an error code.\<close>

definition at_end :: "('h, 's, 'e) ws_client_api \<Rightarrow> 's \<Rightarrow> bool" where
  "at_end W s \<longleftrightarrow> \<not> wa_stream_open W s \<or>
     (case wa_receive W s of (_, _, Some (System_Error _)) \<Rightarrow> True | _ \<Rightarrow> False)"

abbreviation all_messages :: "(string \<Rightarrow> bool \<Rightarrow> 'a \<Rightarrow> 'a \<times> bool) \<Rightarrow> (string \<times> bool) list \<Rightarrow> 'a \<Rightarrow> 'a" where
  "all_messages msg ms a \<equiv> foldl (\<lambda>a (m, b). fst (msg m b a)) a ms"

lemma ws_client_loop_messages:
  assumes "\<And>m b a. snd (msg m b a) = bad m"
  shows "wk_message_handler c = Some msg \<Longrightarrow> wk_stream c = Some s \<Longrightarrow> receives W s ms s' \<Longrightarrow>
    list_all (\<lambda>m. \<not> bad (fst m)) ms \<Longrightarrow>
    \<exists>buf. ws_client_loop W c =
      ws_client_loop W (c\<lparr>wk_stream := Some s', wk_buffer := buf, wk_app := all_messages msg ms (wk_app c)\<rparr>)"
proof (induction ms arbitrary: c s)
  case Nil
  then have "c\<lparr>wk_stream := Some s', wk_buffer := wk_buffer c, wk_app := wk_app c\<rparr> = c" by simp
  then show ?case by (metis foldl_Nil)
next
  case (Cons mb ms)
  obtain m b where mb: "mb = (m, b)" by (cases mb)
  obtain s1 where r: "wa_receive W s = (s1, m, None)"
    using Cons.prems(3) mb by (cases "wa_receive W s") auto
  obtain a where a: "msg m b (wk_app c) = (a, False)"
    using assms [of m b "wk_app c"] Cons.prems(4) mb by (cases "msg m b (wk_app c)") auto
  let ?c = "c\<lparr>wk_stream := Some s1, wk_buffer := m, wk_app := a\<rparr>"
  have open_b: "wa_stream_open W s" "wa_got_binary W s1 = b" "receives W s1 ms s'"
    using Cons.prems(3) r mb by auto
  then have "ws_client_loop W c = ws_client_loop W ?c"
    using Cons.prems(1,2) r a
    by (subst ws_client_loop.simps)
      (simp add: ws_is_open_def ws_async_read_def on_open_def got_binary_def got_data_def)
  moreover have "\<exists>buf. ws_client_loop W ?c =
      ws_client_loop W (?c\<lparr>wk_stream := Some s', wk_buffer := buf, wk_app := all_messages msg ms (wk_app ?c)\<rparr>)"
    using Cons.prems open_b(3) by (intro Cons.IH [of _ s1]) simp_all
  ultimately show ?case using a mb by simp
qed

lemma ws_client_loop_ends:
  assumes "wk_stream c = Some s" and "at_end W s"
  shows "\<exists>s' buf. ws_client_loop W c = Some (call_close (c\<lparr>wk_stream := Some s', wk_buffer := buf\<rparr>))"
proof (cases "wa_stream_open W s")
  case False
  moreover have "c\<lparr>wk_stream := Some s, wk_buffer := wk_buffer c\<rparr> = c"
    by (simp flip: assms(1))
  ultimately have "ws_client_loop W c = Some (call_close (c\<lparr>wk_stream := Some s, wk_buffer := wk_buffer c\<rparr>))"
    using assms(1) by (subst ws_client_loop.simps) (simp only: ws_is_open_def option.case if_True simp_thms)
  then show ?thesis by blast
next
  case True
  with assms(2) obtain s' buf e where "wa_receive W s = (s', buf, Some (System_Error e))"
    by (auto simp: at_end_def split: prod.splits option.splits thrown.splits)
  with True assms(1) have "ws_client_loop W c = Some (call_close (c\<lparr>wk_stream := Some s', wk_buffer := buf\<rparr>))"
    by (subst ws_client_loop.simps) (simp add: ws_is_open_def ws_async_read_def on_open_def)
  then show ?thesis by blast
qed

lemma ws_async_run_connected:
  assumes "ws_async_connect W version path headers c = (c1, None)"
    and "wk_open_handler c1 = Some opn" and "opn None (wk_app c1) = (a, False)"
  shows "ws_async_run W version path headers c = ws_client_loop W (c1\<lparr>wk_app := a\<rparr>)"
  using assms by (simp add: ws_async_run_def)

section \<open>Properties\<close>

text \<open>
  C25. A client that has connected hands every message it receives to its callback, whole, with its
  kind, in order and once, until the connection ends, and then calls the close callback once.
\<close>

theorem ws_client_callbacks:
  assumes "ws_async_connect W version path headers c = (c1, None)" and "wk_stream c1 = Some s"
    and "wk_open_handler c1 = Some opn" and "opn None (wk_app c1) = (a, False)"
    and "wk_message_handler c1 = Some msg" and "\<And>m b a. \<not> snd (msg m b a)"
    and "wk_close_handler c1 = Some cls" and "\<And>a. \<not> snd (cls a)"
    and "receives W s ms s'" and "at_end W s'"
  shows "\<exists>c'. ws_async_run W version path headers c = Some (c', Run_Returned) \<and>
    wk_app c' = fst (cls (all_messages msg ms a))"
proof -
  let ?c = "c1\<lparr>wk_app := a\<rparr>"
  obtain buf where loop: "ws_client_loop W ?c = ws_client_loop W
      (?c\<lparr>wk_stream := Some s', wk_buffer := buf, wk_app := all_messages msg ms (wk_app ?c)\<rparr>)"
    using ws_client_loop_messages [of msg "\<lambda>_. False" ?c s W ms s'] assms(2,5,6,9)
    by (auto simp: list_all_iff)
  let ?d = "?c\<lparr>wk_stream := Some s', wk_buffer := buf, wk_app := all_messages msg ms (wk_app ?c)\<rparr>"
  obtain s'' buf' where
    "ws_client_loop W ?d = Some (call_close (?d\<lparr>wk_stream := Some s'', wk_buffer := buf'\<rparr>))"
    using ws_client_loop_ends [of ?d s' W] assms(10) by auto
  then have "ws_async_run W version path headers c =
      Some (call_close (?d\<lparr>wk_stream := Some s'', wk_buffer := buf'\<rparr>))"
    using loop ws_async_run_connected [OF assms(1,3,4)] by simp
  moreover obtain a' where "cls (all_messages msg ms a) = (a', False)"
    using assms(8) [of "all_messages msg ms a"] by (cases "cls (all_messages msg ms a)") auto
  ultimately show ?thesis using assms(7) by (simp add: call_close_def)
qed

text \<open>A stream of given messages, and callbacks that keep a log.\<close>

definition line_api :: "(string \<times> bool) list \<Rightarrow> (unit, (string \<times> bool) list \<times> bool, unit) ws_client_api" where
  "line_api input =
     \<lparr>wa_new_stream = (\<lambda>host ssl. Inr ()), wa_resolve = (\<lambda>host port. Inr ()),
      wa_connect = (\<lambda>s e. Inr (input, False)), wa_stream_open = (\<lambda>s. True),
      wa_handshake = (\<lambda>s host path headers. (s, None)), wa_set_binary = (\<lambda>b s. s),
      wa_send = (\<lambda>s data. (s, None)),
      wa_receive = (\<lambda>s. case fst s of
        [] \<Rightarrow> (s, [], Some (System_Error End_Of_Stream))
      | (m, b) # ms \<Rightarrow> ((ms, b), m, None)),
      wa_got_binary = snd, wa_got_text = (\<lambda>s. \<not> snd s), wa_send_ping = (\<lambda>s msg. (s, None)),
      wa_send_pong = (\<lambda>s msg. (s, None)), wa_close_or_timeout = (\<lambda>s. (s, True)),
      wa_shutdown_socket = (\<lambda>s. (s, None))\<rparr>"

definition logging_client :: "(string \<Rightarrow> bool) \<Rightarrow> ((string \<times> bool) list \<times> bool, string list) ws_client" where
  "logging_client bad =
     set_handler_impl (Some (\<lambda>e l. (l @ [''open''], False))) (Some (\<lambda>m b l. (l @ [m], bad m)))
       (Some (\<lambda>l. (l @ [''close''], False))) (ws_client_new ''h'' 80 False [])"

lemma logging_connect:
  "ws_async_connect (line_api input) version path headers (logging_client bad) =
     ((logging_client bad)\<lparr>wk_stream := Some (input, False)\<rparr>, None)"
  by (simp add: ws_async_connect_def logging_client_def set_handler_impl_def ws_client_new_def line_api_def
      ws_handshake_def)

lemmas logging_simps = logging_client_def set_handler_impl_def ws_client_new_def

theorem ws_client_callbacks_witness:
  "\<exists>c'. ws_async_run (line_api [(''hi'', True), (''ho'', False)]) ''v'' ''/'' [] (logging_client (\<lambda>_. False)) =
      Some (c', Run_Returned) \<and> wk_app c' = [''open'', ''hi'', ''ho'', ''close'']"
proof -
  let ?W = "line_api [(''hi'', True), (''ho'', False)]"
  have ends: "at_end ?W ([], False)" by (simp add: at_end_def line_api_def)
  have got: "receives ?W ([(''hi'', True), (''ho'', False)], False) [(''hi'', True), (''ho'', False)] ([], False)"
    by (simp add: line_api_def)
  show ?thesis
    using ws_client_callbacks [OF logging_connect [of _ "''v''" "''/''" "[]" "\<lambda>_. False"] _ _ _ _ _ _ _ got ends,
        of "\<lambda>e l. (l @ [''open''], False)" "[''open'']" "\<lambda>m b l. (l @ [m], False)" "\<lambda>l. (l @ [''close''], False)"]
    by (simp add: logging_simps)
qed

text \<open>
  Unlike the connection of the server, a client whose message callback throws stops for good: the
  run ends there, later messages are not read, and the close callback is not called.
\<close>

theorem ws_client_throwing_callback_ends_run:
  assumes "ws_async_connect W version path headers c = (c1, None)" and "wk_stream c1 = Some s"
    and "wk_open_handler c1 = Some opn" and "opn None (wk_app c1) = (a, False)"
    and "wk_message_handler c1 = Some msg" and "\<And>m b a. snd (msg m b a) = bad m"
    and "list_all (\<lambda>m. \<not> bad (fst m)) ms" and "bad m" and "receives W s (ms @ [(m, b)]) s'"
  shows "\<exists>c'. ws_async_run W version path headers c = Some (c', Run_Threw) \<and>
    wk_app c' = fst (msg m b (all_messages msg ms a))"
proof -
  let ?c = "c1\<lparr>wk_app := a\<rparr>"
  have split: "receives W s (xs @ ys) s' \<longleftrightarrow> (\<exists>t. receives W s xs t \<and> receives W t ys s')" for s xs ys
    by (induction xs arbitrary: s) auto
  from assms(9) obtain t where t: "receives W s ms t" "receives W t [(m, b)] s'" by (auto simp: split)
  obtain buf where loop: "ws_client_loop W ?c = ws_client_loop W
      (?c\<lparr>wk_stream := Some t, wk_buffer := buf, wk_app := all_messages msg ms (wk_app ?c)\<rparr>)"
    using ws_client_loop_messages [of msg bad ?c s W ms t] assms(2,5-7) t(1) by auto
  let ?d = "?c\<lparr>wk_stream := Some t, wk_buffer := buf, wk_app := all_messages msg ms (wk_app ?c)\<rparr>"
  obtain a' where a': "msg m b (all_messages msg ms a) = (a', True)"
    using assms(6) [of m b "all_messages msg ms a"] assms(8) by (cases "msg m b (all_messages msg ms a)") auto
  from t(2) have "wa_receive W t = (s', m, None)" by (cases "wa_receive W t") auto
  with t(2) a' assms(5) have "ws_client_loop W ?d =
      Some (?d\<lparr>wk_stream := Some s', wk_buffer := m, wk_app := a'\<rparr>, Run_Threw)"
    by (subst ws_client_loop.simps)
      (simp add: ws_is_open_def ws_async_read_def on_open_def got_binary_def got_data_def)
  with loop a' ws_async_run_connected [OF assms(1,3,4)] show ?thesis by simp
qed

theorem ws_client_throwing_callback_ends_run_witness:
  "\<exists>c'. ws_async_run (line_api [(''hi'', True), (''bad'', False), (''ho'', False)]) ''v'' ''/'' []
      (logging_client (\<lambda>m. m = ''bad'')) = Some (c', Run_Threw) \<and> wk_app c' = [''open'', ''hi'', ''bad'']"
proof -
  let ?W = "line_api [(''hi'', True), (''bad'', False), (''ho'', False)]"
  have got: "receives ?W ([(''hi'', True), (''bad'', False), (''ho'', False)], False)
      ([(''hi'', True)] @ [(''bad'', False)]) ([(''ho'', False)], False)"
    by (simp add: line_api_def)
  show ?thesis
    using ws_client_throwing_callback_ends_run [OF logging_connect [of _ "''v''" "''/''" "[]" "\<lambda>m. m = ''bad''"]
        _ _ _ _ _ _ _ got, of "\<lambda>e l. (l @ [''open''], False)" "[''open'']"
        "\<lambda>m b l. (l @ [m], m = ''bad'')" "\<lambda>m. m = ''bad''"]
    by (simp add: logging_simps)
qed

end
