(* ===== verification/Ws_Stream.thy ===== *)
theory Ws_Stream
  imports Streams Ws_Conn Ws_Client
begin

text \<open>
  The WebSocket stream (\<open>lib/stream/websocket_stream.hpp\<close>): a variant of a WebSocket over
  plain TCP and one over TLS that hands every operation to the one it holds. Beast's WebSocket over
  either is a parameter \<open>ws\_layer\<close>, and the variant is a \<open>ws\_layer\<close> again. With it
  the connection of the server and the client run over streams as the program has them:
  \<open>ws\_api\<close> and \<open>ws\_client\_api\<close> are no parameters any more.
\<close>

section \<open>A WebSocket over a layer\<close>

text \<open>
  A read gives the bytes it appends to the buffer, which after an error may be a part of a message.
  Closing is told whether it is cancelled before it ends.
\<close>

record ('s, 'q) ws_layer =
  wl_is_open :: "'s \<Rightarrow> bool"
  wl_accept :: "'s \<Rightarrow> 'q \<Rightarrow> 's \<times> ec option"
  wl_handshake :: "'s \<Rightarrow> string \<Rightarrow> string \<Rightarrow> 's \<times> ec option"
  wl_decorator :: "'s \<Rightarrow> (field \<times> string) list \<Rightarrow> 's"
  wl_read :: "'s \<Rightarrow> 's \<times> string \<times> ec option"
  wl_write :: "'s \<Rightarrow> string \<Rightarrow> 's \<times> ec option"
  wl_close :: "'s \<Rightarrow> bool \<Rightarrow> string \<Rightarrow> 's \<times> ec option"
  wl_ping :: "'s \<Rightarrow> string \<Rightarrow> 's \<times> ec option"
  wl_pong :: "'s \<Rightarrow> string \<Rightarrow> 's \<times> ec option"
  wl_got_binary :: "'s \<Rightarrow> bool"
  wl_got_text :: "'s \<Rightarrow> bool"
  wl_text :: "'s \<Rightarrow> bool \<Rightarrow> 's"
  wl_binary :: "'s \<Rightarrow> bool \<Rightarrow> 's"
  wl_socket_shutdown :: "'s \<Rightarrow> 's \<times> ec option"
  wl_socket_close :: "'s \<Rightarrow> 's \<times> ec option"

section \<open>The variant\<close>

text \<open>\<open>std::visit\<close>, for what only looks, what changes the stream, and what gives a result too.\<close>

fun ws_look :: "('p \<Rightarrow> 'r) \<Rightarrow> ('q \<Rightarrow> 'r) \<Rightarrow> ('p, 'q) websocket_stream \<Rightarrow> 'r" where
  "ws_look f g (Ws_Plain p) = f p"
| "ws_look f g (Ws_Tls t) = g t"

definition ws_change ::
  "('p \<Rightarrow> 'p) \<Rightarrow> ('q \<Rightarrow> 'q) \<Rightarrow> ('p, 'q) websocket_stream \<Rightarrow> ('p, 'q) websocket_stream" where
  "ws_change f g = ws_look (\<lambda>p. Ws_Plain (f p)) (\<lambda>t. Ws_Tls (g t))"

definition ws_visit ::
  "('p \<Rightarrow> 'p \<times> 'r) \<Rightarrow> ('q \<Rightarrow> 'q \<times> 'r) \<Rightarrow> ('p, 'q) websocket_stream \<Rightarrow> ('p, 'q) websocket_stream \<times> 'r" where
  "ws_visit f g = ws_look (\<lambda>p. apfst Ws_Plain (f p)) (\<lambda>t. apfst Ws_Tls (g t))"

definition wss_is_open :: "('p, 'r) ws_layer \<Rightarrow> ('q, 'r) ws_layer \<Rightarrow> ('p, 'q) websocket_stream \<Rightarrow> bool" where
  "wss_is_open L M = ws_look (wl_is_open L) (wl_is_open M)"

definition wss_accept ::
  "('p, 'r) ws_layer \<Rightarrow> ('q, 'r) ws_layer \<Rightarrow> ('p, 'q) websocket_stream \<Rightarrow> 'r \<Rightarrow>
   ('p, 'q) websocket_stream \<times> ec option" where
  "wss_accept L M s req = ws_visit (\<lambda>p. wl_accept L p req) (\<lambda>t. wl_accept M t req) s"

definition wss_handshake ::
  "('p, 'r) ws_layer \<Rightarrow> ('q, 'r) ws_layer \<Rightarrow> ('p, 'q) websocket_stream \<Rightarrow> string \<Rightarrow> string \<Rightarrow>
   ('p, 'q) websocket_stream \<times> ec option" where
  "wss_handshake L M s host target =
     ws_visit (\<lambda>p. wl_handshake L p host target) (\<lambda>t. wl_handshake M t host target) s"

definition wss_set_option ::
  "('p, 'r) ws_layer \<Rightarrow> ('q, 'r) ws_layer \<Rightarrow> ('p, 'q) websocket_stream \<Rightarrow> (field \<times> string) list \<Rightarrow>
   ('p, 'q) websocket_stream" where
  "wss_set_option L M s decorator = ws_change (\<lambda>p. wl_decorator L p decorator) (\<lambda>t. wl_decorator M t decorator) s"

definition wss_read ::
  "('p, 'r) ws_layer \<Rightarrow> ('q, 'r) ws_layer \<Rightarrow> ('p, 'q) websocket_stream \<Rightarrow>
   ('p, 'q) websocket_stream \<times> string \<times> ec option" where
  "wss_read L M = ws_visit (wl_read L) (wl_read M)"

definition wss_write ::
  "('p, 'r) ws_layer \<Rightarrow> ('q, 'r) ws_layer \<Rightarrow> ('p, 'q) websocket_stream \<Rightarrow> string \<Rightarrow>
   ('p, 'q) websocket_stream \<times> ec option" where
  "wss_write L M s bytes = ws_visit (\<lambda>p. wl_write L p bytes) (\<lambda>t. wl_write M t bytes) s"

definition wss_close ::
  "('p, 'r) ws_layer \<Rightarrow> ('q, 'r) ws_layer \<Rightarrow> ('p, 'q) websocket_stream \<Rightarrow> bool \<Rightarrow> string \<Rightarrow>
   ('p, 'q) websocket_stream \<times> ec option" where
  "wss_close L M s cancelled reason =
     ws_visit (\<lambda>p. wl_close L p cancelled reason) (\<lambda>t. wl_close M t cancelled reason) s"

definition wss_ping ::
  "('p, 'r) ws_layer \<Rightarrow> ('q, 'r) ws_layer \<Rightarrow> ('p, 'q) websocket_stream \<Rightarrow> string \<Rightarrow>
   ('p, 'q) websocket_stream \<times> ec option" where
  "wss_ping L M s msg = ws_visit (\<lambda>p. wl_ping L p msg) (\<lambda>t. wl_ping M t msg) s"

definition wss_pong ::
  "('p, 'r) ws_layer \<Rightarrow> ('q, 'r) ws_layer \<Rightarrow> ('p, 'q) websocket_stream \<Rightarrow> string \<Rightarrow>
   ('p, 'q) websocket_stream \<times> ec option" where
  "wss_pong L M s msg = ws_visit (\<lambda>p. wl_pong L p msg) (\<lambda>t. wl_pong M t msg) s"

definition wss_got_binary :: "('p, 'r) ws_layer \<Rightarrow> ('q, 'r) ws_layer \<Rightarrow> ('p, 'q) websocket_stream \<Rightarrow> bool" where
  "wss_got_binary L M = ws_look (wl_got_binary L) (wl_got_binary M)"

definition wss_got_text :: "('p, 'r) ws_layer \<Rightarrow> ('q, 'r) ws_layer \<Rightarrow> ('p, 'q) websocket_stream \<Rightarrow> bool" where
  "wss_got_text L M = ws_look (wl_got_text L) (wl_got_text M)"

definition wss_text ::
  "('p, 'r) ws_layer \<Rightarrow> ('q, 'r) ws_layer \<Rightarrow> ('p, 'q) websocket_stream \<Rightarrow> bool \<Rightarrow> ('p, 'q) websocket_stream" where
  "wss_text L M s v = ws_change (\<lambda>p. wl_text L p v) (\<lambda>t. wl_text M t v) s"

definition wss_binary ::
  "('p, 'r) ws_layer \<Rightarrow> ('q, 'r) ws_layer \<Rightarrow> ('p, 'q) websocket_stream \<Rightarrow> bool \<Rightarrow> ('p, 'q) websocket_stream" where
  "wss_binary L M s v = ws_change (\<lambda>p. wl_binary L p v) (\<lambda>t. wl_binary M t v) s"

text \<open>The socket is the one of the lowest layer.\<close>

definition wss_socket_shutdown ::
  "('p, 'r) ws_layer \<Rightarrow> ('q, 'r) ws_layer \<Rightarrow> ('p, 'q) websocket_stream \<Rightarrow> ('p, 'q) websocket_stream \<times> ec option" where
  "wss_socket_shutdown L M = ws_visit (wl_socket_shutdown L) (wl_socket_shutdown M)"

definition wss_socket_close ::
  "('p, 'r) ws_layer \<Rightarrow> ('q, 'r) ws_layer \<Rightarrow> ('p, 'q) websocket_stream \<Rightarrow> ('p, 'q) websocket_stream \<times> ec option" where
  "wss_socket_close L M = ws_visit (wl_socket_close L) (wl_socket_close M)"

definition websocket_layer ::
  "('p, 'r) ws_layer \<Rightarrow> ('q, 'r) ws_layer \<Rightarrow> (('p, 'q) websocket_stream, 'r) ws_layer" where
  "websocket_layer L M =
     \<lparr>wl_is_open = wss_is_open L M, wl_accept = wss_accept L M, wl_handshake = wss_handshake L M,
      wl_decorator = wss_set_option L M, wl_read = wss_read L M, wl_write = wss_write L M,
      wl_close = wss_close L M, wl_ping = wss_ping L M, wl_pong = wss_pong L M,
      wl_got_binary = wss_got_binary L M, wl_got_text = wss_got_text L M, wl_text = wss_text L M,
      wl_binary = wss_binary L M, wl_socket_shutdown = wss_socket_shutdown L M,
      wl_socket_close = wss_socket_close L M\<rparr>"

lemmas websocket_layer_defs = websocket_layer_def wss_is_open_def wss_accept_def wss_handshake_def
  wss_set_option_def wss_read_def wss_write_def wss_close_def wss_ping_def wss_pong_def
  wss_got_binary_def wss_got_text_def wss_text_def wss_binary_def wss_socket_shutdown_def
  wss_socket_close_def ws_change_def ws_visit_def

section \<open>Closing against the clock\<close>

text \<open>
  Closing a connection is raced with a timer of five seconds: the first to end cancels the other, and
  the race is over when both have ended. Both write the same error code, and the last one to end
  wins. The timer may be due already when the close handshake ends, and then it has ended as well.
\<close>

datatype close_race = Close_First | Close_First_Timer_Due | Timer_First

abbreviation operation_aborted :: ec where
  "operation_aborted \<equiv> Other_Error 125"

definition close_or_timeout :: "('s, 'q) ws_layer \<Rightarrow> ('s \<Rightarrow> close_race) \<Rightarrow> 's \<Rightarrow> 's \<times> ec option" where
  "close_or_timeout L race s =
     (case race s of
        Close_First \<Rightarrow> (fst (wl_close L s False ''normal''), Some operation_aborted)
      | Close_First_Timer_Due \<Rightarrow> (fst (wl_close L s False ''normal''), None)
      | Timer_First \<Rightarrow> wl_close L s True ''normal'')"

definition shutdown_socket :: "('s, 'q) ws_layer \<Rightarrow> 's \<Rightarrow> 's \<times> ec option" where
  "shutdown_socket L s = wl_socket_close L (fst (wl_socket_shutdown L s))"

section \<open>The connection and the client over a layer\<close>

definition set_kind :: "('s, 'q) ws_layer \<Rightarrow> bool \<Rightarrow> 's \<Rightarrow> 's" where
  "set_kind L binary s = (if binary then wl_binary L s True else wl_text L s True)"

definition conn_over :: "('s, 'q) ws_layer \<Rightarrow> ('s \<Rightarrow> close_race) \<Rightarrow> ('s, 'q) ws_api" where
  "conn_over L race =
     \<lparr>wa_is_open = wl_is_open L,
      wa_accept = (\<lambda>s req. case wl_accept L s req of (s', e) \<Rightarrow> (s', e \<noteq> None)),
      wa_read = (\<lambda>s. case wl_read L s of
        (s', bytes, e) \<Rightarrow> (s', if e = None then Some (bytes, wl_got_binary L s') else None)),
      wa_write = (\<lambda>s binary msg. fst (wl_write L (set_kind L binary s) msg)),
      wa_ping = (\<lambda>s msg. fst (wl_ping L s msg)),
      wa_close = (\<lambda>s. fst (close_or_timeout L race s)),
      wa_shutdown = (\<lambda>s. fst (shutdown_socket L s))\<rparr>"

text \<open>The completion token of the client throws an error code, which is caught and returned.\<close>

definition token_throws :: "'s \<times> ec option \<Rightarrow> 's \<times> thrown option" where
  "token_throws = apsnd (map_option System_Error)"

definition client_over ::
  "('k, 't, 'e) socket_api \<Rightarrow> (string \<Rightarrow> string \<Rightarrow> thrown + 'e list) \<Rightarrow> (('k, 't) http_stream \<Rightarrow> 's) \<Rightarrow>
   ('s, 'q) ws_layer \<Rightarrow> ('s \<Rightarrow> close_race) \<Rightarrow> (('k, 't) http_stream, 's, 'e list) ws_client_api" where
  "client_over N resolver over L race =
     \<lparr>wa_new_stream = create_stream N, wa_resolve = resolver,
      wa_connect = (\<lambda>h endpoints. case stream_connect N h endpoints of
         (h', Some e) \<Rightarrow> Inl e
       | (h', None) \<Rightarrow> Inr (over h')),
      wa_stream_open = wl_is_open L,
      wa_handshake = (\<lambda>s host path headers. token_throws (wl_handshake L (wl_decorator L s headers) host path)),
      wa_set_binary = set_kind L,
      wa_send = (\<lambda>s bytes. token_throws (wl_write L s bytes)),
      wa_receive = (\<lambda>s. case wl_read L s of (s', bytes, e) \<Rightarrow> (s', bytes, map_option System_Error e)),
      wa_got_binary = wl_got_binary L, wa_got_text = wl_got_text L,
      wa_send_ping = (\<lambda>s msg. token_throws (wl_ping L s msg)),
      wa_send_pong = (\<lambda>s msg. token_throws (wl_pong L s msg)),
      wa_close_or_timeout = (\<lambda>s. case close_or_timeout L race s of (s', e) \<Rightarrow> (s', e \<noteq> None)),
      wa_shutdown_socket = shutdown_socket L\<rparr>"

section \<open>A stream that acts for another\<close>

definition conn_map :: "('s \<Rightarrow> 'v) \<Rightarrow> ('s, 'a) ws_conn \<Rightarrow> ('v, 'a) ws_conn" where
  "conn_map f c = \<lparr>wc_stream = f (wc_stream c), wc_buffer = wc_buffer c, wc_queue = wc_queue c, wc_app = wc_app c\<rparr>"

lemma conn_map_sel [simp]:
  "wc_stream (conn_map f c) = f (wc_stream c)" "wc_buffer (conn_map f c) = wc_buffer c"
  "wc_queue (conn_map f c) = wc_queue c" "wc_app (conn_map f c) = wc_app c"
  by (simp_all add: conn_map_def)

lemma conn_map_update [simp]:
  "(conn_map f c)\<lparr>wc_stream := f s\<rparr> = conn_map f (c\<lparr>wc_stream := s\<rparr>)"
  "(conn_map f c)\<lparr>wc_buffer := b\<rparr> = conn_map f (c\<lparr>wc_buffer := b\<rparr>)"
  "(conn_map f c)\<lparr>wc_queue := q\<rparr> = conn_map f (c\<lparr>wc_queue := q\<rparr>)"
  "(conn_map f c)\<lparr>wc_app := a\<rparr> = conn_map f (c\<lparr>wc_app := a\<rparr>)"
  by (simp_all add: conn_map_def)

text \<open>Every operation of the one at an embedded stream is that of the other, embedded.\<close>

locale ws_layer_sim =
  fixes emb :: "'s \<Rightarrow> 'v"
    and L :: "('s, ('f, 'j) request) ws_layer" and V :: "('v, ('f, 'j) request) ws_layer"
  assumes is_open: "wl_is_open V (emb s) = wl_is_open L s"
    and accept: "wl_accept V (emb s) q = apfst emb (wl_accept L s q)"
    and receive: "wl_read V (emb s) = apfst emb (wl_read L s)"
    and send: "wl_write V (emb s) bytes = apfst emb (wl_write L s bytes)"
    and close_op: "wl_close V (emb s) cancelled reason = apfst emb (wl_close L s cancelled reason)"
    and ping_op: "wl_ping V (emb s) bytes = apfst emb (wl_ping L s bytes)"
    and kinds: "wl_got_binary V (emb s) = wl_got_binary L s"
      "wl_text V (emb s) b = emb (wl_text L s b)" "wl_binary V (emb s) b = emb (wl_binary L s b)"
    and socket: "wl_socket_shutdown V (emb s) = apfst emb (wl_socket_shutdown L s)"
      "wl_socket_close V (emb s) = apfst emb (wl_socket_close L s)"
begin

lemma conn_over_sim:
  fixes race
  defines "W \<equiv> conn_over V race" and "W' \<equiv> conn_over L (\<lambda>s. race (emb s))"
  shows "wa_is_open W (emb s) = wa_is_open W' s"
    "wa_accept W (emb s) q = apfst emb (wa_accept W' s q)"
    "wa_read W (emb s) = apfst emb (wa_read W' s)"
    "wa_write W (emb s) b m = emb (wa_write W' s b m)"
    "wa_ping W (emb s) m = emb (wa_ping W' s m)"
    "wa_close W (emb s) = emb (wa_close W' s)"
    "wa_shutdown W (emb s) = emb (wa_shutdown W' s)"
  by (simp_all add: W_def W'_def conn_over_def is_open accept receive send close_op ping_op kinds socket
      set_kind_def close_or_timeout_def shutdown_socket_def case_prod_unfold split: close_race.split)

lemma push_action_sim:
  "push_action (conn_over V race) act (conn_map emb c) =
   conn_map emb (push_action (conn_over L (\<lambda>s. race (emb s))) act c)"
  by (simp add: push_action_def conn_over_sim)

lemma run_action_sim:
  "run_action (conn_over V race) act (emb s) = emb (run_action (conn_over L (\<lambda>s. race (emb s))) act s)"
  by (cases act) (simp_all add: conn_over_sim)

lemma ws_turn_sim:
  "ws_turn (conn_over V race) (conn_map emb c) =
   conn_map emb (ws_turn (conn_over L (\<lambda>s. race (emb s))) c)"
  by (simp add: ws_turn_def Let_def run_action_sim split: perform.split)

lemma ws_loop_forth:
  "ws_loop W what en c = Some r \<Longrightarrow> W = conn_over L (\<lambda>s. race (emb s)) \<longrightarrow>
   ws_loop (conn_over V race) what en (conn_map emb c) = Some (apfst (conn_map emb) r)"
  by (erule ws_loop.raw_induct [rotated])
    (intro impI, subst ws_loop.simps, auto simp: conn_over_sim split: prod.splits option.splits)

lemma ws_loop_back:
  "ws_loop W what en d = Some r \<Longrightarrow> W = conn_over V race \<longrightarrow>
   (\<forall>c. d = conn_map emb c \<longrightarrow> ws_loop (conn_over L (\<lambda>s. race (emb s))) what en c \<noteq> None)"
proof (erule ws_loop.raw_induct [rotated], intro impI allI)
  fix loop W what en d r c
  assume IH: "\<And>W what en d r. loop W what en d = Some r \<Longrightarrow> W = conn_over V race \<longrightarrow>
      (\<forall>c. d = conn_map emb c \<longrightarrow> ws_loop (conn_over L (\<lambda>s. race (emb s))) what en c \<noteq> None)"
    and eq: "W = conn_over V race" "d = conn_map emb c"
    and run: "(case wa_read W (wc_stream d) of
        (s, None) \<Rightarrow>
          (case caught what (we_close_handler en (wc_app d)) of
             (a, e) \<Rightarrow>
               Some (d\<lparr>wc_stream := s, wc_queue := aq_shutdown True (aq_clear (wc_queue d)), wc_app := a\<rparr>, e))
      | (s, Some (msg, binary)) \<Rightarrow>
          (case caught what (we_message_handler en (wc_buffer d @ msg) binary (wc_app d)) of
             (a, Some e) \<Rightarrow> Some (d\<lparr>wc_stream := s, wc_buffer := wc_buffer d @ msg, wc_app := a\<rparr>, Some e)
           | (a, None) \<Rightarrow>
               loop W what en
                 (d\<lparr>wc_stream := s, wc_buffer := drop (length msg) (wc_buffer d @ msg), wc_app := a\<rparr>))) =
      Some r"
  let ?W = "conn_over L (\<lambda>s. race (emb s))"
  have IH': "ws_loop ?W what en c' \<noteq> None" if "loop (conn_over V race) what en (conn_map emb c') = Some r" for c'
    using IH [OF that] by blast
  show "ws_loop ?W what en c \<noteq> None"
    using run eq
    by (subst ws_loop.simps)
      (auto simp: conn_over_sim dest!: IH' split: prod.splits option.splits)
qed

lemma ws_loop_sim:
  "ws_loop (conn_over V race) what en (conn_map emb c) =
   map_option (apfst (conn_map emb)) (ws_loop (conn_over L (\<lambda>s. race (emb s))) what en c)"
proof (cases "ws_loop (conn_over V race) what en (conn_map emb c)")
  case None
  then show ?thesis using ws_loop_forth [of "conn_over L (\<lambda>s. race (emb s))" what en c _ race]
    by (cases "ws_loop (conn_over L (\<lambda>s. race (emb s))) what en c") auto
next
  case (Some r)
  with ws_loop_back [OF Some] obtain r' where
    "ws_loop (conn_over L (\<lambda>s. race (emb s))) what en c = Some r'" by blast
  with ws_loop_forth [OF this, of race] show ?thesis by simp
qed

lemma ws_run_sim:
  "ws_run (conn_over V race) rx what rt req (conn_map emb c) =
   map_option (apfst (conn_map emb)) (ws_run (conn_over L (\<lambda>s. race (emb s))) rx what rt req c)"
  by (simp add: ws_run_def conn_over_sim ws_loop_sim case_prod_unfold split: option.split)

end

interpretation plain: ws_layer_sim Ws_Plain L "websocket_layer L M" for L M
  by unfold_locales (simp_all add: websocket_layer_defs)

interpretation tls: ws_layer_sim Ws_Tls M "websocket_layer L M" for L M
  by unfold_locales (simp_all add: websocket_layer_defs)

section \<open>The connection of the server\<close>

text \<open>
  A connection over the variant does what one over the stream in it would do, whichever it is: its
  methods, the actions it queues, and the whole run.
\<close>

theorem ws_conn_over_variant:
  "ws_run (conn_over (websocket_layer L M) race) rx what rt req (conn_map Ws_Plain c) =
     map_option (apfst (conn_map Ws_Plain)) (ws_run (conn_over L (\<lambda>s. race (Ws_Plain s))) rx what rt req c)"
  "ws_run (conn_over (websocket_layer L M) race) rx what rt req (conn_map Ws_Tls d) =
     map_option (apfst (conn_map Ws_Tls)) (ws_run (conn_over M (\<lambda>s. race (Ws_Tls s))) rx what rt req d)"
  "ws_turn (conn_over (websocket_layer L M) race) (conn_map Ws_Plain c) =
     conn_map Ws_Plain (ws_turn (conn_over L (\<lambda>s. race (Ws_Plain s))) c)"
  "ws_turn (conn_over (websocket_layer L M) race) (conn_map Ws_Tls d) =
     conn_map Ws_Tls (ws_turn (conn_over M (\<lambda>s. race (Ws_Tls s))) d)"
  by (rule plain.ws_run_sim tls.ws_run_sim plain.ws_turn_sim tls.ws_turn_sim)+

section \<open>The client\<close>

fun ws_is_tls :: "('p, 'q) websocket_stream \<Rightarrow> bool" where
  "ws_is_tls (Ws_Plain p) = False"
| "ws_is_tls (Ws_Tls t) = True"

lemma ws_is_tls_of_stream [simp]: "ws_is_tls (websocket_of_stream op ot s) = is_tls s"
  by (cases s) (simp_all add: websocket_of_stream_def)

lemma ws_is_tls_change [simp]: "ws_is_tls (ws_change f g s) = ws_is_tls s"
  by (cases s) (simp_all add: ws_change_def)

lemma ws_is_tls_visit [simp]: "ws_is_tls (fst (ws_visit f g s)) = ws_is_tls s"
  by (cases s) (simp_all add: ws_visit_def)

lemma ws_is_tls_visitD: "ws_visit f g s = (s', r) \<Longrightarrow> ws_is_tls s' = ws_is_tls s"
  by (metis fst_conv ws_is_tls_visit(1))

text \<open>The client as the program has it.\<close>

definition ws_client_over ::
  "('k, 't, 'e) socket_api \<Rightarrow> (string \<Rightarrow> string \<Rightarrow> thrown + 'e list) \<Rightarrow> ('k \<Rightarrow> 'p) \<Rightarrow> ('t \<Rightarrow> 'k \<Rightarrow> 'q) \<Rightarrow>
   ('p, 'r) ws_layer \<Rightarrow> ('q, 'r) ws_layer \<Rightarrow> (('p, 'q) websocket_stream \<Rightarrow> close_race) \<Rightarrow>
   (('k, 't) http_stream, ('p, 'q) websocket_stream, 'e list) ws_client_api" where
  "ws_client_over N resolver over_plain over_tls L M race =
     client_over N resolver (websocket_of_stream over_plain over_tls) (websocket_layer L M) race"

definition client_has :: "bool \<Rightarrow> ('s \<Rightarrow> bool) \<Rightarrow> ('s, 'a) ws_client \<Rightarrow> bool" where
  "client_has ssl P c \<longleftrightarrow> wk_use_ssl c = ssl \<and> (\<forall>s. wk_stream c = Some s \<longrightarrow> P s)"

text \<open>A predicate that every stream of a client satisfies when it is made, and keeps.\<close>

locale ws_client_keeps =
  fixes W :: "('h, 's, 'e) ws_client_api" and P :: "'s \<Rightarrow> bool" and ssl :: bool
  assumes made: "wa_new_stream W host ssl = Inr h \<Longrightarrow> wa_connect W h eps = Inr s \<Longrightarrow> P s"
    and handshake_keeps: "P s \<Longrightarrow> P (fst (wa_handshake W s host path headers))"
    and kind_keeps: "P s \<Longrightarrow> P (wa_set_binary W b s)"
    and send_keeps: "P s \<Longrightarrow> P (fst (wa_send W s bytes))"
    and receive_keeps: "P s \<Longrightarrow> P (fst (wa_receive W s))"
    and ping_keeps: "P s \<Longrightarrow> P (fst (wa_send_ping W s msg))"
    and pong_keeps: "P s \<Longrightarrow> P (fst (wa_send_pong W s msg))"
    and close_keeps: "P s \<Longrightarrow> P (fst (wa_close_or_timeout W s))"
    and shutdown_keeps: "P s \<Longrightarrow> P (fst (wa_shutdown_socket W s))"
begin

lemma has_update:
  "client_has ssl P c \<Longrightarrow> P s \<Longrightarrow> client_has ssl P (c\<lparr>wk_stream := Some s\<rparr>)"
  "client_has ssl P (c\<lparr>wk_buffer := b\<rparr>) = client_has ssl P c" "client_has ssl P (c\<lparr>wk_app := a\<rparr>) = client_has ssl P c" "client_has ssl P (c\<lparr>wk_queue := q\<rparr>) = client_has ssl P c"
  by (simp_all add: client_has_def)

lemma has_on_open:
  assumes "client_has ssl P c" and "\<And>s. P s \<Longrightarrow> client_has ssl P (fst (f s))"
  shows "client_has ssl P (fst (on_open W f c))"
  using assms by (auto simp: on_open_def client_has_def split: option.split)

lemma has_handshake: "client_has ssl P c \<Longrightarrow> P s \<Longrightarrow> client_has ssl P (fst (ws_handshake W version path headers s c))"
  by (simp add: ws_handshake_def case_prod_unfold has_update handshake_keeps)

lemma has_connect:
  assumes "client_has ssl P c"
  shows "client_has ssl P (fst (ws_async_connect W version path headers c))"
proof -
  have new: "client_has ssl P (fst (ws_handshake W version path headers s c))"
    if "wa_new_stream W (wk_host c) (wk_use_ssl c) = Inr h" "wa_connect W h eps = Inr s" for h eps s
    using made [OF _ that(2), of "wk_host c"] that(1) assms
    by (intro has_handshake [OF assms]) (simp add: client_has_def)
  have old: "client_has ssl P (fst (ws_handshake W version path headers s c))" if "wk_stream c = Some s" for s
    using assms that by (intro has_handshake [OF assms]) (simp add: client_has_def)
  show ?thesis
    using assms new old by (simp add: ws_async_connect_def Let_def split: option.split sum.split)
qed

lemma has_operations:
  assumes "client_has ssl P c"
  shows "client_has ssl P (fst (ws_async_send W bytes b c))" "client_has ssl P (fst (ws_async_read W c))"
    "client_has ssl P (fst (ws_async_ping W msg c))" "client_has ssl P (fst (ws_async_pong W msg c))" "client_has ssl P (fst (ws_async_close W c))"
  unfolding ws_async_send_def ws_async_read_def ws_async_ping_def ws_async_pong_def ws_async_close_def
  by (rule has_on_open [OF assms];
      simp add: case_prod_unfold assms has_update kind_keeps send_keeps receive_keeps ping_keeps
        pong_keeps close_keeps shutdown_keeps)+

lemma has_run_action: "client_has ssl P c \<Longrightarrow> client_has ssl P (fst (run_client_action W act c))"
  by (cases act) (simp_all add: has_operations)

lemma has_call_close: "client_has ssl P c \<Longrightarrow> client_has ssl P (fst (call_close c))"
  by (simp add: call_close_def has_update split: option.split prod.split)

lemma has_loop: "ws_client_loop V c = Some r \<Longrightarrow> V = W \<and> client_has ssl P c \<longrightarrow> client_has ssl P (fst r)"
proof (erule ws_client_loop.raw_induct [rotated], intro impI, elim conjE)
  fix loop V c r
  assume IH: "\<And>V c r. loop V c = Some r \<Longrightarrow> V = W \<and> client_has ssl P c \<longrightarrow> client_has ssl P (fst r)"
    and run: "(if \<not> ws_is_open V c then Some (call_close c)
      else
        (case ws_async_read V c of
           (c1, Some (System_Error e)) \<Rightarrow> Some (call_close c1)
         | (c1, Some Other_Exception) \<Rightarrow> Some (c1, Run_Threw)
         | (c1, None) \<Rightarrow>
             (case wk_message_handler c1 of
                None \<Rightarrow> loop V c1
              | Some f \<Rightarrow>
                  (case f (got_data c1) (got_binary V c1) (wk_app c1) of
                     (a, threw) \<Rightarrow>
                       if threw then Some (c1\<lparr>wk_app := a\<rparr>, Run_Threw)
                       else loop V (c1\<lparr>wk_app := a\<rparr>))))) = Some r"
    and V: "V = W" and has: "client_has ssl P c"
  have IH': "loop W c = Some r \<Longrightarrow> client_has ssl P c \<Longrightarrow> client_has ssl P (fst r)" for c r using IH by blast
  obtain c1 e where rd: "ws_async_read W c = (c1, e)" by (cases "ws_async_read W c")
  with has_operations(2) [OF has] have "client_has ssl P c1" by simp
  then show "client_has ssl P (fst r)"
    using run has IH' [of c1 r] IH' [of "c1\<lparr>wk_app := a\<rparr>" r for a]
    unfolding V rd
    by (auto simp: has_update has_call_close split: if_splits option.splits thrown.splits prod.splits)
qed

lemma has_run:
  assumes "client_has ssl P c" and "ws_async_run W version path headers c = Some (c', r)"
  shows "client_has ssl P c'"
proof -
  obtain c1 e where c1: "ws_async_connect W version path headers c = (c1, e)"
    by (cases "ws_async_connect W version path headers c")
  with has_connect [OF assms(1), of version path headers] have g: "client_has ssl P c1" by simp
  have loop: "client_has ssl P c'" if "ws_client_loop W (c1\<lparr>wk_app := a\<rparr>) = Some (c', r)" for a
    using has_loop [OF that] g by (simp add: has_update)
  from assms(2) show ?thesis
    unfolding ws_async_run_def c1
    using g by (auto simp: has_update split: option.splits thrown.splits prod.splits if_splits dest: loop)
qed

end

lemma ws_layer_keeps:
  "ws_is_tls (fst (wl_handshake (websocket_layer L M) s host path)) = ws_is_tls s"
  "ws_is_tls (wl_decorator (websocket_layer L M) s d) = ws_is_tls s"
  "ws_is_tls (set_kind (websocket_layer L M) b s) = ws_is_tls s"
  "ws_is_tls (fst (wl_read (websocket_layer L M) s)) = ws_is_tls s"
  "ws_is_tls (fst (wl_write (websocket_layer L M) s bytes)) = ws_is_tls s"
  "ws_is_tls (fst (wl_ping (websocket_layer L M) s bytes)) = ws_is_tls s"
  "ws_is_tls (fst (wl_pong (websocket_layer L M) s bytes)) = ws_is_tls s"
  "ws_is_tls (fst (close_or_timeout (websocket_layer L M) race s)) = ws_is_tls s"
  "ws_is_tls (fst (shutdown_socket (websocket_layer L M) s)) = ws_is_tls s"
  by (simp_all add: websocket_layer_def wss_handshake_def wss_set_option_def wss_read_def wss_write_def
      wss_ping_def wss_pong_def wss_close_def wss_text_def wss_binary_def wss_socket_shutdown_def
      wss_socket_close_def set_kind_def close_or_timeout_def shutdown_socket_def split: close_race.split)

interpretation proto: ws_client_keeps "ws_client_over N resolver op ot L M race" "\<lambda>s. ws_is_tls s = ssl" ssl
  for N resolver op ot L M race ssl
  by unfold_locales
    (auto simp: ws_client_over_def client_over_def token_throws_def case_prod_unfold ws_layer_keeps
      create_stream_tls is_tls_connect [OF refl] split: option.splits)

text \<open>A WebSocket client has TLS exactly when it was made for it, however its run goes.\<close>

theorem ws_client_keeps_its_protocol:
  assumes "ws_async_run (ws_client_over N resolver op ot L M race) version path headers
      (set_handler_impl opn msg cls (ws_client_new host port ssl a)) = Some (c, r)"
    and "wk_stream c = Some s"
  shows "ws_is_tls s = ssl"
proof -
  have "client_has ssl (\<lambda>s. ws_is_tls s = ssl) (set_handler_impl opn msg cls (ws_client_new host port ssl a))"
    by (simp add: client_has_def set_handler_impl_def ws_client_new_def)
  from proto.has_run [OF this assms(1)] assms(2) show ?thesis by (simp add: client_has_def)
qed

text \<open>
  The code returns early when the error code is not set, but the cancelled timer has set it: also
  after a close handshake without an error the socket is shut down, and the outcome is that of closing it.
\<close>

theorem ws_async_close_shuts_down:
  assumes "wk_stream c = Some s" and "wss_is_open L M s" and "race s = Close_First"
  shows "ws_async_close (ws_client_over N resolver op ot L M race) c =
    (case shutdown_socket (websocket_layer L M) (fst (wss_close L M s False ''normal'')) of
       (s', e) \<Rightarrow> (c\<lparr>wk_stream := Some s'\<rparr>, map_option System_Error e))"
  using assms
  by (simp add: ws_async_close_def on_open_def ws_client_over_def client_over_def close_or_timeout_def
      websocket_layer_def split: prod.split)

end
