(* ===== verification/Session_Streams.thy ===== *)
theory Session_Streams
  imports Session_Tasks Ws_Stream
begin

text \<open>
  A session over the streams the program has: the HTTP task over the variant of \<open>Streams\<close>, the
  detection of TLS and the handshake that turn a plain stream into a TLS stream, and the WebSocket
  connection over the variant of \<open>Ws_Stream\<close>. Beast reads and writes messages through the
  operations of the stream it is given, which hand them to the layer in the variant; so what it does on
  the variant is what it does on that layer.
\<close>

section \<open>A stream that acts for another\<close>

definition cn_map :: "('s \<Rightarrow> 'v) \<Rightarrow> 's conn \<Rightarrow> 'v conn" where
  "cn_map f c = \<lparr>cn_stream = f (cn_stream c), cn_buffer = cn_buffer c\<rparr>"

lemma cn_map_sel [simp]: "cn_stream (cn_map f c) = f (cn_stream c)" "cn_buffer (cn_map f c) = cn_buffer c"
  by (simp_all add: cn_map_def)

lemma cn_map_update [simp]:
  "(cn_map f c)\<lparr>cn_stream := f s\<rparr> = cn_map f (c\<lparr>cn_stream := s\<rparr>)"
  "(cn_map f c)\<lparr>cn_buffer := b\<rparr> = cn_map f (c\<lparr>cn_buffer := b\<rparr>)"
  by (simp_all add: cn_map_def)

locale stream_api_sim =
  fixes emb :: "'s \<Rightarrow> 'v"
    and L :: "('s, 'f, 'j, 'p, 'z) stream_api" and V :: "('v, 'f, 'j, 'p, 'z) stream_api"
  assumes read_header: "sa_read_header V (cn_map emb c) = apfst (cn_map emb) (sa_read_header L c)"
    and read_some: "sa_read_some V (cn_map emb c) p = apfst (cn_map emb) (sa_read_some L c p)"
    and write_some: "sa_write_some V (emb s) z = apfst emb (sa_write_some L s z)"
    and write_chunk: "sa_write_chunk V (emb s) b = apfst emb (sa_write_chunk L s b)"
    and write_last: "sa_write_last V (emb s) = apfst emb (sa_write_last L s)"
    and close_op: "sa_close V (emb s) = emb (sa_close L s)"
    and parsers: "sa_is_upgrade V = sa_is_upgrade L" "sa_body_parser V = sa_body_parser L"
      "sa_body_done V = sa_body_done L" "sa_body V = sa_body L"
      "sa_prepare_payload V = sa_prepare_payload L" "sa_serializer V = sa_serializer L"
      "sa_serializer_done V = sa_serializer_done L"
begin

lemma conn_emb: "\<lparr>cn_stream = emb s, cn_buffer = b\<rparr> = cn_map emb \<lparr>cn_stream = s, cn_buffer = b\<rparr>"
  by (simp add: cn_map_def)

lemmas sim = conn_emb read_header read_some write_some write_chunk write_last close_op parsers

lemma serialize_forth:
  "serialize S s z = Some r \<Longrightarrow> S = L \<longrightarrow> serialize V (emb s) z = Some (apfst emb r)"
  by (erule serialize.raw_induct [rotated])
    (intro impI, subst serialize.simps, auto simp: sim split: prod.splits if_splits)

lemma serialize_back:
  "serialize S v z = Some r \<Longrightarrow> S = V \<longrightarrow> (\<forall>s. v = emb s \<longrightarrow> serialize L s z \<noteq> None)"
  by (erule serialize.raw_induct [rotated])
    (intro impI allI, subst serialize.simps, auto simp: sim split: prod.splits if_splits)

lemma serialize_sim: "serialize V (emb s) z = map_option (apfst emb) (serialize L s z)"
  using serialize_forth [of L s z] serialize_back [of V "emb s" z]
  by (cases "serialize L s z"; cases "serialize V (emb s) z") auto

lemma chunk_loop_forth:
  "chunk_loop S h k c = Some r \<Longrightarrow> S = L \<longrightarrow> chunk_loop V h k (cn_map emb c) = Some (apfst (cn_map emb) r)"
  by (erule chunk_loop.raw_induct [rotated])
    (intro impI, subst chunk_loop.simps, auto simp: sim split: prod.splits if_splits sum.splits)

lemma chunk_loop_back:
  "chunk_loop S h k d = Some r \<Longrightarrow> S = V \<longrightarrow> (\<forall>c. d = cn_map emb c \<longrightarrow> chunk_loop L h k c \<noteq> None)"
  by (erule chunk_loop.raw_induct [rotated])
    (intro impI allI, subst chunk_loop.simps, auto simp: sim split: prod.splits if_splits sum.splits)

lemma chunk_loop_sim:
  "chunk_loop V h k (cn_map emb c) = map_option (apfst (cn_map emb)) (chunk_loop L h k c)"
  using chunk_loop_forth [of L h k c] chunk_loop_back [of V h k "cn_map emb c"]
  by (cases "chunk_loop L h k c"; cases "chunk_loop V h k (cn_map emb c)") auto

lemma read_body_forth:
  "read_body S c p = Some r \<Longrightarrow> S = L \<longrightarrow> read_body V (cn_map emb c) p = Some (apfst (cn_map emb) r)"
  by (erule read_body.raw_induct [rotated])
    (intro impI, subst read_body.simps, auto simp: sim split: prod.splits if_splits)

lemma read_body_back:
  "read_body S d p = Some r \<Longrightarrow> S = V \<longrightarrow> (\<forall>c. d = cn_map emb c \<longrightarrow> read_body L c p \<noteq> None)"
  by (erule read_body.raw_induct [rotated])
    (intro impI allI, subst read_body.simps, auto simp: sim split: prod.splits if_splits)

lemma read_body_sim: "read_body V (cn_map emb c) p = map_option (apfst (cn_map emb)) (read_body L c p)"
  using read_body_forth [of L c p] read_body_back [of V "cn_map emb c" p]
  by (cases "read_body L c p"; cases "read_body V (cn_map emb c) p") auto

lemma prepare_response_sim: "prepare_response V A cs req rs = prepare_response L A cs req rs"
  unfolding prepare_response_def parsers ..

lemma async_write_sim:
  "async_write V A cs req rs (cn_map emb c) = map_option (apfst (cn_map emb)) (async_write L A cs req rs c)"
  by (cases "serialize L (cn_stream c) (sa_serializer L (prepare_response L A cs req rs))")
    (auto simp: async_write_def Let_def prepare_response_sim serialize_sim parsers chunk_loop_sim
      option.map_comp comp_def case_prod_unfold split: option.split)

lemma business_sim:
  "business V W h (cn_map emb c) ex = map_option (apfst (cn_map emb)) (business L W h c ex)"
proof -
  have interim: "map_option (\<lambda>(c', _, ok). (c', ok))
      (async_write V A cs req rs (cn_map emb c)) = map_option (apfst (cn_map emb)) (map_option (\<lambda>(c', _, ok). (c', ok))
      (async_write L A cs req rs c))" for A cs req and rs :: "('f, 'j) response"
    by (simp add: async_write_sim option.map_comp comp_def case_prod_unfold)
  have body: "Option.bind (read_body V (cn_map emb c1) p) (\<lambda>(c2, r).
          case r of
            None \<Rightarrow> Some (c2, ex1, Connection_Lost)
          | Some p \<Rightarrow> Some (c2, after_body W (ex1\<lparr>ex_req := (ex_req ex1)\<lparr>rq_body := sa_body L p\<rparr>\<rparr>))) =
      map_option (apfst (cn_map emb)) (Option.bind (read_body L c1 p) (\<lambda>(c2, r).
          case r of
            None \<Rightarrow> Some (c2, ex1, Connection_Lost)
          | Some p \<Rightarrow> Some (c2, after_body W (ex1\<lparr>ex_req := (ex_req ex1)\<lparr>rq_body := sa_body L p\<rparr>\<rparr>))))"
    for c1 p ex1
    by (cases "read_body L c1 p") (auto simp: read_body_sim split: option.split)
  show ?thesis
    by (cases "async_write L (sv_fields W) (sv_creators W)
          (ex_req (fst (pre_routing (sv_fields W) (sv_env W) (sv_regex W) (sv_router W) ex)))
          (interim_response (sv_fields W) (sv_env W) h) c")
      (auto simp: business_def Let_def interim parsers body split: prod.split sum.split bool.split)
qed

lemma finish_round_sim:
  "finish_round V W (cn_map emb c) ex e =
   map_option (apfst (apfst (cn_map emb))) (finish_round L W c ex e)"
  by (cases "async_write L (sv_fields W) (sv_creators W) (ex_req ex)
        (case e of None \<Rightarrow> ex_resp ex | Some f \<Rightarrow> exception_response (sv_fields W) (sv_what W) f (ex_resp ex)) c")
    (auto simp: finish_round_def Let_def async_write_sim close_op split: sum.split)

lemma http_round_sim:
  "http_round V W remote (apfst (cn_map emb) w) =
   map_option (apfst (apfst (cn_map emb))) (http_round L W remote w)"
proof (cases "sa_read_header L (fst w)")
  case (Pair c r)
  show ?thesis
  proof (cases r)
    case (Some h)
    have rest: "Option.bind (business V W h (cn_map emb c) ex) (\<lambda>(c1, ex, b).
        case b of
          Connection_Lost \<Rightarrow> Some ((c1, ex_app ex), Inr (Round_End No_Task))
        | Answered e \<Rightarrow> finish_round V W c1 ex e) =
      map_option (apfst (apfst (cn_map emb))) (Option.bind (business L W h c ex) (\<lambda>(c1, ex, b).
        case b of
          Connection_Lost \<Rightarrow> Some ((c1, ex_app ex), Inr (Round_End No_Task))
        | Answered e \<Rightarrow> finish_round L W c1 ex e))" for ex
      by (cases "business L W h c ex") (auto simp: business_sim finish_round_sim split: business_end.split)
    show ?thesis using Pair Some
      by (cases w) (auto simp: http_round_def read_header parsers rest split: sum.split)
  qed (use Pair in \<open>cases w; simp add: http_round_def read_header\<close>)
qed

lemma http_then_forth:
  "http_then S W remote w = Some r \<Longrightarrow> S = L \<longrightarrow>
   http_then V W remote (apfst (cn_map emb) w) = Some (apfst (apfst (cn_map emb)) r)"
proof (erule http_then.raw_induct [rotated], intro impI)
  fix loop S W remote w r
  assume IH: "\<And>S W remote w r. loop S W remote w = Some r \<Longrightarrow> S = L \<longrightarrow>
      http_then V W remote (apfst (cn_map emb) w) = Some (apfst (apfst (cn_map emb)) r)"
    and run: "Option.bind (http_round S W remote w) (\<lambda>(w', r).
       case r of
         Inl e \<Rightarrow> Some (w', Inl e)
       | Inr e \<Rightarrow>
           (case e of
              Round_Again \<Rightarrow> loop S W remote w'
            | Round_End t \<Rightarrow> Some (w', Inr t))) = Some r"
    and eq: "S = L"
  obtain w1 q where rd: "http_round L W remote w = Some (w1, q)"
    using run by (cases "http_round L W remote w") (auto simp: eq)
  have again: "http_then V W remote (apfst (cn_map emb) w1) = Some (apfst (apfst (cn_map emb)) r)"
    if "q = Inr Round_Again"
    using IH [of L W remote w1 r] run that by (simp add: eq rd)
  show "http_then V W remote (apfst (cn_map emb) w) = Some (apfst (apfst (cn_map emb)) r)"
    using run again
    by (subst http_then.simps) (auto simp: eq rd http_round_sim split: sum.splits round_end.splits)
qed

lemma http_then_back:
  "http_then S W remote v = Some r \<Longrightarrow> S = V \<longrightarrow>
   (\<forall>w. v = apfst (cn_map emb) w \<longrightarrow> http_then L W remote w \<noteq> None)"
proof (erule http_then.raw_induct [rotated], intro impI allI)
  fix loop S W remote v r w
  assume IH: "\<And>S W remote v r. loop S W remote v = Some r \<Longrightarrow> S = V \<longrightarrow>
      (\<forall>w. v = apfst (cn_map emb) w \<longrightarrow> http_then L W remote w \<noteq> None)"
    and run: "Option.bind (http_round S W remote v) (\<lambda>(w', r).
       case r of
         Inl e \<Rightarrow> Some (w', Inl e)
       | Inr e \<Rightarrow>
           (case e of
              Round_Again \<Rightarrow> loop S W remote w'
            | Round_End t \<Rightarrow> Some (w', Inr t))) = Some r"
    and eq: "S = V" "v = apfst (cn_map emb) w"
  obtain w1 q where rd: "http_round L W remote w = Some (w1, q)"
    using run by (cases "http_round L W remote w") (auto simp: eq http_round_sim)
  have again: "http_then L W remote w1 \<noteq> None" if "q = Inr Round_Again"
  proof -
    have "loop V W remote (apfst (cn_map emb) w1) = Some r"
      using run that by (simp add: eq http_round_sim rd)
    from IH [OF this] show ?thesis by blast
  qed
  then show "http_then L W remote w \<noteq> None"
    by (subst http_then.simps) (auto simp: rd split: sum.split round_end.split)
qed

lemma http_then_sim:
  "http_then V W remote (apfst (cn_map emb) w) =
   map_option (apfst (apfst (cn_map emb))) (http_then L W remote w)"
  using http_then_forth [of L W remote w] http_then_back [of V W remote "apfst (cn_map emb) w"]
  by (cases "http_then L W remote w"; cases "http_then V W remote (apfst (cn_map emb) w)") auto

end

section \<open>The HTTP task over the variant\<close>

fun on_conn ::
  "('k conn \<Rightarrow> 'k conn \<times> 'r) \<Rightarrow> (('t \<times> 'k) conn \<Rightarrow> ('t \<times> 'k) conn \<times> 'r) \<Rightarrow> ('k, 't) http_stream \<Rightarrow> string \<Rightarrow>
   ('k, 't) http_stream conn \<times> 'r" where
  "on_conn f g (Plain_Stream k) b = apfst (cn_map Plain_Stream) (f \<lparr>cn_stream = k, cn_buffer = b\<rparr>)"
| "on_conn f g (Tls_Stream t k) b =
     apfst (cn_map (\<lambda>(t, k). Tls_Stream t k)) (g \<lparr>cn_stream = (t, k), cn_buffer = b\<rparr>)"

fun on_stream ::
  "('k \<Rightarrow> 'k \<times> 'r) \<Rightarrow> ('t \<times> 'k \<Rightarrow> ('t \<times> 'k) \<times> 'r) \<Rightarrow> ('k, 't) http_stream \<Rightarrow> ('k, 't) http_stream \<times> 'r" where
  "on_stream f g (Plain_Stream k) = apfst Plain_Stream (f k)"
| "on_stream f g (Tls_Stream t k) = apfst (\<lambda>(t, k). Tls_Stream t k) (g (t, k))"

text \<open>
  Reading and writing a message over a plain stream and over a TLS stream are parameters; parsers and
  serializers do not depend on the stream, and closing is \<open>http\_stream::close\<close>.
\<close>

definition session_over ::
  "('k, 't, 'e) socket_api \<Rightarrow> ('k, 'f, 'j, 'p, 'z) stream_api \<Rightarrow> ('t \<times> 'k, 'f, 'j, 'p, 'z) stream_api \<Rightarrow>
   (('k, 't) http_stream, 'f, 'j, 'p, 'z) stream_api" where
  "session_over N P T =
     \<lparr>sa_read_header = (\<lambda>c. on_conn (sa_read_header P) (sa_read_header T) (cn_stream c) (cn_buffer c)),
      sa_is_upgrade = sa_is_upgrade P, sa_body_parser = sa_body_parser P, sa_body_done = sa_body_done P,
      sa_read_some = (\<lambda>c p. on_conn (\<lambda>c. sa_read_some P c p) (\<lambda>c. sa_read_some T c p) (cn_stream c) (cn_buffer c)),
      sa_body = sa_body P, sa_prepare_payload = sa_prepare_payload P, sa_serializer = sa_serializer P,
      sa_serializer_done = sa_serializer_done P,
      sa_write_some = (\<lambda>s z. on_stream (\<lambda>k. sa_write_some P k z) (\<lambda>q. sa_write_some T q z) s),
      sa_write_chunk = (\<lambda>s b. on_stream (\<lambda>k. sa_write_chunk P k b) (\<lambda>q. sa_write_chunk T q b) s),
      sa_write_last = on_stream (sa_write_last P) (sa_write_last T),
      sa_close = stream_close N\<rparr>"

text \<open>The two layers as streams of their own.\<close>

definition plain_layer ::
  "('k, 't, 'e) socket_api \<Rightarrow> ('k, 'f, 'j, 'p, 'z) stream_api \<Rightarrow> ('k, 'f, 'j, 'p, 'z) stream_api" where
  "plain_layer N P = P\<lparr>sa_close := \<lambda>k. so_close N (fst (so_shutdown N Shutdown_Both k))\<rparr>"

definition tls_layer ::
  "('k, 't, 'e) socket_api \<Rightarrow> ('k, 'f, 'j, 'p, 'z) stream_api \<Rightarrow> ('t \<times> 'k, 'f, 'j, 'p, 'z) stream_api \<Rightarrow>
   ('t \<times> 'k, 'f, 'j, 'p, 'z) stream_api" where
  "tls_layer N P T =
     T\<lparr>sa_is_upgrade := sa_is_upgrade P, sa_body_parser := sa_body_parser P, sa_body_done := sa_body_done P,
       sa_body := sa_body P, sa_prepare_payload := sa_prepare_payload P, sa_serializer := sa_serializer P,
       sa_serializer_done := sa_serializer_done P,
       sa_close := \<lambda>(t, k). case tls_shutdown N t k of
         (t', k') \<Rightarrow> (t', so_close N (fst (so_shutdown N Shutdown_Both k')))\<rparr>"

lemma conn_eta: "\<lparr>cn_stream = cn_stream c, cn_buffer = cn_buffer c\<rparr> = c"
  by (cases c) simp

interpretation plain_http: stream_api_sim Plain_Stream "plain_layer N P" "session_over N P T" for N P T
  by unfold_locales (simp_all add: session_over_def plain_layer_def stream_close_def conn_eta)

interpretation tls_http: stream_api_sim "\<lambda>(t, k). Tls_Stream t k" "tls_layer N P T" "session_over N P T"
  for N P T
  by unfold_locales
    (auto simp: session_over_def tls_layer_def stream_close_def case_prod_unfold conn_eta)

text \<open>
  The HTTP task of a plain connection does what it would do over a plain stream, that of a TLS
  connection what it would do over a TLS stream, and each hands on a stream of its kind.
\<close>

theorem http_task_over_variant:
  "http_then (session_over N P T) W remote (cn_map Plain_Stream c, a) =
     map_option (apfst (apfst (cn_map Plain_Stream))) (http_then (plain_layer N P) W remote (c, a))"
  "http_then (session_over N P T) W remote (cn_map (\<lambda>(t, k). Tls_Stream t k) d, a) =
     map_option (apfst (apfst (cn_map (\<lambda>(t, k). Tls_Stream t k)))) (http_then (tls_layer N P T) W remote (d, a))"
  using plain_http.http_then_sim [of N P T W remote "(c, a)"] tls_http.http_then_sim [of N P T W remote "(d, a)"]
  by simp_all

lemma http_task_keeps_layers:
  assumes "http_then (session_over N P T) W remote (c, a) = Some ((c', a'), r)"
  shows "is_tls (cn_stream c') = is_tls (cn_stream c)"
proof (cases "cn_stream c")
  case (Plain_Stream k)
  then have c: "c = cn_map Plain_Stream \<lparr>cn_stream = k, cn_buffer = cn_buffer c\<rparr>" by (simp add: cn_map_def)
  obtain d where "c' = cn_map Plain_Stream d"
    using assms by (subst (asm) c) (auto simp only: http_task_over_variant map_option_eq_Some apfst_conv prod.inject)
  with Plain_Stream show ?thesis by simp
next
  case (Tls_Stream t k)
  then have c: "c = cn_map (\<lambda>(t, k). Tls_Stream t k) \<lparr>cn_stream = (t, k), cn_buffer = cn_buffer c\<rparr>"
    by (simp add: cn_map_def)
  obtain d where "c' = cn_map (\<lambda>(t, k). Tls_Stream t k) d"
    using assms by (subst (asm) c) (auto simp only: http_task_over_variant map_option_eq_Some apfst_conv prod.inject)
  with Tls_Stream show ?thesis by (simp add: case_prod_unfold)
qed

section \<open>The session over the variants\<close>

text \<open>
  TLS on the side of the server: whether there is a context, what the detection reads and finds, the
  TLS stream made over a plain one, and the handshake, which is given what was read.
\<close>

record ('k, 't) tls_server_api =
  ts_context :: bool
  ts_detect :: "'k \<Rightarrow> 'k \<times> string \<times> bool option"
  ts_new :: 't
  ts_handshake :: "'t \<times> 'k \<Rightarrow> string \<Rightarrow> ('t \<times> 'k) \<times> nat option"

text \<open>The detection works on a plain stream and the handshake on a TLS stream, by their types.\<close>

fun detect_over :: "('k, 't) tls_server_api \<Rightarrow> ('k, 't) http_stream \<Rightarrow> ('k, 't) http_stream conn \<times> bool option" where
  "detect_over D (Plain_Stream k) =
     (case ts_detect D k of
        (k', b, r) \<Rightarrow>
          (\<lparr>cn_stream = if r = Some True then Tls_Stream (ts_new D) k' else Plain_Stream k', cn_buffer = b\<rparr>, r))"
| "detect_over D (Tls_Stream t k) = (\<lparr>cn_stream = Tls_Stream t k, cn_buffer = []\<rparr>, None)"

fun handshake_over ::
  "('k, 't) tls_server_api \<Rightarrow> ('k, 't) http_stream \<Rightarrow> string \<Rightarrow> ('k, 't) http_stream \<times> nat option" where
  "handshake_over D (Tls_Stream t k) b = apfst (\<lambda>(t, k). Tls_Stream t k) (ts_handshake D (t, k) b)"
| "handshake_over D (Plain_Stream k) b = (Plain_Stream k, None)"

fun shutdown_over :: "('k, 't, 'e) socket_api \<Rightarrow> ('k, 't) http_stream \<Rightarrow> ('k, 't) http_stream" where
  "shutdown_over N (Tls_Stream t k) = (case tls_shutdown N t k of (t', k') \<Rightarrow> Tls_Stream t' k')"
| "shutdown_over N (Plain_Stream k) = Plain_Stream k"

definition tls_over ::
  "('k, 't, 'e) socket_api \<Rightarrow> ('k, 't) tls_server_api \<Rightarrow> ('k, 't) http_stream tls_api" where
  "tls_over N D =
     \<lparr>ta_enabled = ts_context D, ta_detect = detect_over D,
      ta_handshake = (\<lambda>c. handshake_over D (cn_stream c) (cn_buffer c)), ta_shutdown = shutdown_over N\<rparr>"

definition session_env_over ::
  "('k, 't, 'e) socket_api \<Rightarrow> ('k, 't) tls_server_api \<Rightarrow> ('k, 'f, 'j, 'p, 'z) stream_api \<Rightarrow>
   ('t \<times> 'k, 'f, 'j, 'p, 'z) stream_api \<Rightarrow> ('a, 'f, 'j, 'a ws_handler_entry) serv \<Rightarrow> string \<Rightarrow>
   ('k \<Rightarrow> 'u) \<Rightarrow> ('t \<Rightarrow> 'k \<Rightarrow> 'v) \<Rightarrow> ('u, ('f, 'j) request) ws_layer \<Rightarrow> ('v, ('f, 'j) request) ws_layer \<Rightarrow>
   (('u, 'v) websocket_stream \<Rightarrow> close_race) \<Rightarrow>
   (('k, 't) http_stream, 'x, 'cr, 'cw, 'pr, 'pw) proxy_api \<Rightarrow>
   (('k, 't) http_stream, 'f, 'j, 'p, 'z, 'a, ('u, 'v) websocket_stream, 'x, 'cr, 'cw, 'pr, 'pw) session_env" where
  "session_env_over N D P T V remote op ot U W race X =
     \<lparr>se_tls = tls_over N D, se_stream = session_over N P T, se_serv = V, se_remote = remote,
      se_ws = conn_over (websocket_layer U W) race, se_ws_stream = websocket_of_stream op ot, se_proxy = X\<rparr>"

section \<open>Which protocol a session speaks\<close>

fun task_tls :: "(('k, 't) http_stream, ('u, 'v) websocket_stream, 'f, 'j) task \<Rightarrow> bool" where
  "task_tls (Detect_Ssl s) = is_tls s"
| "task_tls (Ssl_Handshake c) = is_tls (cn_stream c)"
| "task_tls (Http c) = is_tls (cn_stream c)"
| "task_tls (Proxy s req) = is_tls s"
| "task_tls (Websocket c req) = ws_is_tls (wc_stream c)"

fun is_handshake :: "('s, 't, 'f, 'j) task \<Rightarrow> bool" where
  "is_handshake (Ssl_Handshake c) = True"
| "is_handshake _ = False"

lemma session_run_step:
  "\<not> ab k \<Longrightarrow> task_then E t a = Some (a', Inr nxt) \<Longrightarrow>
   session_run E ab k \<lparr>ss_task = Some t, ss_abort = False\<rparr> a =
   Option.bind (session_run E ab (Suc k) \<lparr>ss_task = nxt, ss_abort = False\<rparr> a')
     (\<lambda>(ss, a, e, ts). Some (ss, a, e, t # ts))"
  by (subst session_run.simps) simp

lemma session_run_stop:
  "\<not> ab k \<Longrightarrow> session_run E ab k \<lparr>ss_task = None, ss_abort = False\<rparr> a =
    Some (\<lparr>ss_task = None, ss_abort = False\<rparr>, a, None, [])"
  by (subst session_run.simps) simp

text \<open>The tasks of a run follow from one another.\<close>

fun task_chain ::
  "('s, 'f, 'j, 'p, 'z, 'a, 't, 'e, 'cr, 'cw, 'pr, 'pw) session_env \<Rightarrow> ('s, 't, 'f, 'j) task list \<Rightarrow> bool" where
  "task_chain E (t # u # ts) \<longleftrightarrow> (\<exists>a a'. task_then E t a = Some (a', Inr (Some u))) \<and> task_chain E (u # ts)"
| "task_chain E _ \<longleftrightarrow> True"

lemma session_run_chain:
  "session_run E ab k ss a = Some (ss', a', e, ts) \<Longrightarrow>
   task_chain E ts \<and> (ts \<noteq> [] \<longrightarrow> ss_task ss = Some (hd ts))"
proof (induction ts arbitrary: k ss a)
  case (Cons t ts)
  note run = Cons.prems [unfolded session_run.simps [of E ab k ss a]]
  from run have quiet: "\<not> ab k" "\<not> ss_abort ss"
    by (auto simp: Let_def session_abort_def split: if_splits)
  with run obtain t0 where t0: "ss_task ss = Some t0" by (cases "ss_task ss") auto
  with run quiet obtain b r where b: "task_then E t0 a = Some (b, r)" by (cases "task_then E t0 a") auto
  note run' = run [simplified quiet t0 b Let_def option.case bind.simps prod.case if_False]
  show ?case
  proof (cases r)
    case (Inl f)
    with run' t0 show ?thesis by simp
  next
    case (Inr nxt)
    with run' have "session_run E ab (Suc k) (ss\<lparr>ss_task := nxt\<rparr>) b = Some (ss', a', e, ts)" "t = t0"
      by (auto simp: bind_eq_Some_conv)
    from Cons.IH [OF this(1)] t0 b Inr this(2) show ?thesis by (cases ts) auto
  qed
qed simp

lemma chain_protocol:
  assumes "\<And>t u a a'. task_then E t a = Some (a', Inr (Some u)) \<Longrightarrow> tls u \<longleftrightarrow> tls t \<or> shakes u"
  shows "task_chain E ts \<Longrightarrow> (ts \<noteq> [] \<longrightarrow> tls (hd ts) = shakes (hd ts)) \<Longrightarrow> i < length ts \<Longrightarrow>
    tls (ts ! i) \<longleftrightarrow> (\<exists>j\<le>i. shakes (ts ! j))"
proof (induction i)
  case (Suc i)
  have "\<exists>a a'. task_then E (ts ! i) a = Some (a', Inr (Some (ts ! Suc i)))"
    using Suc.prems(1,3)
  proof (induction ts arbitrary: i)
    case (Cons t ts)
    then show ?case by (cases ts; cases i) auto
  qed simp
  with assms have "tls (ts ! Suc i) \<longleftrightarrow> tls (ts ! i) \<or> shakes (ts ! Suc i)" by blast
  with Suc show ?case by (auto simp: le_Suc_eq)
qed (simp add: hd_conv_nth)

lemma handshake_over_tls: "handshake_over D s b = (s', Some n) \<Longrightarrow> is_tls s' \<and> is_tls s"
  by (cases s; cases "ts_handshake D (case s of Tls_Stream t k \<Rightarrow> (t, k)) b") auto

lemma task_then_protocol:
  assumes "task_then (session_env_over N D P T V remote op ot U W race X) t a = Some (a', Inr (Some u))"
  shows "task_tls u \<longleftrightarrow> task_tls t \<or> is_handshake u"
proof (cases t)
  case (Detect_Ssl s)
  with assms show ?thesis
    by (cases s) (auto simp: session_env_over_def tls_over_def detect_then_def split: if_splits prod.splits option.splits)
next
  case (Ssl_Handshake c)
  with assms show ?thesis
    by (auto simp: session_env_over_def tls_over_def handshake_then_def dest: handshake_over_tls
        split: prod.splits option.splits)
next
  case (Http c)
  with assms obtain c' r where run: "http_then (session_over N P T) V remote (c, a) = Some ((c', a'), r)"
    and u: "rmap (handover (session_env_over N D P T V remote op ot U W race X) c') r = Inr (Some u)"
    by (auto simp: session_env_over_def)
  then obtain q where "handover (session_env_over N D P T V remote op ot U W race X) c' q = Some u"
    by (auto simp: rmap_eq_Inr)
  with http_task_keeps_layers [OF run] Http show ?thesis
    by (cases q) (auto simp: handover_def session_env_over_def ws_conn_new_def)
qed (use assms in \<open>auto split: option.splits\<close>)

text \<open>
  C19. A session speaks TLS from its handshake on and never before: a task has a TLS stream exactly when the
  handshake is among the tasks up to it. So nothing that comes after a handshake, no request, tunnel or
  WebSocket connection, is served in the clear, and without a handshake everything is.
\<close>

theorem session_keeps_its_protocol:
  assumes "session_run (session_env_over N D P T V remote op ot U W race X) ab 0 (session_new (Plain_Stream k)) a =
      Some (ss, a', e, ts)"
  shows "\<forall>i<length ts. task_tls (ts ! i) = (\<exists>j\<le>i. is_handshake (ts ! j))"
proof (intro allI impI)
  fix i assume i: "i < length ts"
  note chain = session_run_chain [OF assms]
  show "task_tls (ts ! i) = (\<exists>j\<le>i. is_handshake (ts ! j))"
    by (rule chain_protocol [OF task_then_protocol chain [THEN conjunct1] _ i])
      (use chain in \<open>auto simp: session_new_def dest!: sym [of "Detect_Ssl _"]\<close>)
qed

text \<open>A session over scripts whose peer speaks TLS and then leaves.\<close>

definition script_net :: "(script, nat, unit) socket_api" where
  "script_net =
     \<lparr>so_new = \<lparr>sc_headers = [], sc_sent = []\<rparr>, so_connect = (\<lambda>k eps. (k, None)),
      so_reuse_address = (\<lambda>k. (k, None)), so_is_open = (\<lambda>k. True), so_shutdown = (\<lambda>w k. (k, None)),
      so_read_some = (\<lambda>n k. (k, [], None)), so_write_some = (\<lambda>b k. (k, length b, None)),
      so_expires_at = (\<lambda>t k. k), so_close = (\<lambda>k. k), so_expires_after = (\<lambda>d k. k),
      so_expires_never = (\<lambda>k. k), tls_supported = True, tls_new = (\<lambda>host. Inr 0),
      tls_handshake = (\<lambda>t k. (1, k, None)), tls_shutdown = (\<lambda>t k. (2, k)),
      tls_read_some = (\<lambda>n q. (q, [], None)), tls_write_some = (\<lambda>b q. (q, length b, None))\<rparr>"

definition script_tls_server :: "(script, nat) tls_server_api" where
  "script_tls_server =
     \<lparr>ts_context = True, ts_detect = (\<lambda>k. (k, ''hello'', Some True)), ts_new = 0,
      ts_handshake = (\<lambda>(t, k) b. ((1, k), Some (length b)))\<rparr>"

definition script_over_tls :: "(nat \<times> script, plain_fields, string, nat, string option) stream_api" where
  "script_over_tls =
     \<lparr>sa_read_header = (\<lambda>c. case sc_headers (snd (cn_stream c)) of
        [] \<Rightarrow> (c, None)
      | h # hs \<Rightarrow> (c\<lparr>cn_stream := (fst (cn_stream c), (snd (cn_stream c))\<lparr>sc_headers := hs\<rparr>)\<rparr>, Some h)),
      sa_is_upgrade = (\<lambda>h. False), sa_body_parser = (\<lambda>h. 0), sa_body_done = (\<lambda>p. p = 0),
      sa_read_some = (\<lambda>c p. (c, p - 1, False)), sa_body = (\<lambda>p. V_Empty),
      sa_prepare_payload = rs_fields, sa_serializer = (\<lambda>rs. None), sa_serializer_done = (\<lambda>z. z = None),
      sa_write_some = (\<lambda>q z. ((case z of None \<Rightarrow> q | Some t \<Rightarrow> (fst q, script_send t (snd q))), None, False)),
      sa_write_chunk = (\<lambda>q b. ((fst q, script_send b (snd q)), False)),
      sa_write_last = (\<lambda>q. ((fst q, script_send [] (snd q)), False)), sa_close = (\<lambda>q. q)\<rparr>"

definition unit_layer :: "(unit, (plain_fields, string) request) ws_layer" where
  "unit_layer =
     \<lparr>wl_is_open = (\<lambda>s. False), wl_accept = (\<lambda>s q. (s, None)), wl_handshake = (\<lambda>s h t. (s, None)),
      wl_decorator = (\<lambda>s d. s), wl_read = (\<lambda>s. (s, [], Some End_Of_Stream)), wl_write = (\<lambda>s b. (s, None)),
      wl_close = (\<lambda>s c r. (s, None)), wl_ping = (\<lambda>s b. (s, None)), wl_pong = (\<lambda>s b. (s, None)),
      wl_got_binary = (\<lambda>s. False), wl_got_text = (\<lambda>s. True), wl_text = (\<lambda>s b. s), wl_binary = (\<lambda>s b. s),
      wl_socket_shutdown = (\<lambda>s. (s, None)), wl_socket_close = (\<lambda>s. (s, None))\<rparr>"

definition empty_serv :: "(nat, plain_fields, string, nat ws_handler_entry) serv" where
  "empty_serv =
     \<lparr>sv_fields = plain_api, sv_env = example_env, sv_creators = compressor_factory True,
      sv_regex = (\<lambda>_ _. False), sv_router = router_new, sv_what = (\<lambda>e. None)\<rparr>"

definition no_proxy :: "((script, nat) http_stream, unit, unit, unit, unit, unit) proxy_api" where
  "no_proxy =
     \<lparr>px_resolve = (\<lambda>h p. None), px_connect = (\<lambda>e. None), px_halves = (\<lambda>s. ((), ())),
      px_up = \<lparr>pi_read = (\<lambda>r. (r, [], True)), pi_write = (\<lambda>w b. (w, False)), pi_shutdown_send = (\<lambda>w. w),
        pi_shutdown_receive = (\<lambda>r. r)\<rparr>,
      px_down = \<lparr>pi_read = (\<lambda>r. (r, [], True)), pi_write = (\<lambda>w b. (w, False)), pi_shutdown_send = (\<lambda>w. w),
        pi_shutdown_receive = (\<lambda>r. r)\<rparr>\<rparr>"

abbreviation silent :: script where "silent \<equiv> \<lparr>sc_headers = [], sc_sent = []\<rparr>"

definition script_env where
  "script_env = session_env_over script_net script_tls_server script_api script_over_tls empty_serv ''::1''
     (\<lambda>k. ()) (\<lambda>t k. ()) unit_layer unit_layer (\<lambda>s. Timer_First) no_proxy"

lemma script_http:
  "http_then (session_over script_net script_api script_over_tls) V remote
     (\<lparr>cn_stream = Tls_Stream t silent, cn_buffer = b\<rparr>, a) =
   Some ((\<lparr>cn_stream = Tls_Stream t silent, cn_buffer = b\<rparr>, a), Inr No_Task)"
  by (subst http_then.simps) (simp add: http_round_def session_over_def script_over_tls_def cn_map_def)

lemma script_tasks:
  "task_then script_env (Detect_Ssl (Plain_Stream silent)) a =
     Some (a, Inr (Some (Ssl_Handshake \<lparr>cn_stream = Tls_Stream 0 silent, cn_buffer = ''hello''\<rparr>)))"
  "task_then script_env (Ssl_Handshake \<lparr>cn_stream = Tls_Stream 0 silent, cn_buffer = ''hello''\<rparr>) a =
     Some (a, Inr (Some (Http \<lparr>cn_stream = Tls_Stream 1 silent, cn_buffer = []\<rparr>)))"
  "task_then script_env (Http \<lparr>cn_stream = Tls_Stream 1 silent, cn_buffer = []\<rparr>) a = Some (a, Inr None)"
  by (simp_all add: script_env_def session_env_over_def tls_over_def script_tls_server_def detect_then_def handshake_then_def
    script_http handover_def)

lemma script_run:
  "session_run script_env (\<lambda>k. False) 0 (session_new (Plain_Stream silent)) a =
     Some (\<lparr>ss_task = None, ss_abort = False\<rparr>, a, None,
       [Detect_Ssl (Plain_Stream silent), Ssl_Handshake \<lparr>cn_stream = Tls_Stream 0 silent, cn_buffer = ''hello''\<rparr>,
        Http \<lparr>cn_stream = Tls_Stream 1 silent, cn_buffer = []\<rparr>])"
  by (simp add: session_new_def session_run_step script_tasks session_run_stop del: task_then.simps One_nat_def)

theorem session_keeps_its_protocol_witness:
  "\<exists>ss a e t u v. session_run script_env (\<lambda>k. False) 0 (session_new (Plain_Stream silent)) 0 =
      Some (ss, a, e, [t, u, v]) \<and>
    is_handshake u \<and> \<not> task_tls t \<and> task_tls u \<and> task_tls v"
  using script_run [of 0] session_keeps_its_protocol [OF script_run [of 0, unfolded script_env_def]]
  by (auto simp: All_less_Suc numeral_3_eq_3 le_Suc_eq)

end
