(* ===== verification/End_To_End.thy ===== *)
theory End_To_End
  imports Routing Session_Props Client_Props Response Accept_Content
begin

text \<open>
  From the request the client makes, through the session's reading of its header and the search of the
  routes, to the handler, and, where the handler is a mount point, to the bytes of the file, the
  response as the session prepares it and what the client reads of it; and the encoding the two agree
  on: what the components do together. The properties are in the root theory.
\<close>

section \<open>A GET request and its handler\<close>

lemma client_get_routed:
  fixes b :: "'j any_value"
  assumes "\<forall>r\<in>set regs. pat_valid ok (reg_pattern r)"
    and "path \<noteq> []" and "CHR ''?'' \<notin> set path" and "url_decode path = Inr path'"
    and "http_route regs pat V_get = Some h" and "pat_match rx pat (split_segments path')"
    and "q = get_request A version cs cl path params headers"
  shows "\<exists>req pat h.
    header_request remote \<lparr>rh_method = cr_method q, rh_target = cr_target q, rh_version = cr_version q,
      rh_fields = cr_fields q\<rparr> = Inr req \<and>
    rq_method req = V_get \<and> rq_fields req = cr_fields q \<and> request_path req = path' \<and>
    rq_query_params req = map arrived params \<and>
    http_route regs pat V_get = Some h \<and> pat_match rx pat (split_segments path') \<and>
    proc_routing A E rx (registered ok regs) \<lparr>ex_app = a, ex_req = req\<lparr>rq_body := b\<rparr>, ex_resp = rs\<rparr> =
      h \<lparr>ex_app = a, ex_req = set_path_param (map_of (pat_binds pat (split_segments path'))) (req\<lparr>rq_body := b\<rparr>),
         ex_resp = rs\<rparr>"
proof -
  have v: "cr_version q = 11" by (simp add: assms(7) get_request_def make_http_request_def Let_def)
  have "\<exists>req. request_new remote (cr_method q) (cr_target q) 11 (cr_fields q) (V_Empty :: 'j any_value) = Inr req \<and>
      rq_method req = V_get \<and> rq_fields req = cr_fields q \<and> request_path req = path' \<and>
      rq_query_params req = map arrived params"
    unfolding assms(7) by (rule get_request_seen_by_server [OF assms(2-4)])
  then obtain req where
    req: "request_new remote (cr_method q) (cr_target q) 11 (cr_fields q) (V_Empty :: 'j any_value) = Inr req"
      "rq_method req = V_get" "rq_fields req = cr_fields q" "request_path req = path'"
      "rq_query_params req = map arrived params"
    by blast
  let ?ex = "\<lparr>ex_app = a, ex_req = req\<lparr>rq_body := b\<rparr>, ex_resp = rs\<rparr>"
  have "request_path (ex_req ?ex) = path'" using req(4) by (auto simp: request_path_def split: if_splits)
  then have segs: "split_segments path' = split_segments (request_path (ex_req ?ex))" by (simp only:)
  have get: "V_get = rq_method (ex_req ?ex)" using req(2) by simp
  from routing_found [OF assms(1) get segs assms(5,6)]
  show ?thesis using req v by (auto simp: header_request_def)
qed

section \<open>A file below a mount point\<close>

text \<open>The path parameter names a regular file that can be read.\<close>

definition mount_serves :: "fs_api \<Rightarrow> mount_point_entry \<Rightarrow> string \<Rightarrow> string \<Rightarrow> int \<Rightarrow> bool" where
  "mount_serves FS mp rel data t \<longleftrightarrow>
     is_valid_path rel \<and>
     (let file = path_join (mp_base_dir mp) rel
      in has_filename file \<and> fsys_exists FS file \<and> fsys_is_regular FS file \<and>
         fsys_file_size FS file = Some (length data) \<and> fsys_write_time FS file = Some t \<and>
         fsys_read FS file = Some data)"

lemma mount_point_call_file:
  assumes "mount_serves FS mp rel data t" and "rq_path_params req ''*'' = Some rel"
  shows "mount_point_call A E FS mk_json mp req rs =
    set_file_content A E FS (path_join (mp_base_dir mp) rel) (rq_fields req) rs"
  using assms by (simp add: mount_point_call_def request_path_param_def mount_serves_def mount_target_def Let_def)

text \<open>The client sends no condition and perhaps a range.\<close>

definition asks_for :: "(field \<times> string) list \<Rightarrow> string \<Rightarrow> bool" where
  "asks_for headers rg \<longleftrightarrow>
     map_of (rev headers) F_if_none_match = None \<and> map_of (rev headers) F_if_modified_since = None \<and>
     (case map_of (rev headers) F_range of None \<Rightarrow> [] | Some r \<Rightarrow> r) = rg"

lemma asked_fields:
  assumes "fields_laws A" and "asks_for headers rg" and "q = get_request A version cs cl path params headers"
  shows "fa_get A (cr_fields q) F_range = rg" and "fa_get A (cr_fields q) F_if_none_match = []"
    and "fa_get A (cr_fields q) F_if_modified_since = []"
proof -
  have "fa_get A (cr_fields q) n = (case map_of (rev headers) n of None \<Rightarrow> [] | Some v \<Rightarrow> v)"
    if "n \<in> {F_range, F_if_none_match, F_if_modified_since}" for n
    unfolding fa_get_def assms(3) get_request_def request_headers [OF assms(1), THEN conjunct2]
    using that by (auto split: option.split)
  with assms(2) show "fa_get A (cr_fields q) F_range = rg" "fa_get A (cr_fields q) F_if_none_match = []"
    "fa_get A (cr_fields q) F_if_modified_since = []"
    by (simp_all add: asks_for_def)
qed

lemma date_nonempty: "format_http_gmt_date FS t \<noteq> []"
  by (simp add: format_http_gmt_date_def Let_def)

lemma etag_nonempty: "file_etag n t \<noteq> []"
  by (simp add: file_etag_def)

lemma mount_handler_file:
  assumes "fields_laws A" and "mount_serves FS mp rel data t" and "rq_path_params (ex_req ex) ''*'' = Some rel"
    and "fa_get A (rq_fields (ex_req ex)) F_range = rg"
    and "fa_get A (rq_fields (ex_req ex)) F_if_none_match = []"
    and "fa_get A (rq_fields (ex_req ex)) F_if_modified_since = []"
    and "ranges_parse rg (int (length data)) = Inr (True, rgs)" and "int (length data) < 2 ^ 63"
    and "rgs = [] \<or> (\<exists>a b. rgs = [(int a, int b)] \<and> a \<le> b \<and> b < length data)"
    and "0 < B" and "length data < n"
  shows "\<exists>rs file text. mount_handler A E FS mk_json mp ex = (ex\<lparr>ex_resp := rs\<rparr>, None) \<and>
    rs_status rs = (if rgs = [] then 200 else 206) \<and> rs_body rs = V_File file \<and>
    drain (file_writer_get B) n (file_writer_new junk file) = Some (text, None) \<and> framed A (length text) rs \<and>
    text = (case rgs of [] \<Rightarrow> data | (a, b) # _ \<Rightarrow> take (nat (b + 1 - a)) (drop (nat a) data)) \<and>
    file = (file_open data)
      \<lparr>fv_content_type := get_mime_type (path_extension (path_join (mp_base_dir mp) rel)), fv_ranges := rgs\<rparr> \<and>
    fa_find A (rs_fields rs) F_content_type =
      Some (get_mime_type (path_extension (path_join (mp_base_dir mp) rel))) \<and>
    fa_find A (rs_fields rs) F_content_encoding = fa_find A (rs_fields (ex_resp ex)) F_content_encoding"
proof -
  let ?file = "path_join (mp_base_dir mp) rel" and ?h = "rq_fields (ex_req ex)"
  have fs: "fsys_file_size FS ?file = Some (length data)" "fsys_write_time FS ?file = Some t"
    "fsys_read FS ?file = Some data"
    using assms(2) by (simp_all add: mount_serves_def Let_def)
  have "ranges_parse (fa_get A ?h F_range) (int (length data)) = Inr (True, rgs)"
    "fa_get A ?h F_if_none_match \<noteq> file_etag (length data) t"
    "fa_get A ?h F_if_modified_since \<noteq> format_http_gmt_date FS t"
    using assms(4-7) date_nonempty [of FS t] etag_nonempty [of "length data" t] by simp_all
  from file_content_sent [OF assms(1) fs this assms(8-11), of E "ex_resp ex" junk]
  show ?thesis
    unfolding mount_handler_def mount_point_call_file [OF assms(2,3)] by fastforce
qed

section \<open>The encoding of a response\<close>

text \<open>The registry in whatever order its map has the four encodings.\<close>

definition same_registry :: "creators \<Rightarrow> bool" where
  "same_registry cs \<longleftrightarrow> (\<forall>e. map_of cs e = map_of (compressor_factory True) e)"

lemma registry_names:
  assumes "same_registry cs" and "(enc, k) \<in> set cs"
  shows "enc \<in> {''br'', ''zstd'', ''deflate'', ''gzip''}"
proof -
  have "map_of cs enc \<noteq> None" using assms(2) by (metis map_of_eq_None_iff fst_conv image_eqI)
  then show ?thesis using assms(1) by (auto simp: same_registry_def factory_lookup split: if_splits)
qed

lemma names_clean:
  assumes "enc \<in> {''br'', ''zstd'', ''deflate'', ''gzip''}"
  shows "enc \<noteq> []" "CHR '','' \<notin> set enc" "CHR '';'' \<notin> set enc" "\<forall>c\<in>set enc. \<not> isspace c"
  using assms by (auto simp: isspace_def)

lemma split_first:
  assumes "c \<notin> set a" and "a \<noteq> []" and "trim a = a"
  shows "\<exists>rest. split (a @ (if b = [] then [] else c # b)) [c] = a # rest"
proof -
  have "\<not> starts_with [c] (a @ s)" for s using assms(1,2) by (cases a) auto
  then show ?thesis
    using assms split_tail_char [OF assms(1), of b] split_tail_None [of "[c]" a]
    by (auto simp: split_eq_ref split_ref_def)
qed

lemma first_accepted:
  assumes "enc \<in> {''br'', ''zstd'', ''deflate'', ''gzip''}"
  shows "\<exists>e rest. accept_parse (join '','' (enc # encs)) = e # rest \<and> elem_value e = enc"
proof -
  note clean = names_clean [OF assms]
  have trim: "trim enc = enc" by (rule trim_id_no_space [OF clean(4)])
  have "join '','' (enc # encs) = enc @ (if encs = [] then [] else CHR '','' # join '','' encs)"
    by (cases encs) simp_all
  moreover have "\<exists>rest. split (enc @ (if encs = [] then [] else CHR '','' # join '','' encs)) '','' = enc # rest"
  proof (cases "join '','' encs = []")
    case True
    then show ?thesis
    proof (cases "encs = []")
      case False
      then show ?thesis
        using True clean split_tail_char [OF clean(2), of "[]"] trim
        by (cases enc) (auto simp: split_eq_ref split_ref_def)
    qed (use split_first [OF clean(2,1) trim, of "[]"] in simp)
  next
    case False
    then have "encs \<noteq> []" by auto
    with False split_first [OF clean(2,1) trim, of "join '','' encs"] show ?thesis by simp
  qed
  ultimately obtain rest where "split (join '','' (enc # encs)) '','' = enc # rest" by auto
  then have "accept_parse (join '','' (enc # encs)) =
      parse_element enc # map parse_element (filter (\<lambda>t. t \<noteq> []) (map trim rest))"
    by (simp add: accept_parse_def trim clean(1))
  moreover have "\<exists>rest. split enc '';'' = enc # rest"
    using split_first [OF clean(3,1) trim, of "[]"] by simp
  then have "elem_value (parse_element enc) = enc" by (auto simp: elem_value_parse_element trim)
  ultimately show ?thesis by blast
qed

lemma negotiated_encoding:
  assumes "fields_laws A" and "same_registry cs" and "cs = (enc, k) # others"
    and "cl_chunk_handler cl = None" and "map_of (rev headers) F_accept_encoding = None"
    and "rq_fields req = cr_fields (make_http_request A version cs cl m path headers)"
    and "rq_method req \<noteq> V_head" and "rs_stream_handler rs = None"
  shows "fa_get A (rs_fields (prepare_response S A cs req rs)) F_content_encoding = enc"
proof -
  have name: "enc \<in> {''br'', ''zstd'', ''deflate'', ''gzip''}"
    using registry_names [OF assms(2), of enc k] assms(3) by simp
  have "fa_find A (rq_fields req) F_accept_encoding = Some (join '','' (supported_encoding cs))"
    unfolding assms(6) request_headers [OF assms(1), THEN conjunct2]
    using assms(3,4,5) by (simp add: supported_encoding_def)
  moreover obtain e rest where "accept_parse (join '','' (supported_encoding cs)) = e # rest" "elem_value e = enc"
    using first_accepted [OF name, of "map fst others"] assms(3) by (auto simp: supported_encoding_def)
  moreover have "is_supported_encoding cs enc" using assms(3) by (simp add: is_supported_encoding_def)
  ultimately show ?thesis
    using names_clean(1) [OF name] fields_laws_simps [OF assms(1)] assms(7,8)
    by (simp add: prepare_response_def Let_def fa_get_def set_field_def)
qed

section \<open>What the session makes of a response with a body of known length, and the client of that\<close>

text \<open>The encoding a request leads to: none without Accept-Encoding.\<close>

definition encoding_for :: "'f fields_api \<Rightarrow> creators \<Rightarrow> 'f \<Rightarrow> string" where
  "encoding_for A cs f =
     (case fa_find A f F_accept_encoding of
        None \<Rightarrow> [] | Some v \<Rightarrow> server_apply_encoding cs (accept_parse v))"

text \<open>What the serializer gets from the body of a response, and what the client reads from such text.\<close>

definition body_text ::
  "'z filter_api \<Rightarrow> creators \<Rightarrow> ('j, 'p, 's) json_api \<Rightarrow> nat \<Rightarrow> nat \<Rightarrow> nat \<Rightarrow> 'f fields_api \<Rightarrow>
   ('f, 'j) response \<Rightarrow> (string \<times> body_error option) option" where
  "body_text F cs J B junk n A rs =
     any_drain F (proxy_writer_get J B) n
       (any_writer_init F cs (fa_get A (rs_fields rs) F_content_encoding)
         (create_proxy_writer J junk (rs_body rs)))"

definition client_reads ::
  "'z filter_api \<Rightarrow> creators \<Rightarrow> ('j, 'p, 's) json_api \<Rightarrow> nat \<Rightarrow> 'f fields_api \<Rightarrow>
   ('f, 'j) response \<Rightarrow> string list \<Rightarrow> 'j any_value \<Rightarrow> bool" where
  "client_reads F cs J max_size A rs segs body \<longleftrightarrow>
     (\<exists>r r'. any_reader_init F cs J max_size (fa_get A (rs_fields rs) F_content_type)
          (fa_get A (rs_fields rs) F_content_encoding) (fa_content_length A (rs_fields rs)) V_Empty = (r, None) \<and>
        any_feed F J max_size r segs = (r', None) \<and>
        any_reader_finish F J max_size r' = Inr (Inr body))"

lemma prepared_framed:
  assumes "fields_laws A" and "framed A m rs" and "rq_method req \<noteq> V_head"
    and "fa_find A (rs_fields rs) F_content_encoding = None"
    and "rs' = prepare_response S A cs req rs" and "enc = encoding_for A cs (rq_fields req)"
  shows "rs_status rs' = rs_status rs \<and> rs_body rs' = rs_body rs \<and>
    fa_get A (rs_fields rs') F_content_encoding = enc \<and>
    fa_get A (rs_fields rs') F_content_type = fa_get A (rs_fields rs) F_content_type \<and>
    (if enc = [] then framed A m rs'
     else fa_chunked A (rs_fields rs') \<and> fa_content_length A (rs_fields rs') = None)"
  using assms(2-6) fields_laws_simps [OF assms(1)]
  by (auto simp: prepare_response_def framed_def encoding_for_def set_field_def fa_get_def Let_def
      split: option.split)

lemma chosen_encoding_known:
  "server_apply_encoding cs es \<noteq> [] \<Longrightarrow> is_supported_encoding cs (server_apply_encoding cs es)"
  by (induction es) auto

text \<open>A file, sent as the response says and read as its content type says.\<close>

lemma file_read_by_client:
  assumes "\<forall>e. map_of cs e = map_of (compressor_factory b) e"
    and "\<forall>k. lossless F k \<and> flushes F (filter_open F (Compressor_Filter k))"
    and "rs_body rs = V_File file" and "file = (file_open data)\<lparr>fv_content_type := ct, fv_ranges := rgs\<rparr>"
    and "rgs = [] \<or> (\<exists>a b. rgs = [(int a, int b)] \<and> a \<le> b \<and> b < length data)"
    and "0 < B" and "int (length data) < 2 ^ 63" and "length data < n"
    and "bytes = (case rgs of [] \<Rightarrow> data | (a, b) # _ \<Rightarrow> take (nat (b + 1 - a)) (drop (nat a) data))"
    and "enc = fa_get A (rs_fields rs) F_content_encoding" and "enc = encoding_for A cs f"
    and "if enc = [] then framed A (length bytes) rs else fa_content_length A (rs_fields rs) = None"
  obtains sent_text where "body_text F cs J B junk n A rs = Some (sent_text, None)"
    and "if enc = [] then sent_text = bytes else bytes = [] \<longrightarrow> sent_text = []"
    and "\<And>segs body max_size. concat segs = sent_text \<Longrightarrow> enc = [] \<or> bytes \<noteq> [] \<Longrightarrow>
      read_as_text (fa_get A (rs_fields rs) F_content_type) \<Longrightarrow>
      body = (if enc = ''br'' then filter_run F (filter_open F (Compressor_Filter Brotli)) segs else bytes) \<Longrightarrow>
      length body \<le> max_size \<Longrightarrow> client_reads F cs J max_size A rs segs (V_String body)"
proof -
  let ?fw = "file_writer_new junk file"
  note fresh = fresh_file_writer [OF assms(6,7,5), of ?fw junk ct, folded assms(9), unfolded assms(4)]
  have "file_single_work ?fw < n" using fresh(2) assms(4,8) by simp
  note fw = fresh(1) [folded assms(4)] this fresh(3) [folded assms(4)]
  have ranges: "length (fv_ranges (fbw_body ?fw)) \<le> Suc 0"
    using assms(4,5) by (auto simp: file_writer_new_def)
  have w: "create_proxy_writer J junk (rs_body rs) = PW_File ?fw" using assms(3) by simp
  show thesis
  proof (cases "enc = []")
    case True
    have none: "factory_create cs enc = (None :: 'a compressor option)"
      using True assms(1) by (simp add: factory_create_def factory_lookup)
    have "body_text F cs J B junk n A rs = Some (bytes, None)"
      using file_w.drain_rest [OF fw(1,2)] fw(3) none assms(10)
      unfolding body_text_def w by (simp add: any_writer_init_def any_drain_plain drain_file)
    moreover have "client_reads F cs J max_size A rs segs (V_String (concat segs))"
      if "concat segs = bytes" "read_as_text (fa_get A (rs_fields rs) F_content_type)" "length bytes \<le> max_size"
      for segs max_size
      unfolding client_reads_def assms(10) [symmetric]
      using that True assms(12) by (intro plain_string_read [OF none]) (simp_all add: framed_def)
    ultimately show thesis using that True by simp
  next
    case False
    then have sup: "is_supported_encoding cs enc"
      using chosen_encoding_known assms(11) by (auto simp: encoding_for_def split: option.splits)
    then obtain k where k: "map_of cs enc = Some k" by (auto simp: is_supported_encoding_def)
    then have br: "k = Brotli \<longleftrightarrow> enc = ''br''"
      using assms(1) by (auto simp: factory_lookup split: if_splits)
    have "proxy_ready J pend B (PW_File ?fw)" "proxy_work pend (PW_File ?fw) < n"
      "proxy_silent (PW_File ?fw) \<longleftrightarrow> bytes = []" "proxy_rest pend (PW_File ?fw) = bytes" for pend
      using fw ranges by simp_all
    note facts = this(1,2) [of "\<lambda>_. []"] this(3) this(4) [of "\<lambda>_. []"]
    have lossless: "lossless F k" and flushes: "flushes F (filter_open F (Compressor_Filter k))"
      using assms(2) by simp_all
    note sent = any_body_sent [OF sup k lossless flushes w [unfolded assms(3), symmetric] facts(1,2),
        unfolded facts(3,4), THEN conjunct2]
    show thesis
    proof (cases "bytes = []")
      case True
      with sent False show thesis by (intro that [of "[]"]) (simp_all add: body_text_def w assms(10) [symmetric])
    next
      case ne: False
      with sent obtain sent_text where sent_text:
        "any_drain F (proxy_writer_get J B) n (any_writer_init F cs enc (PW_File ?fw)) = Some (sent_text, None)"
        "\<And>segs. concat segs = sent_text \<Longrightarrow>
          filter_run F (filter_open F (Decompressor_Filter k)) segs = bytes" by auto
      have "client_reads F cs J max_size A rs segs (V_String body)"
        if "concat segs = sent_text" "read_as_text (fa_get A (rs_fields rs) F_content_type)" "length body \<le> max_size"
          "body = (if enc = ''br'' then filter_run F (filter_open F (Compressor_Filter Brotli)) segs else bytes)"
        for segs body max_size
      proof -
        have dec: "filter_run F (filter_open F (init_filtering_ostreambuf k Decode)) segs = body"
          using that(1,4) sent_text(2) br by (auto simp: decode_filter brotli_decompressor_def)
        show ?thesis
          using string_read [OF sup k _ _ _ dec that(3), of "fa_get A (rs_fields rs) F_content_type" J] that(2)
            assms(12) False unfolding client_reads_def read_as_text_def assms(10) [symmetric] by simp
      qed
      with sent_text(1) False ne show thesis
        by (intro that [of sent_text]) (simp_all add: body_text_def w assms(10) [symmetric])
    qed
  qed
qed

end
