(* ===== verification/Type_Traits.thy ===== *)
theory Type_Traits
  imports Any_Body
begin

text \<open>
  The computations on types with which the templates choose their code
  (\<open>include/httplib/util/type\_traits.h\<close>, \<open>make\_coro\_handler\<close> of
  \<open>util/misc.hpp\<close>, the handler type of \<open>server/router.inl\<close> and \<open>match\_body\<close> of
  \<open>body/any\_body.hpp\<close>). A type of C++ is a value of \<open>cxx\_type\<close>, a partial specialisation
  an equation, and a program the compiler rejects \<open>None\<close>. Which call operator a class has is not in
  its name: it is the parameter \<open>ops\<close>, the type of \<open>&T::operator()\<close> where that
  expression is well formed, that is for a class with exactly one call operator which is no template.
\<close>

section \<open>Types\<close>

datatype ref_qualifier = No_Ref | Amp | Amp_Amp

record fun_quals =
  fq_const :: bool
  fq_volatile :: bool
  fq_ref :: ref_qualifier
  fq_noexcept :: bool
  fq_variadic :: bool

text \<open>A template has types as its arguments here; a function type has the qualifiers of a member.\<close>

datatype cxx_type =
    Named string
  | Template string "cxx_type list"
  | Cv bool bool cxx_type
  | Lvalue_Ref cxx_type
  | Rvalue_Ref cxx_type
  | Pointer cxx_type
  | Member_Pointer cxx_type cxx_type
  | Func cxx_type "cxx_type list" fun_quals

definition void_type :: cxx_type where
  "void_type = Named ''void''"

definition tuple_type :: "cxx_type list \<Rightarrow> cxx_type" where
  "tuple_type ts = Template ''std::tuple'' ts"

definition awaitable_type :: "cxx_type \<Rightarrow> cxx_type" where
  "awaitable_type t = Template ''boost::asio::awaitable'' [t, Named ''boost::asio::any_io_executor'']"

text \<open>From \<open><type\_traits>\<close>; arrays, which no handler is, are left out of \<open>decay\<close>.\<close>

fun remove_reference :: "cxx_type \<Rightarrow> cxx_type" where
  "remove_reference (Lvalue_Ref t) = t"
| "remove_reference (Rvalue_Ref t) = t"
| "remove_reference t = t"

fun remove_cv :: "cxx_type \<Rightarrow> cxx_type" where
  "remove_cv (Cv c v t) = t"
| "remove_cv t = t"

definition remove_cvref :: "cxx_type \<Rightarrow> cxx_type" where
  "remove_cvref t = remove_cv (remove_reference t)"

definition unqualified :: "fun_quals \<Rightarrow> bool" where
  "unqualified q \<longleftrightarrow> \<not> fq_const q \<and> \<not> fq_volatile q \<and> fq_ref q = No_Ref"

definition decay :: "cxx_type \<Rightarrow> cxx_type" where
  "decay t =
     (case remove_reference t of
        Func r args q \<Rightarrow> if unqualified q then Pointer (Func r args q) else Func r args q
      | u \<Rightarrow> remove_cv u)"

section \<open>Function traits\<close>

record function_traits =
  ft_parameters_type :: cxx_type
  ft_return_type :: cxx_type
  ft_class_type :: "cxx_type option"

definition traits_of ::
  "cxx_type option \<Rightarrow> cxx_type \<Rightarrow> cxx_type list \<Rightarrow> function_traits" where
  "traits_of this ret args =
     \<lparr>ft_parameters_type = (if args = [] then void_type else tuple_type (map remove_cvref args)),
      ft_return_type = ret, ft_class_type = this\<rparr>"

text \<open>
  The specialisations. Each is there with \<open>noexcept\<close> and without; without parameters the one
  that says \<open>void\<close> is more specialised than the one with a pack. A reference to a function is
  matched only when it has no parameters.
\<close>

fun function_traits_spec :: "cxx_type \<Rightarrow> function_traits option" where
  "function_traits_spec (Pointer (Func r args q)) =
     (if unqualified q \<and> \<not> fq_variadic q then Some (traits_of None r args) else None)"
| "function_traits_spec (Func r args q) =
     (if unqualified q \<and> \<not> fq_variadic q then Some (traits_of None r args) else None)"
| "function_traits_spec (Lvalue_Ref (Func r args q)) =
     (if unqualified q \<and> \<not> fq_variadic q \<and> args = [] then Some (traits_of None r []) else None)"
| "function_traits_spec (Member_Pointer this (Func r args q)) =
     (if \<not> fq_volatile q \<and> fq_ref q = No_Ref \<and> \<not> fq_variadic q then Some (traits_of (Some this) r args)
      else None)"
| "function_traits_spec t = None"

text \<open>
  The primary template takes the traits of the call operator, whose type is a pointer and so has no
  call operator itself.
\<close>

definition function_traits_for :: "(cxx_type \<Rightarrow> cxx_type option) \<Rightarrow> cxx_type \<Rightarrow> function_traits option" where
  "function_traits_for ops t =
     (case function_traits_spec t of
        Some tr \<Rightarrow> Some tr
      | None \<Rightarrow> (case ops t of None \<Rightarrow> None | Some m \<Rightarrow> function_traits_spec m))"

definition function_parameters_t :: "(cxx_type \<Rightarrow> cxx_type option) \<Rightarrow> cxx_type \<Rightarrow> cxx_type option" where
  "function_parameters_t ops f = map_option ft_parameters_type (function_traits_for ops (remove_cvref f))"

text \<open>There is a tuple of size 0, but no element before its first; \<open>void\<close> is no tuple.\<close>

definition last_parameters_type_t :: "(cxx_type \<Rightarrow> cxx_type option) \<Rightarrow> cxx_type \<Rightarrow> cxx_type option" where
  "last_parameters_type_t ops f =
     (case function_parameters_t ops f of
        Some (Template n ts) \<Rightarrow>
          if n = ''std::tuple'' \<and> ts \<noteq> [] then Some (ts ! (length ts - 1)) else None
      | _ \<Rightarrow> None)"

definition function_return_type_t :: "(cxx_type \<Rightarrow> cxx_type option) \<Rightarrow> cxx_type \<Rightarrow> cxx_type option" where
  "function_return_type_t ops f = map_option ft_return_type (function_traits_for ops (remove_cvref f))"

definition class_type_t :: "(cxx_type \<Rightarrow> cxx_type option) \<Rightarrow> cxx_type \<Rightarrow> cxx_type option" where
  "class_type_t ops f = Option.bind (function_traits_for ops (remove_cvref f)) ft_class_type"

fun remove_first :: "cxx_type \<Rightarrow> cxx_type" where
  "remove_first (Template n (t # ts)) =
     (if n = ''std::tuple'' then Template n ts else Template n (t # ts))"
| "remove_first t = t"

text \<open>The type of the empty arguments.\<close>

definition get_args :: "bool \<Rightarrow> cxx_type \<Rightarrow> cxx_type" where
  "get_args has_conn t = (if has_conn then remove_first t else t)"

fun is_specialization :: "cxx_type \<Rightarrow> string \<Rightarrow> bool" where
  "is_specialization (Template n ts) ref = (n = ref)"
| "is_specialization t ref = False"

definition is_awaitable :: "cxx_type \<Rightarrow> bool" where
  "is_awaitable t = is_specialization (remove_cvref t) ''boost::asio::awaitable''"

section \<open>Handlers\<close>

text \<open>What \<open>make\_coro\_handler\<close> returns: the handler, or a closure that holds it and is a coroutine.\<close>

datatype coro_handler =
    As_Is cxx_type
  | Wrapping cxx_type cxx_type

definition make_coro_handler :: "(cxx_type \<Rightarrow> cxx_type option) \<Rightarrow> cxx_type \<Rightarrow> coro_handler option" where
  "make_coro_handler ops func =
     (case function_traits_for ops (decay func) of
        None \<Rightarrow> None
      | Some tr \<Rightarrow>
          let return_type = ft_return_type tr
          in Some (if is_awaitable return_type then As_Is (decay func)
                   else Wrapping (decay func) return_type))"

text \<open>What calling it returns.\<close>

definition coro_handler_result :: "(cxx_type \<Rightarrow> cxx_type option) \<Rightarrow> coro_handler \<Rightarrow> cxx_type option" where
  "coro_handler_result ops h =
     (case h of
        As_Is d \<Rightarrow> map_option ft_return_type (function_traits_for ops d)
      | Wrapping d r \<Rightarrow> Some (awaitable_type r))"

text \<open>
  The closure is not \<open>mutable\<close>, so the handler it holds is constant when it is called, and an
  object must have a constant call operator.
\<close>

definition coro_handler_callable :: "(cxx_type \<Rightarrow> cxx_type option) \<Rightarrow> coro_handler \<Rightarrow> bool" where
  "coro_handler_callable ops h =
     (case h of
        As_Is d \<Rightarrow> True
      | Wrapping d r \<Rightarrow>
          (case ops d of Some (Member_Pointer c (Func r' args q)) \<Rightarrow> fq_const q | _ \<Rightarrow> True))"

text \<open>
  The router keeps a \<open>std::function\<close> that returns \<open>awaitable<void>\<close>, and makes it
  of the handler of a route without aspects. An awaitable cannot be copied: the result must be that
  type, or a reference it can be moved from. Whether the parameters take a request and a response is
  not looked at here.
\<close>

definition route_handler_admitted :: "(cxx_type \<Rightarrow> cxx_type option) \<Rightarrow> cxx_type \<Rightarrow> bool" where
  "route_handler_admitted ops func =
     (case make_coro_handler ops func of
        None \<Rightarrow> False
      | Some h \<Rightarrow>
          coro_handler_callable ops h \<and>
          coro_handler_result ops h \<in>
            {Some (awaitable_type void_type), Some (Rvalue_Ref (awaitable_type void_type))})"

text \<open>The overload for a member function holds it in a \<open>std::function\<close> of one of two types first.\<close>

datatype member_handler_type = Coro_Http_Handler_Type | Http_Handler_Type

definition member_handler_type ::
  "(cxx_type \<Rightarrow> cxx_type option) \<Rightarrow> cxx_type \<Rightarrow> member_handler_type option" where
  "member_handler_type ops func =
     map_option (\<lambda>tr. if is_awaitable (ft_return_type tr) then Coro_Http_Handler_Type else Http_Handler_Type)
       (function_traits_for ops func)"

section \<open>The body of a value\<close>

text \<open>A body is its name and its \<open>value\_type\<close>.\<close>

fun match_body :: "cxx_type \<Rightarrow> (cxx_type \<times> cxx_type) list \<Rightarrow> cxx_type" where
  "match_body t ((body, value_type) # bodies) = (if t = value_type then body else match_body t bodies)"
| "match_body t [] = void_type"

definition any_bodies :: "(cxx_type \<times> cxx_type) list" where
  "any_bodies =
     [(Named ''empty_body'', Named ''empty_body::value_type''),
      (Named ''string_body'', Named ''std::string''),
      (Named ''json_body'', Named ''json::value''),
      (Named ''form_data_body'', Named ''html::form_data''),
      (Named ''file_body'', Named ''file_body::value_type''),
      (Named ''query_params_body'', Named ''html::query_params'')]"

text \<open>The type of the alternative a variant holds, and the body whose writer a proxy is made of.\<close>

fun alternative_type :: "'j any_value \<Rightarrow> cxx_type" where
  "alternative_type V_Empty = Named ''empty_body::value_type''"
| "alternative_type (V_String s) = Named ''std::string''"
| "alternative_type (V_Json j) = Named ''json::value''"
| "alternative_type (V_Form f) = Named ''html::form_data''"
| "alternative_type (V_File f) = Named ''file_body::value_type''"
| "alternative_type (V_Query q) = Named ''html::query_params''"

fun proxy_body :: "'s proxy_writer \<Rightarrow> cxx_type" where
  "proxy_body (PW_Empty w) = Named ''empty_body''"
| "proxy_body (PW_String w) = Named ''string_body''"
| "proxy_body (PW_Json w) = Named ''json_body''"
| "proxy_body (PW_Form w) = Named ''form_data_body''"
| "proxy_body (PW_File w) = Named ''file_body''"
| "proxy_body (PW_Query w) = Named ''query_params_body''"

section \<open>Lemmas\<close>

lemma is_awaitable_type [simp]: "is_awaitable (awaitable_type t)"
  by (simp add: is_awaitable_def awaitable_type_def remove_cvref_def)

lemma void_not_awaitable [simp]: "\<not> is_awaitable void_type"
  by (simp add: is_awaitable_def void_type_def remove_cvref_def)

lemma awaitable_type_inject [simp]: "awaitable_type s = awaitable_type t \<longleftrightarrow> s = t"
  by (simp add: awaitable_type_def)

text \<open>The traits of a function are the same through a pointer, and through a reference after \<open>decay\<close>.\<close>

lemma function_traits_pointer: "function_traits_spec (Pointer (Func r args q)) = function_traits_spec (Func r args q)"
  by simp

lemma function_traits_decay:
  assumes "unqualified q"
  shows "function_traits_for ops (decay (Lvalue_Ref (Func r args q))) =
    (if fq_variadic q then (case ops (Pointer (Func r args q)) of None \<Rightarrow> None | Some m \<Rightarrow> function_traits_spec m)
     else Some (traits_of None r args))"
  using assms by (simp add: decay_def function_traits_for_def)

text \<open>There is a last parameter exactly when there is one, and it is the last.\<close>

lemma last_parameter:
  assumes "function_traits_for ops (remove_cvref f) = Some (traits_of this r args)"
  shows "last_parameters_type_t ops f = (if args = [] then None else Some (remove_cvref (last args)))"
  using assms
  by (simp add: last_parameters_type_t_def function_parameters_t_def traits_of_def void_type_def
      tuple_type_def last_conv_nth)

lemma remove_first_parameter: "remove_first (tuple_type (t # ts)) = tuple_type ts"
  by (simp add: tuple_type_def)

text \<open>Every handler that is made is a coroutine, and making it again changes nothing.\<close>

lemma make_coro_handler_awaitable:
  "make_coro_handler ops func = Some h \<Longrightarrow> \<exists>t. coro_handler_result ops h = Some t \<and> is_awaitable t"
  by (auto simp: make_coro_handler_def coro_handler_result_def Let_def split: option.splits if_splits)

lemma make_coro_handler_as_is:
  assumes "make_coro_handler ops func = Some (As_Is d)" and "decay d = d"
  shows "make_coro_handler ops d = Some (As_Is d)"
  using assms by (auto simp: make_coro_handler_def Let_def split: option.splits if_splits)

text \<open>
  Which function objects a route without aspects admits: the call operator must be neither volatile
  nor \<open>ref\<close>-qualified nor variadic, and either be a coroutine without a result, or be constant
  and return nothing. So a lambda that is \<open>mutable\<close> can be registered only when it is a coroutine, and
  one that returns a value not at all, though a \<open>std::function\<close> without a result would take both.
\<close>

lemma function_object_as_handler:
  assumes "decay func = Named n" and "ops (Named n) = Some (Member_Pointer (Named n) (Func r args q))"
  shows "route_handler_admitted ops func \<longleftrightarrow>
    \<not> fq_volatile q \<and> fq_ref q = No_Ref \<and> \<not> fq_variadic q \<and>
    (r = awaitable_type void_type \<or> r = Rvalue_Ref (awaitable_type void_type) \<or>
     r = void_type \<and> fq_const q)"
proof -
  have "is_awaitable (Rvalue_Ref (awaitable_type void_type))"
    by (simp add: is_awaitable_def awaitable_type_def remove_cvref_def)
  with assms show ?thesis
    by (auto simp: route_handler_admitted_def make_coro_handler_def coro_handler_result_def
        coro_handler_callable_def function_traits_for_def traits_of_def Let_def)
      (auto simp: awaitable_type_def)
qed

text \<open>A member function that returns a value can be registered, as its value is dropped on the way.\<close>

lemma member_handler_type_pointer:
  assumes "\<not> fq_volatile q" and "fq_ref q = No_Ref" and "\<not> fq_variadic q"
  shows "member_handler_type ops (Member_Pointer c (Func r args q)) =
    Some (if is_awaitable r then Coro_Http_Handler_Type else Http_Handler_Type)"
  using assms by (simp add: member_handler_type_def function_traits_for_def traits_of_def)

text \<open>With distinct value types every body is found by its own; a type that none of them has gives \<open>void\<close>.\<close>

lemma match_body_found:
  "distinct (map snd bodies) \<Longrightarrow> (b, v) \<in> set bodies \<Longrightarrow> match_body v bodies = b"
  by (induction v bodies rule: match_body.induct) force+

lemma match_body_none: "t \<notin> snd ` set bodies \<Longrightarrow> match_body t bodies = void_type"
  by (induction t bodies rule: match_body.induct) auto

lemma any_bodies_distinct: "distinct (map snd any_bodies)"
  by (simp add: any_bodies_def)

text \<open>
  The visitor of \<open>create\_proxy\_writer\<close> finds a body for every alternative, and it is the one
  whose writer the model makes.
\<close>

lemma proxy_writer_matches_body:
  "proxy_body (create_proxy_writer J junk v) = match_body (alternative_type v) any_bodies"
  by (cases v) (simp_all add: any_bodies_def)

end
