(* ===== verification/Spec2Isabelle.thy ===== *)
theory Spec2Isabelle
  imports Query_Params Http_Ranges Mime_Types Accept_Content Form_Data Form_Data_Body File_Body
    Simple_Bodies Any_Body Brotli Http_Message Html_Listing Http_Date Size_Text Response Mount_Point Router
    Routing Session_Props Session_Tasks Action_Queue_Spec When_All Client_Props Streams Client_Pool
    Server Server_Config Ws_Conn Ws_Client Ws_Stream Session_Streams End_To_End Type_Traits
begin

text \<open>
  A model of httplib, an HTTP server and client library in C++20 over Boost.Beast and Boost.Asio.

  \<^bold>\<open>How the program works.\<close> A server (\<open>http\_server::impl\<close>) accepts connections and
  runs a session for each. A session is a chain of tasks: it finds out whether the peer speaks TLS, does
  the handshake, and then reads requests, or hands the connection over to a proxy tunnel or to a
  WebSocket connection. For a request the router decides from the header whether it is worth reading
  the body, finds the route in a tree, runs its handler between the aspects, and the response is
  written, compressed when the client accepts it, or streamed. Bodies are read and written by a family
  of readers and writers behind one variant body. Handlers may be mount points, which serve files and
  directory listings. The client makes requests over a connection it reuses; pools keep idle clients.

  \<^bold>\<open>Theories and the code they model\<close>, from the bottom up (paths under src/):

  \<^item> \<open>Prelude\<close>: faults, results and the pieces of the C++ standard library that the code calls.
  \<^item> \<open>Util_Misc\<close>: \<open>include/httplib/util/misc.hpp\<close>, URL coding and splitting;
    \<open>Type_Traits\<close>: \<open>util/type_traits.h\<close> and the templates that choose by the type of a
    handler or a body, as functions on types: which handlers can be registered, and that every
    alternative of the variant body has its writer.
  \<^item> \<open>Query_Params\<close>, \<open>Http_Ranges\<close>, \<open>Accept_Content\<close>, \<open>Form_Data\<close>, \<open>Html_Listing\<close>:
    \<open>lib/html\<close>, one theory per file; \<open>Http_Date\<close>: the dates of \<open>html.cpp\<close> with the
    calendar of the C library and the date every response carries, \<open>Size_Text\<close>: its sizes, with the float they are converted to;
    \<open>Mime_Types\<close>: \<open>lib/mime_types.hpp\<close>.
  \<^item> \<open>Body_Interface\<close>: the contracts of body readers and writers as locales; \<open>Simple_Bodies\<close>,
    \<open>Form_Data_Body\<close>, \<open>File_Body\<close>, \<open>Compressor\<close>, \<open>Brotli\<close> and \<open>Any_Body\<close>:
    \<open>lib/body\<close>.
  \<^item> \<open>Http_Message\<close>, \<open>Response\<close>, \<open>Mount_Point\<close>: \<open>request.cpp\<close>, \<open>response.cpp\<close> and
    \<open>mount\_point\_entry.cpp\<close> of \<open>lib/server\<close>.
  \<^item> \<open>Route_Tree\<close>, \<open>Route_Table\<close>, \<open>Route_Spec\<close>, \<open>Router\<close>, \<open>Routing\<close>:
    \<open>lib/server/router_impl.cpp\<close> and the templates of \<open>include/httplib/server/router.inl\<close>;
    the tree refines a table from patterns to handlers, stated as the locale \<open>route\_table\<close>.
  \<^item> \<open>Session\<close>, \<open>Session_Props\<close>: \<open>http\_task\<close> of \<open>lib/server/session.cpp\<close>;
    \<open>Session_Tasks\<close>: the other tasks, \<open>run\<close> and \<open>abort\<close>; \<open>Session_Streams\<close>: a
    session over the plain and TLS streams of \<open>lib/stream\<close>.
  \<^item> \<open>Action_Queue\<close>: \<open>lib/util/action_queue_impl.hpp\<close>, with its abstract queue and its
    executions in \<open>Action_Queue_Spec\<close>; \<open>When_All\<close>: \<open>util/when_all.hpp\<close>; \<open>Ws_Conn\<close>:
    \<open>lib/server/websocket_conn_impl.cpp\<close>; \<open>Ws_Client\<close>: \<open>lib/client/ws_client_impl.cpp\<close>.
  \<^item> \<open>Server\<close>: the life of a server, \<open>Server_Config\<close>: its setup, both in
    \<open>lib/server/server_impl.cpp\<close> and \<open>server.cpp\<close>.
  \<^item> \<open>Client\<close>, \<open>Client_Props\<close>: \<open>lib/client/client_impl.cpp\<close>, \<open>client.cpp\<close>;
    \<open>Streams\<close>: \<open>lib/stream\<close>, the plain and TLS streams the client connects;
    \<open>Ws_Stream\<close>: \<open>websocket\_stream.hpp\<close>, with the connection and the WebSocket client over it;
    \<open>Client_Pool\<close>: \<open>client_pool.hpp\<close> and \<open>multi_client_pool.hpp\<close>, whose common contract is
    the locale \<open>client\_source\<close>.
  \<^item> \<open>End_To_End\<close>: a request of the client followed through the session and the routes to its
    handler, and to the file a mount point serves, and the encoding the two agree on; the properties are at the end of this theory.

  \<^bold>\<open>How the model is written.\<close> An object is a record, an operation a function from the old
  state to the new one; a C++ exception or an access out of bounds is a value of \<open>fault\<close>, an error
  code a flag or a value of \<open>ec\<close>. A handler is a function on an exchange, the request, the
  response and a state of the application, and may end in a fault. A coroutine that only waits for its own
  operations is a function; where coroutines interleave (the action queue, the server, the handles of a
  pool) the stretches between two suspensions are the steps of an inductive relation, and the properties
  are invariants of the states it reaches. A loop that depends on a peer may go on for ever and is a
  \<open>partial\_function\<close>, so that not returning is a value; what is said of its result says also when
  it returns. The loops over data of the program are total functions, so there is no fuel.

  \<^bold>\<open>What is a parameter.\<close> Code that is not under src/: the header container of Beast
  (\<open>fields\_api\<close>, with \<open>fields\_laws\<close>), its parsers, serializers, sockets and timers
  (\<open>stream\_api\<close>, \<open>client\_api\<close>, \<open>ws\_layer\<close>, \<open>tls\_api\<close>,
  \<open>proxy\_api\<close>, \<open>socket\_api\<close>, \<open>acceptor\_api\<close>, \<open>tls\_context\_api\<close>), the filters of Boost.Iostreams (\<open>filter\_api\<close>), the brotli library (\<open>brotli\_api\<close>), JSON
  (\<open>json\_api\<close>), the file system (\<open>fs\_api\<close>), \<open>std::regex\<close>, and what depends on the
  clock. Every property that assumes something of a parameter has a witness with a concrete one.

  \<^bold>\<open>What the lemmas show\<close>, by groups.
  \<^item> Coding: URL coding, query parameters, forms, compressed bodies and requests are round trips up to
    what the code loses (plus signs for spaces, values without a key, the encoding br), over any
    segmentation of the input; a date is read back where the standard offset of the zone has not
    changed, and off by the change otherwise; the in-place decoder is the plain one.
  \<^item> Bodies: what the writers send is the body, the range of a file, or its compressed text.
  \<^item> Routing: the handler called is that of a matching route with its parameters, or the answer is
    405 with the right methods, or 404; a mount point never leaves its directory.
  \<^item> Sessions: tasks run in order, at most four, and none after an abort; no byte of a body is taken for a
    request; streamed chunks, tunnels and WebSocket messages arrive whole and in order.
  \<^item> Server, queue and pools: the set of sessions is exact, a stopped server takes on at most 32 more
    connections, queued actions run once and in order, each of them some day, pools are bounded and hand out what was asked for.
  \<^item> Client: requests carry what was given and are understood by the server; a connection is kept
    only after a whole response that allows it; a request reaches the handler of its route, and a file
    is sent by a mount point, plain or under the encoding of the request, and read by the client as it is.
  \<^item> Error behaviour: where the code does not do what it means to, a theorem says what it does.

  \<^bold>\<open>Not modelled.\<close> The public classes that only forward to their implementation;
  \<open>is\_invocable\<close> of \<open>type\_traits.h\<close>, which nothing uses, and the adapters of
  \<open>use\_awaitable.hpp\<close>; what is logged; the branches for Windows; the exception of a
  filter that refuses a corrupt body, which is thrown inside the read operation of Boost and never reaches
  the session; the moment a timer expires, which shows only as an operation that fails. Two
  things that happen at the same time between two suspensions on different threads are ordered.
\<close>

section \<open>From the client to the handler\<close>

definition users_request :: "(plain_fields, string) client_request" where
  "users_request = get_request plain_api ''httplib'' (compressor_factory True)
     (client_new ''::1'' 81 False :: wire http_client) ''/users/m%65'' [(''k'', ''v w'')] []"

text \<open>
  C20. A GET request that the client makes, for a path without a question mark, reaches the handler it is
  meant for: the header it sends is taken by the session for a request of the decoded path and of the
  query entries as they arrive, which is with a plus sign for every space and with a value that has no
  key as a key without a value; and when a route for GET matches the decoded path, the router calls the
  handler registered last for such a route, with the parameters that the pattern binds in that path.
\<close>

theorem get_reaches_its_handler:
  fixes b :: "'j any_value"
  assumes "\<forall>r\<in>set regs. pat_valid ok (reg_pattern r)"
    and "path \<noteq> []" and "CHR ''?'' \<notin> set path" and "url_decode path = Inr path'"
    and "http_route regs pat V_get = Some h" and "pat_match rx pat (split_segments path')"
    and "q = get_request A version cs cl path params headers"
  shows "\<exists>req pat h.
    header_request remote \<lparr>rh_method = cr_method q, rh_target = cr_target q, rh_version = cr_version q,
      rh_fields = cr_fields q\<rparr> = Inr req \<and>
    rq_method req = V_get \<and> rq_fields req = cr_fields q \<and> request_path req = path' \<and>
    rq_query_params req = map arrived params \<and>
    http_route regs pat V_get = Some h \<and> pat_match rx pat (split_segments path') \<and>
    proc_routing A E rx (registered ok regs) \<lparr>ex_app = a, ex_req = req\<lparr>rq_body := b\<rparr>, ex_resp = rs\<rparr> =
      h \<lparr>ex_app = a, ex_req = set_path_param (map_of (pat_binds pat (split_segments path'))) (req\<lparr>rq_body := b\<rparr>),
         ex_resp = rs\<rparr>"
  by (rule client_get_routed [OF assms])

theorem get_reaches_its_handler_witness:
  "\<exists>req pat h.
    header_request ''::1'' \<lparr>rh_method = V_get, rh_target = cr_target users_request, rh_version = 11,
      rh_fields = cr_fields users_request\<rparr> = Inr req \<and>
    rq_method req = V_get \<and> rq_fields req = cr_fields users_request \<and> request_path req = ''/users/me'' \<and>
    rq_query_params req = [(''k'', ''v+w'')] \<and>
    http_route example_routes pat V_get = Some h \<and>
    pat_match (\<lambda>_ _. False) pat (split_segments ''/users/me'') \<and>
    proc_routing plain_api example_env (\<lambda>_ _. False) (registered (\<lambda>_. True) example_routes)
        \<lparr>ex_app = 0, ex_req = req\<lparr>rq_body := V_Empty\<rparr>, ex_resp = response_new plain_api example_env 11 True\<rparr> =
      h \<lparr>ex_app = 0,
         ex_req = set_path_param (map_of (pat_binds pat (split_segments ''/users/me''))) (req\<lparr>rq_body := V_Empty\<rparr>),
         ex_resp = response_new plain_api example_env 11 True\<rparr>"
proof -
  let ?pat = "[''users'', ''me'']"
  have sent: "cr_method users_request = V_get" "cr_version users_request = 11"
    unfolding users_request_def get_request_def make_http_request_def Let_def by simp_all
  have "split_segments ''/users/:id'' = [''users'', '':id'']" "split_segments ''/users'' = [''users'']"
      "split_segments ''/users/me'' = ?pat" by code_simp+
  then have route: "http_route example_routes ?pat V_get = Some (make_coro_http_handler (marking 3) [])"
    by (simp add: http_route_def example_routes_def)
  have matches: "pat_match (\<lambda>_ _. False) ?pat (split_segments ''/users/me'')" by code_simp
  have decoded: "url_decode ''/users/m%65'' = Inr ''/users/me''" by code_simp
  have entries: "map arrived [(''k'', ''v w'')] = [(''k'', ''v+w'')]" by (simp add: arrived_def)
  show ?thesis
    by (rule get_reaches_its_handler [OF example_routes_valid _ _ decoded route matches users_request_def,
        unfolded sent entries]) simp_all
qed


definition example_mount :: mount_point_entry where
  "example_mount = mount_point_new ''/f'' ''/srv''"

definition example_mounted :: "(nat, plain_fields, string, unit) registration list" where
  "example_mounted =
     [Http_Route V_get (mount_key ''/f'') (mount_handler plain_api example_env example_fs (\<lambda>es. ''json'') example_mount) [],
      Http_Route V_get ''/users/:id'' (marking 1) []]"

definition file_request :: "(plain_fields, string) client_request" where
  "file_request = get_request plain_api ''httplib'' (compressor_factory True)
     (client_new ''::1'' 81 False :: wire http_client) ''/f/a.txt'' []
     [(F_range, ''bytes=1-3''), (F_accept_encoding, ''gzip'')]"

lemma example_mounted_segments:
  "split_segments (mount_key ''/f'') = [''f'', ''*'']" "split_segments ''/users/:id'' = [''users'', '':id'']"
  "split_segments ''/f/a.txt'' = [''f'', ''a.txt'']"
  by code_simp+

lemma example_mounted_route:
  "http_route example_mounted pat V_get =
     (if pat = [''users'', '':id''] then Some (marking 1)
      else if pat = [''f'', ''*'']
      then Some (mount_handler plain_api example_env example_fs (\<lambda>es. ''json'') example_mount) else None)"
  unfolding example_mounted_def http_route_def
  by (simp add: example_mounted_segments make_coro_http_handler_def)


section \<open>The encoding the two agree on\<close>

text \<open>
  C7. What a client and a server with the same set of encodings make of each other. The server answers a
  request of the client, which sends its whole registry as Accept-Encoding, under the first encoding of
  the registry in the order its map has them; a string answered so is read by the client as it was, in
  whatever segments it arrives, unless that encoding is \<open>br\<close>: then the client runs the compressed
  text through the compressor once more and hands out the result.
\<close>

theorem negotiated_string_read:
  assumes "fields_laws A" and "same_registry cs" and "cs = (enc, k) # others"
    and "cl_chunk_handler cl = None" and "map_of (rev headers) F_accept_encoding = None"
    and "rq_fields req = cr_fields (make_http_request A version cs cl m path headers)"
    and "rq_method req \<noteq> V_head" and "rs_stream_handler rs = None"
    and "enc' = fa_get A (rs_fields (prepare_response S A cs req rs)) F_content_encoding"
    and "lossless F k" and "flushes F (filter_open F (Compressor_Filter k))"
    and "\<not> starts_with ''multipart/form-data'' ct" and "\<not> starts_with ''application/json'' ct"
    and "\<not> starts_with ''application/x-www-form-urlencoded'' ct"
    and "any_drain F (proxy_writer_get J B) 1
           (any_writer_init F cs enc' (create_proxy_writer J junk (V_String data))) = Some (text, e)"
    and "concat segs = text"
    and "body = (if enc = ''br'' then filter_run F (filter_open F (Compressor_Filter Brotli)) segs else data)"
    and "length body \<le> max_size"
  shows "enc' = enc \<and>
    (\<exists>r r'. any_reader_init F cs J max_size ct enc' None V_Empty = (r, None) \<and>
       any_feed F J max_size r segs = (r', None) \<and>
       any_reader_finish F J max_size r' = Inr (Inr (V_String body)))"
proof
  show enc: "enc' = enc"
    unfolding assms(9) by (rule negotiated_encoding [OF assms(1-8)])
  have cs: "is_supported_encoding cs enc" "map_of cs enc = Some k"
    using assms(3) by (simp_all add: is_supported_encoding_def)
  obtain chunks where sent: "concat chunks = data" "text = filter_run F (filter_open F (Compressor_Filter k)) chunks"
    by (rule string_sent [OF cs assms(11) assms(15) [unfolded enc]])
  have "map_of (compressor_factory True) enc = Some k" using cs(2) assms(2) by (simp add: same_registry_def)
  then have k: "k = Brotli \<longleftrightarrow> enc = ''br''" by (auto simp: factory_lookup split: if_splits)
  have "filter_run F (filter_open F (init_filtering_ostreambuf k Decode)) segs = body"
  proof (cases "enc = ''br''")
    case True
    then show ?thesis using k assms(17) by (simp add: brotli_decompressor_def)
  next
    case False
    then show ?thesis using k assms(10,16,17) sent by (simp add: lossless_def decode_filter)
  qed
  from string_read [OF cs assms(12-14) this assms(18)]
  show "\<exists>r r'. any_reader_init F cs J max_size ct enc' None V_Empty = (r, None) \<and>
       any_feed F J max_size r segs = (r', None) \<and>
       any_reader_finish F J max_size r' = Inr (Inr (V_String body))"
    unfolding enc .
qed

definition plain_request :: "(plain_fields, string) request" where
  "plain_request =
     \<lparr>rq_method = V_get, rq_target = ''/'', rq_version = 11,
      rq_fields = cr_fields (make_http_request plain_api ''httplib'' (compressor_factory True)
        (client_new ''::1'' 81 False :: wire http_client) V_get ''/'' [] :: (plain_fields, string) client_request),
      rq_body = V_Empty, rq_decoded_path = ''/'', rq_query_params = [], rq_remote_address = ''::1'',
      rq_path_params = Map.empty\<rparr>"

text \<open>With the registry in the order the map usually has, newest first: two letters become eleven bytes.\<close>

theorem negotiated_string_read_witness:
  "\<exists>r r'. any_reader_init doubling (compressor_factory True) text_json 100 ''text/plain'' ''br'' None V_Empty =
       (r, None) \<and>
     any_feed doubling text_json 100 r [''hhi'', ''iE''] = (r', None) \<and>
     any_reader_finish doubling text_json 100 r' = Inr (Inr (V_String ''hhhhiiiiEEE''))"
proof -
  let ?rs = "response_new plain_api example_env 11 True :: (plain_fields, string) response"
  obtain others where cs: "compressor_factory True = (''br'', Brotli) # others"
    by (simp add: compressor_factory_def register_compressor_def)
  have reg: "same_registry (compressor_factory True)" by (simp add: same_registry_def)
  have req: "rq_fields plain_request = cr_fields (make_http_request plain_api ''httplib'' (compressor_factory True)
        (client_new ''::1'' 81 False :: wire http_client) V_get ''/'' [] :: (plain_fields, string) client_request)"
    by (simp add: plain_request_def)
  have given: "cl_chunk_handler (client_new ''::1'' 81 False :: wire http_client) = None"
    "map_of (rev ([] :: (field \<times> string) list)) F_accept_encoding = None"
    "rq_method plain_request \<noteq> V_head" "rs_stream_handler ?rs = None"
    by (simp_all add: client_new_def plain_request_def response_new_def)
  define enc' where "enc' = fa_get plain_api
    (rs_fields (prepare_response script_api plain_api (compressor_factory True) plain_request ?rs)) F_content_encoding"
  have "enc' = ''br''"
    unfolding enc'_def by (rule negotiated_encoding [OF plain_laws reg cs given(1,2) req given(3,4)])
  have sent: "any_drain doubling (proxy_writer_get text_json 4096) 1
      (any_writer_init doubling (compressor_factory True) enc'
        (create_proxy_writer text_json 0 (V_String ''hi''))) = Some (''hhiiE'', None)"
    by (simp add: \<open>enc' = ''br''\<close> any_writer_init_def factory_create_def factory_lookup compressor_init_def
        any_writer_get_def compress_loop.simps string_writer_get_def compressor_write_def
        compressor_finish_def compressor_consume_all_def compressor_consume_def
        compressor_buffer_def encode_filter doubling_def)
  have body: "''hhhhiiiiEEE'' = (if ''br'' = ''br'' then
      filter_run doubling (filter_open doubling (Compressor_Filter Brotli)) [''hhi'', ''iE''] else ''hi'')"
    by (simp add: doubling_def)
  show ?thesis
    using negotiated_string_read [OF plain_laws reg cs given(1,2) req given(3,4) enc'_def
        doubling_laws [of Brotli] _ _ _ sent _ body, of "''text/plain''" 100]
    by (simp add: \<open>enc' = ''br''\<close>)
qed

end
